(* ===== verification/Prelude.thy ===== *)
theory Prelude
  imports Main "HOL-Library.Sublist"
begin

text \<open>
  Shared vocabulary of the development.

  A Go function that returns \<^verbatim>\<open>(T, error)\<close> is modelled by the sum type
  \<^typ>\<open>'e + 'a\<close>: \<^term>\<open>Inl\<close> carries the error of an early return, \<^term>\<open>Inr\<close> the result.
  A function that also changes the database (or another piece of shared state) is an
  \<open>action\<close>: it takes the state and returns the outcome together with the new state, so the
  effects of the statements before an early return stay visible.

  The rest of the theory holds the composition of actions, the rules by which an invariant
  or a frame property of a composed action follows from those of its parts, and a few facts
  on lists that several components use.
\<close>

named_theorems action_simps "evaluation of composed actions"
named_theorems keeps_intros "invariant preservation, compositionally"

section \<open>Actions\<close>

type_synonym ('s, 'e, 'a) action = "'s \<Rightarrow> ('e + 'a) \<times> 's"

definition ret :: "'a \<Rightarrow> ('s, 'e, 'a) action" where
  "ret x s = (Inr x, s)"

definition fail :: "'e \<Rightarrow> ('s, 'e, 'a) action" where
  "fail e s = (Inl e, s)"

definition andThen ::
  "('s, 'e, 'a) action \<Rightarrow> ('a \<Rightarrow> ('s, 'e, 'b) action) \<Rightarrow> ('s, 'e, 'b) action" where
  "andThen m f s = (case m s of (Inl e, s') \<Rightarrow> (Inl e, s') | (Inr x, s') \<Rightarrow> f x s')"

text \<open>The first error stops the loop, as the \<^verbatim>\<open>return err\<close> inside a Go \<^verbatim>\<open>for\<close> does.\<close>

fun for_each :: "('x \<Rightarrow> ('s, 'e, unit) action) \<Rightarrow> 'x list \<Rightarrow> ('s, 'e, unit) action" where
  "for_each f [] = ret ()"
| "for_each f (x # xs) = andThen (f x) (\<lambda>_. for_each f xs)"

lemma ret_eval [action_simps]: "ret x s = (Inr x, s)"
  by (simp add: ret_def)

lemma fail_eval [action_simps]: "fail e s = (Inl e, s)"
  by (simp add: fail_def)

lemma andThen_Inr [action_simps]: "m s = (Inr x, s') \<Longrightarrow> andThen m f s = f x s'"
  by (simp add: andThen_def)

lemma andThen_Inl [action_simps]: "m s = (Inl e, s') \<Longrightarrow> andThen m f s = (Inl e, s')"
  by (simp add: andThen_def)

lemma andThen_ret [simp]: "andThen (ret x) f = f x"
  by (simp add: fun_eq_iff andThen_def ret_def)

lemma andThen_fail [simp]: "andThen (fail e) f = fail e"
  by (simp add: fun_eq_iff andThen_def fail_def)

lemma andThen_assoc: "andThen (andThen m f) g = andThen m (\<lambda>x. andThen (f x) g)"
  by (auto simp: fun_eq_iff andThen_def split: prod.splits sum.splits)

lemma andThen_Inr_elim:
  assumes "andThen m f s = (Inr y, t)"
  obtains x s' where "m s = (Inr x, s')" and "f x s' = (Inr y, t)"
  using assms by (auto simp: andThen_def split: prod.splits sum.splits)

lemma ret_Inr_iff [simp]: "ret x s = (Inr y, t) \<longleftrightarrow> y = x \<and> t = s"
  by (auto simp: ret_def)

lemma ret_Inl_iff [simp]: "ret x s = (Inl e, t) \<longleftrightarrow> False"
  by (auto simp: ret_def)

lemma fail_Inr_iff [simp]: "fail e s = (Inr y, t) \<longleftrightarrow> False"
  by (auto simp: fail_def)

lemma fail_Inl_iff [simp]: "fail e s = (Inl e', t) \<longleftrightarrow> e' = e \<and> t = s"
  by (auto simp: fail_def)

section \<open>Relations kept by actions\<close>

text \<open>
  \<open>keeps R m\<close>: whatever \<open>m\<close> does, on success or on error, the state before and the state
  after are related by \<open>R\<close>. With \<open>R s t = (I s \<longrightarrow> I t)\<close> this is preservation of an
  invariant \<open>I\<close>; with \<open>R s t = (f t = f s)\<close> it is a frame property.
\<close>

definition keeps :: "('s \<Rightarrow> 's \<Rightarrow> bool) \<Rightarrow> ('s, 'e, 'a) action \<Rightarrow> bool" where
  "keeps R m \<longleftrightarrow> (\<forall>s. R s (snd (m s)))"

lemma keepsI: "(\<And>s r t. m s = (r, t) \<Longrightarrow> R s t) \<Longrightarrow> keeps R m"
  by (auto simp: keeps_def) (metis surjective_pairing)

lemma keepsD: "keeps R m \<Longrightarrow> m s = (r, t) \<Longrightarrow> R s t"
  by (auto simp: keeps_def) (metis snd_conv)

locale step_preorder =
  fixes R :: "'s \<Rightarrow> 's \<Rightarrow> bool"
  assumes R_refl: "R s s"
    and R_trans: "R s t \<Longrightarrow> R t u \<Longrightarrow> R s u"
begin

lemma keeps_ret: "keeps R (ret x)"
  by (simp add: keeps_def ret_def R_refl)

lemma keeps_fail: "keeps R (fail e)"
  by (simp add: keeps_def fail_def R_refl)

lemma keeps_andThen:
  assumes "keeps R m" and "\<And>x. keeps R (f x)"
  shows "keeps R (andThen m f)"
proof (rule keepsI)
  fix s r u assume run: "andThen m f s = (r, u)"
  obtain o' t where m: "m s = (o', t)" by fastforce
  then have st: "R s t" by (rule keepsD[OF assms(1)])
  show "R s u"
  proof (cases o')
    case (Inl e) with run m st show ?thesis by (simp add: andThen_def)
  next
    case (Inr x)
    with run m have "f x t = (r, u)" by (simp add: andThen_def)
    then have "R t u" by (rule keepsD[OF assms(2)])
    with st show ?thesis by (rule R_trans)
  qed
qed

lemma keeps_for_each:
  assumes "\<And>x. x \<in> set xs \<Longrightarrow> keeps R (f x)"
  shows "keeps R (for_each f xs)"
  using assms by (induction xs) (auto intro: keeps_ret keeps_andThen)

lemmas keeps_rules = keeps_ret keeps_fail keeps_andThen keeps_for_each

end

section \<open>Lists\<close>

lemma in_set_tl: "x \<in> set (tl xs) \<Longrightarrow> x \<in> set xs"
  by (cases xs) simp_all

lemma find_Some_in_set: "find P xs = Some x \<Longrightarrow> x \<in> set xs \<and> P x"
  by (induction xs) (auto split: if_splits)

lemma find_append: "find P (xs @ ys) = (case find P xs of None \<Rightarrow> find P ys | Some x \<Rightarrow> Some x)"
  by (induction xs) auto

lemma find_map_id:
  "(\<And>x. x \<in> set xs \<Longrightarrow> P (f x) = P x) \<Longrightarrow> find P (map f xs) = map_option f (find P xs)"
  by (induction xs) auto

lemma distinct_map_unique:
  "distinct (map f xs) \<Longrightarrow> x \<in> set xs \<Longrightarrow> y \<in> set xs \<Longrightarrow> f x = f y \<Longrightarrow> x = y"
  by (auto simp: distinct_map dest: inj_onD)

lemma filter_in_set_sorted_wrt: "sorted_wrt R xs \<Longrightarrow> sorted_wrt R (filter P xs)"
  by (rule sorted_wrt_filter)

text \<open>Sorting by a second key first and then by the main key gives the lexicographic order.\<close>

definition lex_le :: "('a \<Rightarrow> 'k::linorder) \<Rightarrow> ('a \<Rightarrow> 'l::linorder) \<Rightarrow> 'a \<Rightarrow> 'a \<Rightarrow> bool" where
  "lex_le f g a b \<longleftrightarrow> f a < f b \<or> (f a = f b \<and> g a \<le> g b)"

lemma insort_key_lex:
  assumes "sorted_wrt (lex_le f g) zs" and "\<forall>z \<in> set zs. g y \<le> g z"
  shows "sorted_wrt (lex_le f g) (insort_key f y zs)"
  using assms
proof (induction zs)
  case (Cons z zs)
  show ?case
  proof (cases "f y \<le> f z")
    case True
    with Cons.prems show ?thesis
      by (auto simp: lex_le_def intro: order.strict_trans1)
  next
    case False
    with Cons show ?thesis by (auto simp: set_insort_key lex_le_def)
  qed
qed simp

lemma sort_key_lex: "sorted_wrt (lex_le f g) (sort_key f (sort_key g xs))"
proof -
  have "sorted_wrt (lex_le f g) (sort_key f ys)" if "sorted (map g ys)" for ys
    using that by (induction ys) (auto intro: insort_key_lex)
  then show ?thesis by simp
qed

end
