(* ===== verification/GoBytes.thy ===== *)
theory GoBytes
  imports Prelude "HOL-Library.Word" "HOL-Library.Char_ord" "HOL-Library.List_Lexorder"
begin

text \<open>
  Go strings and the parts of \<^verbatim>\<open>strings\<close>, \<^verbatim>\<open>unicode\<close>, \<^verbatim>\<open>unicode/utf8\<close> and
  \<^verbatim>\<open>encoding/hex\<close> the program calls.  A Go string is a sequence of bytes; \<^typ>\<open>char\<close> is a
  byte (eight bits), so \<^typ>\<open>string\<close> is exactly a Go string and \<^term>\<open>length\<close> is \<^verbatim>\<open>len\<close>.
  \<^verbatim>\<open>s[i]\<close> past the end never occurs: slices become \<^term>\<open>take\<close> and \<^term>\<open>drop\<close> behind the
  bounds checks of the source.
\<close>

abbreviation byte_val :: "char \<Rightarrow> nat" where
  "byte_val c \<equiv> of_char c"

lemma byte_val_neq: "256 \<le> n \<Longrightarrow> byte_val c \<noteq> n"
  using nat_of_char_less_256[of c] by linarith

section \<open>Character classes of single bytes\<close>

text \<open>
  \<^verbatim>\<open>unicode.IsSpace(rune(b))\<close> on one byte is the Latin-1 test; the letters among the Latin-1
  code points are A--Z, a--z, U+00AA, U+00B5, U+00BA and U+00C0..U+00FF but U+00D7 and U+00F7;
  the only Latin-1 decimal digits are 0--9.
\<close>

definition is_space_byte :: "char \<Rightarrow> bool" where
  "is_space_byte c \<longleftrightarrow> (let b = byte_val c in
     b = 9 \<or> b = 10 \<or> b = 11 \<or> b = 12 \<or> b = 13 \<or> b = 32 \<or> b = 0x85 \<or> b = 0xA0)"

definition is_letter_byte :: "char \<Rightarrow> bool" where
  "is_letter_byte c \<longleftrightarrow> (let b = byte_val c in
     (65 \<le> b \<and> b \<le> 90) \<or> (97 \<le> b \<and> b \<le> 122) \<or> b = 0xAA \<or> b = 0xB5 \<or> b = 0xBA
     \<or> (0xC0 \<le> b \<and> b \<noteq> 0xD7 \<and> b \<noteq> 0xF7))"

definition is_digit :: "char \<Rightarrow> bool" where
  "is_digit c \<longleftrightarrow> 48 \<le> byte_val c \<and> byte_val c \<le> 57"

definition digit_val :: "char \<Rightarrow> nat" where
  "digit_val c = byte_val c - 48"

definition is_hex :: "char \<Rightarrow> bool" where
  "is_hex c \<longleftrightarrow> is_digit c \<or> (let b = byte_val c in (65 \<le> b \<and> b \<le> 70) \<or> (97 \<le> b \<and> b \<le> 102))"

definition hex_val :: "char \<Rightarrow> nat" where
  "hex_val c = (let b = byte_val c in
     if b \<le> 57 then b - 48 else if b \<le> 70 then b - 55 else b - 87)"

definition upper_byte :: "char \<Rightarrow> char" where
  "upper_byte c = (if 97 \<le> byte_val c \<and> byte_val c \<le> 122 then char_of (byte_val c - 32) else c)"

definition lower_byte :: "char \<Rightarrow> char" where
  "lower_byte c = (if 65 \<le> byte_val c \<and> byte_val c \<le> 90 then char_of (byte_val c + 32) else c)"

definition is_ascii :: "string \<Rightarrow> bool" where
  "is_ascii s \<longleftrightarrow> (\<forall>c \<in> set s. byte_val c < 128)"

section \<open>Decimal and hexadecimal digits\<close>

definition digit_char :: "nat \<Rightarrow> char" where
  "digit_char d = char_of (48 + d)"

definition hex_upper_char :: "nat \<Rightarrow> char" where
  "hex_upper_char d = (if d < 10 then char_of (48 + d) else char_of (55 + d))"

definition hex_lower_char :: "nat \<Rightarrow> char" where
  "hex_lower_char d = (if d < 10 then char_of (48 + d) else char_of (87 + d))"

fun digits_of :: "nat \<Rightarrow> string" where
  "digits_of n = (if n < 10 then [digit_char n] else digits_of (n div 10) @ [digit_char (n mod 10)])"

declare digits_of.simps [simp del]

text \<open>\<^verbatim>\<open>%d\<close> of a signed integer.\<close>

definition itoa :: "int \<Rightarrow> string" where
  "itoa i = (if i < 0 then CHR ''-'' # digits_of (nat (- i)) else digits_of (nat i))"

fun val_of_digits :: "nat \<Rightarrow> string \<Rightarrow> nat" where
  "val_of_digits acc [] = acc"
| "val_of_digits acc (c # cs) = val_of_digits (10 * acc + digit_val c) cs"

lemma digit_char_facts:
  assumes "d < 10"
  shows "is_digit (digit_char d)" and "digit_val (digit_char d) = d"
  using assms by (simp_all add: is_digit_def digit_val_def digit_char_def)

lemma val_of_digits_append:
  "val_of_digits acc (xs @ ys) = val_of_digits (val_of_digits acc xs) ys"
  by (induction xs arbitrary: acc) auto

lemma digits_of_all_digits: "\<forall>c \<in> set (digits_of n). is_digit c"
proof (induction n rule: digits_of.induct)
  case (1 n)
  then show ?case
    by (cases "n < 10") (auto simp: digits_of.simps[of n] digit_char_facts)
qed

lemma digits_of_nonempty [simp]: "digits_of n \<noteq> []"
  by (subst digits_of.simps) auto

lemma val_of_digits_of: "val_of_digits 0 (digits_of n) = n"
proof (induction n rule: digits_of.induct)
  case (1 n)
  then show ?case
    by (cases "n < 10") (simp_all add: digits_of.simps[of n] digit_char_facts val_of_digits_append)
qed

lemma digits_of_inject: "digits_of m = digits_of n \<Longrightarrow> m = n"
  by (metis val_of_digits_of)

text \<open>\<^verbatim>\<open>hex.DecodeString\<close> reports an error on an odd length or a byte that is no hex digit.\<close>

definition hex_decodable :: "string \<Rightarrow> bool" where
  "hex_decodable s \<longleftrightarrow> even (length s) \<and> (\<forall>c \<in> set s. is_hex c)"

text \<open>
  \<^verbatim>\<open>strings.ToUpper\<close>.  Bytes outside ASCII are left alone here; Unicode upper-casing never
  turns one of them into a hexadecimal digit, and the only strings the program upper-cases are
  compared with strings of hexadecimal digits.
\<close>

definition to_upper :: "string \<Rightarrow> string" where
  "to_upper s = map upper_byte s"

lemma length_to_upper [simp]: "length (to_upper s) = length s"
  by (simp add: to_upper_def)

section \<open>Searching and splitting\<close>

fun index_of :: "char \<Rightarrow> string \<Rightarrow> nat option" where
  "index_of c [] = None"
| "index_of c (x # xs) = (if x = c then Some 0 else map_option Suc (index_of c xs))"

fun last_index_of :: "char \<Rightarrow> string \<Rightarrow> nat option" where
  "last_index_of c [] = None"
| "last_index_of c (x # xs) = (case last_index_of c xs of
     Some i \<Rightarrow> Some (Suc i) | None \<Rightarrow> if x = c then Some 0 else None)"

fun split_on :: "char \<Rightarrow> string \<Rightarrow> string list" where
  "split_on c [] = [[]]"
| "split_on c (x # xs) =
     (if x = c then [] # split_on c xs
      else (case split_on c xs of [] \<Rightarrow> [[x]] | y # ys \<Rightarrow> (x # y) # ys))"

fun join_with :: "string \<Rightarrow> string list \<Rightarrow> string" where
  "join_with sep [] = []"
| "join_with sep [x] = x"
| "join_with sep (x # y # ys) = x @ sep @ join_with sep (y # ys)"

lemma index_of_SomeD:
  "index_of c s = Some i \<Longrightarrow> i < length s \<and> s ! i = c \<and> c \<notin> set (take i s)"
  by (induction s arbitrary: i) (auto split: if_splits)

lemma index_of_None_iff: "index_of c s = None \<longleftrightarrow> c \<notin> set s"
  by (induction s) auto

lemma last_index_of_None_iff: "last_index_of c s = None \<longleftrightarrow> c \<notin> set s"
  by (induction s) (auto split: option.splits)

lemma last_index_of_SomeD:
  "last_index_of c s = Some i \<Longrightarrow> i < length s \<and> s ! i = c \<and> c \<notin> set (drop (Suc i) s)"
  by (induction s arbitrary: i)
     (auto split: option.splits if_splits simp: last_index_of_None_iff)

lemma last_index_of_append:
  assumes "c \<notin> set t"
  shows "last_index_of c (s @ c # t) = Some (length s)"
proof -
  have "last_index_of c t = None" using assms by (simp add: last_index_of_None_iff)
  then show ?thesis by (induction s) auto
qed

lemma split_on_nonempty [simp]: "split_on c s \<noteq> []"
  by (induction s) (auto split: list.splits)

lemma split_on_no_sep: "c \<notin> set s \<Longrightarrow> split_on c s = [s]"
  by (induction s) auto

lemma split_on_cons:
  "c \<notin> set s \<Longrightarrow> split_on c (s @ c # t) = s # split_on c t"
  by (induction s) (auto split: list.splits)

lemma split_on_join:
  "split_on c s = xs \<Longrightarrow> join_with [c] xs = s"
proof (induction s arbitrary: xs)
  case (Cons x s)
  obtain y ys where sp: "split_on c s = y # ys" by (meson neq_Nil_conv split_on_nonempty)
  have "join_with [c] (y # ys) = s" by (rule Cons.IH) (simp add: sp)
  with Cons.prems sp show ?case by (cases ys) (auto split: if_splits)
qed simp

lemma split_on_parts_clean: "p \<in> set (split_on c s) \<Longrightarrow> c \<notin> set p"
  by (induction s arbitrary: p) (auto split: list.splits if_splits)

lemma split_on_join_with:
  "xs \<noteq> [] \<Longrightarrow> \<forall>x \<in> set xs. c \<notin> set x \<Longrightarrow> split_on c (join_with [c] xs) = xs"
proof (induction xs rule: induct_list012)
  case (3 x y ys)
  then have "split_on c (x @ c # join_with [c] (y # ys)) = x # split_on c (join_with [c] (y # ys))"
    by (intro split_on_cons) simp
  with 3 show ?case by simp
qed (simp_all add: split_on_no_sep)

lemma index_of_append: "c \<notin> set s \<Longrightarrow> index_of c (s @ c # t) = Some (length s)"
  by (induction s) auto

end
