(* ===== verification/GoText.thy ===== *)
theory GoText
  imports GoBytes
begin

text \<open>
  UTF-8 decoding, white-space trimming and case folding as \<^verbatim>\<open>unicode/utf8\<close> and
  \<^verbatim>\<open>strings\<close> do them, on strings that need not be valid UTF-8.
\<close>

section \<open>UTF-8 decoding\<close>

text \<open>
  \<^verbatim>\<open>utf8.DecodeRuneInString\<close>: the code point and its width; an invalid or cut-off sequence
  gives \<^verbatim>\<open>RuneError\<close> with width 1, the empty string gives width 0.
\<close>

definition rune_error :: nat where
  "rune_error = 0xFFFD"

definition in_range :: "nat \<Rightarrow> nat \<Rightarrow> char \<Rightarrow> bool" where
  "in_range lo hi c \<longleftrightarrow> lo \<le> byte_val c \<and> byte_val c \<le> hi"

definition decode2 :: "nat \<Rightarrow> string \<Rightarrow> nat \<times> nat" where
  "decode2 b0 cs = (case cs of
     c1 # _ \<Rightarrow> if in_range 0x80 0xBF c1
               then ((b0 - 0xC0) * 64 + (byte_val c1 - 0x80), 2) else (rune_error, 1)
   | [] \<Rightarrow> (rune_error, 1))"

definition decode3 :: "nat \<Rightarrow> nat \<Rightarrow> nat \<Rightarrow> string \<Rightarrow> nat \<times> nat" where
  "decode3 lo hi b0 cs = (case cs of
     c1 # c2 # _ \<Rightarrow> if in_range lo hi c1 \<and> in_range 0x80 0xBF c2
               then ((b0 - 0xE0) * 4096 + (byte_val c1 - 0x80) * 64 + (byte_val c2 - 0x80), 3)
               else (rune_error, 1)
   | _ \<Rightarrow> (rune_error, 1))"

definition decode4 :: "nat \<Rightarrow> nat \<Rightarrow> nat \<Rightarrow> string \<Rightarrow> nat \<times> nat" where
  "decode4 lo hi b0 cs = (case cs of
     c1 # c2 # c3 # _ \<Rightarrow> if in_range lo hi c1 \<and> in_range 0x80 0xBF c2 \<and> in_range 0x80 0xBF c3
               then ((b0 - 0xF0) * 262144 + (byte_val c1 - 0x80) * 4096
                     + (byte_val c2 - 0x80) * 64 + (byte_val c3 - 0x80), 4)
               else (rune_error, 1)
   | _ \<Rightarrow> (rune_error, 1))"

fun decode_rune :: "string \<Rightarrow> nat \<times> nat" where
  "decode_rune [] = (rune_error, 0)"
| "decode_rune (c # cs) = (let b0 = byte_val c in
     if b0 < 0x80 then (b0, 1)
     else if b0 < 0xC2 then (rune_error, 1)
     else if b0 \<le> 0xDF then decode2 b0 cs
     else if b0 = 0xE0 then decode3 0xA0 0xBF b0 cs
     else if b0 = 0xED then decode3 0x80 0x9F b0 cs
     else if b0 \<le> 0xEF then decode3 0x80 0xBF b0 cs
     else if b0 = 0xF0 then decode4 0x90 0xBF b0 cs
     else if b0 \<le> 0xF3 then decode4 0x80 0xBF b0 cs
     else if b0 = 0xF4 then decode4 0x80 0x8F b0 cs
     else (rune_error, 1))"

lemmas decode_defs = decode2_def decode3_def decode4_def

lemma decode_rune_width:
  assumes "s \<noteq> []"
  shows "1 \<le> snd (decode_rune s)" and "snd (decode_rune s) \<le> length s"
proof -
  obtain c cs where s: "s = c # cs" using assms by (cases s) auto
  show "1 \<le> snd (decode_rune s)"
    by (simp add: s Let_def decode_defs split: list.split)
  show "snd (decode_rune s) \<le> length s"
    by (simp add: s Let_def decode_defs split: list.split)
qed

lemma decode_rune_ascii: "byte_val c < 128 \<Longrightarrow> decode_rune (c # cs) = (byte_val c, 1)"
  by simp

text \<open>The code points of \<^verbatim>\<open>for _, r := range s\<close>.\<close>

function runes_of :: "string \<Rightarrow> nat list" where
  "runes_of s = (if s = [] then [] else
     (let (r, n) = decode_rune s in r # runes_of (drop n s)))"
  by pat_completeness auto
termination
proof (relation "measure length", goal_cases)
  case (2 s p r n)
  then have "1 \<le> n" using decode_rune_width(1)[of s] by (metis snd_conv)
  with 2 show ?case by simp
qed simp

declare runes_of.simps [simp del]

lemma runes_of_Nil [simp]: "runes_of [] = []"
  by (subst runes_of.simps) simp

lemma runes_of_ascii_cons:
  "byte_val c < 128 \<Longrightarrow> runes_of (c # cs) = byte_val c # runes_of cs"
  by (subst runes_of.simps) simp

lemma runes_of_ascii: "is_ascii s \<Longrightarrow> runes_of s = map byte_val s"
  by (induction s) (auto simp: is_ascii_def runes_of_ascii_cons)

section \<open>Trimming white space\<close>

text \<open>
  The UTF-8 encodings of the code points of Unicode's White_Space.  \<^verbatim>\<open>strings.TrimSpace\<close> drops
  them from the front, then from the back.  No encoding is a proper prefix or suffix of another
  encoding of a code point, so looking for one of these byte strings at an end of the string
  is decoding the rune there.
\<close>

definition ws_encodings :: "string list" where
  "ws_encodings =
     [[CHR 0x09], [CHR 0x0A], [CHR 0x0B], [CHR 0x0C], [CHR 0x0D], [CHR 0x20],
      [CHR 0xC2, CHR 0x85], [CHR 0xC2, CHR 0xA0], [CHR 0xE1, CHR 0x9A, CHR 0x80],
      [CHR 0xE2, CHR 0x80, CHR 0x80], [CHR 0xE2, CHR 0x80, CHR 0x81],
      [CHR 0xE2, CHR 0x80, CHR 0x82], [CHR 0xE2, CHR 0x80, CHR 0x83],
      [CHR 0xE2, CHR 0x80, CHR 0x84], [CHR 0xE2, CHR 0x80, CHR 0x85],
      [CHR 0xE2, CHR 0x80, CHR 0x86], [CHR 0xE2, CHR 0x80, CHR 0x87],
      [CHR 0xE2, CHR 0x80, CHR 0x88], [CHR 0xE2, CHR 0x80, CHR 0x89],
      [CHR 0xE2, CHR 0x80, CHR 0x8A], [CHR 0xE2, CHR 0x80, CHR 0xA8],
      [CHR 0xE2, CHR 0x80, CHR 0xA9], [CHR 0xE2, CHR 0x80, CHR 0xAF],
      [CHR 0xE2, CHR 0x81, CHR 0x9F], [CHR 0xE3, CHR 0x80, CHR 0x80]]"

definition head_len :: "string list \<Rightarrow> string \<Rightarrow> nat" where
  "head_len ws s = (case find (\<lambda>w. prefix w s) ws of None \<Rightarrow> 0 | Some w \<Rightarrow> length w)"

function strip :: "string list \<Rightarrow> string \<Rightarrow> string" where
  "strip ws s = (if s = [] \<or> head_len ws s = 0 then s else strip ws (drop (head_len ws s) s))"
  by pat_completeness auto
termination by (relation "measure (\<lambda>(ws, s). length s)") auto

declare strip.simps [simp del]

definition trim_left :: "string \<Rightarrow> string" where
  "trim_left s = strip ws_encodings s"

definition trim_right :: "string \<Rightarrow> string" where
  "trim_right s = rev (strip (map rev ws_encodings) (rev s))"

definition trim_space :: "string \<Rightarrow> string" where
  "trim_space s = trim_right (trim_left s)"

lemma strip_Nil [simp]: "strip ws [] = []"
  by (subst strip.simps) simp

lemma strip_suffix: "\<exists>p. s = p @ strip ws s"
proof (induction ws s rule: strip.induct)
  case (1 ws s)
  show ?case
  proof (cases "s = [] \<or> head_len ws s = 0")
    case True
    then have "strip ws s = s" by (subst strip.simps) simp
    then show ?thesis by simp
  next
    case False
    with "1.IH" obtain p where p: "drop (head_len ws s) s = p @ strip ws (drop (head_len ws s) s)"
      by blast
    have "s = take (head_len ws s) s @ drop (head_len ws s) s" by simp
    with p False have "s = (take (head_len ws s) s @ p) @ strip ws s"
      by (metis append.assoc strip.simps)
    then show ?thesis ..
  qed
qed

lemma strip_idle: "head_len ws s = 0 \<Longrightarrow> strip ws s = s"
  by (subst strip.simps) simp

lemma strip_head: "strip ws s = [] \<or> head_len ws (strip ws s) = 0"
proof (induction ws s rule: strip.induct)
  case (1 ws s)
  then show ?case by (cases "s = [] \<or> head_len ws s = 0") (simp_all add: strip.simps[of ws s])
qed

lemma head_len_0_iff:
  assumes "[] \<notin> set ws"
  shows "head_len ws s = 0 \<longleftrightarrow> (\<forall>w \<in> set ws. \<not> prefix w s)"
proof
  assume z: "head_len ws s = 0"
  show "\<forall>w \<in> set ws. \<not> prefix w s"
  proof (cases "find (\<lambda>w. prefix w s) ws")
    case None then show ?thesis by (simp add: find_None_iff)
  next
    case (Some w)
    then have "w \<in> set ws" by (rule find_Some_in_set[THEN conjunct1])
    with Some z assms show ?thesis by (auto simp: head_len_def)
  qed
next
  assume "\<forall>w \<in> set ws. \<not> prefix w s"
  then have "find (\<lambda>w. prefix w s) ws = None" by (simp add: find_None_iff)
  then show "head_len ws s = 0" by (simp add: head_len_def)
qed

lemma ws_encodings_nonempty [simp]:
  "[] \<notin> set ws_encodings" "[] \<notin> set (map rev ws_encodings)"
  by (simp_all add: ws_encodings_def)

lemma trim_left_idle_prefix:
  assumes "head_len ws_encodings (s @ t) = 0"
  shows "head_len ws_encodings s = 0"
  using assms by (auto simp: head_len_0_iff)

lemma trim_space_Nil [simp]: "trim_space [] = []"
  by (simp add: trim_space_def trim_left_def trim_right_def)

lemma strip_Nil_chars: "strip ws s = [] \<Longrightarrow> set s \<subseteq> \<Union> (set ` set ws)"
proof (induction ws s rule: strip.induct)
  case (1 ws s)
  show ?case
  proof (cases "s = [] \<or> head_len ws s = 0")
    case True
    with "1.prems" show ?thesis by (auto simp: strip_idle)
  next
    case False
    then obtain w where w: "find (\<lambda>w. prefix w s) ws = Some w" and n: "head_len ws s = length w"
      by (auto simp: head_len_def split: option.splits)
    then have "w \<in> set ws" "prefix w s" using find_Some_in_set by fast+
    then obtain t where s: "s = w @ t" by (auto simp: prefix_def)
    from "1.prems" False have "strip ws (drop (head_len ws s) s) = []"
      by (simp add: strip.simps[of ws s])
    with "1.IH" False have "set (drop (head_len ws s) s) \<subseteq> \<Union> (set ` set ws)" by blast
    with n s \<open>w \<in> set ws\<close> show ?thesis by auto
  qed
qed

lemma set_strip: "set (strip ws s) \<subseteq> set s"
  using strip_suffix[of s ws] by (metis Un_upper2 set_append)

lemma set_trim_space: "set (trim_space s) \<subseteq> set s"
  using set_strip[of ws_encodings s] set_strip[of "map rev ws_encodings" "rev (strip ws_encodings s)"]
  by (auto simp: trim_space_def trim_left_def trim_right_def)

text \<open>The bytes that occur in an encoding, and those that begin or end one.\<close>

definition ws_byte :: "char \<Rightarrow> bool" where
  "ws_byte c \<longleftrightarrow> (let b = byte_val c in (9 \<le> b \<and> b \<le> 13) \<or> b = 32 \<or> 128 \<le> b)"

lemma ws_encodings_bytes: "w \<in> set ws_encodings \<Longrightarrow> c \<in> set w \<Longrightarrow> ws_byte c"
proof -
  have "list_all (list_all ws_byte) ws_encodings" by code_simp
  then show "w \<in> set ws_encodings \<Longrightarrow> c \<in> set w \<Longrightarrow> ws_byte c" by (auto simp: list_all_iff)
qed

lemma head_len_graphic:
  assumes "\<not> ws_byte c"
  shows "head_len ws_encodings (c # s) = 0" and "head_len (map rev ws_encodings) (c # s) = 0"
proof -
  have no: "\<not> prefix w (c # s)" if "w \<in> set ws_encodings \<or> rev w \<in> set ws_encodings" for w
  proof
    assume p: "prefix w (c # s)"
    have "w \<noteq> []" using that ws_encodings_nonempty by (metis rev.simps(1) rev_rev_ident)
    with p obtain w' where "w = c # w'" by (cases w) auto
    with that show False using ws_encodings_bytes assms
      by (metis list.set_intros(1) set_rev)
  qed
  from no show "head_len ws_encodings (c # s) = 0" by (simp add: head_len_0_iff)
  from no show "head_len (map rev ws_encodings) (c # s) = 0"
    by (subst head_len_0_iff) (use ws_encodings_nonempty(2) in \<open>auto simp del: ws_encodings_nonempty\<close>)
qed

lemma trim_space_id:
  assumes "s \<noteq> []" and "\<not> ws_byte (hd s)" and "\<not> ws_byte (last s)"
  shows "trim_space s = s"
proof -
  obtain c cs where s: "s = c # cs" using assms(1) by (cases s) auto
  have "trim_left s = s" using assms(2) by (simp add: trim_left_def s strip_idle head_len_graphic)
  moreover obtain d ds where r: "rev s = d # ds" and "d = last s"
    using assms(1) by (metis last_rev list.exhaust_sel rev_is_Nil_conv rev_rev_ident)
  then have "trim_right s = rev (d # ds)"
    using assms(3) unfolding trim_right_def r by (metis strip_idle head_len_graphic(2))
  with r have "trim_right s = s" by (metis rev_rev_ident)
  ultimately show ?thesis by (simp add: trim_space_def)
qed

lemma trim_space_graphic:
  "s \<noteq> [] \<Longrightarrow> \<forall>c \<in> set s. \<not> ws_byte c \<Longrightarrow> trim_space s = s"
  by (rule trim_space_id) simp_all

lemma trim_space_nonempty:
  assumes "c \<in> set s" and "\<not> ws_byte c"
  shows "trim_space s \<noteq> []"
proof
  assume e: "trim_space s = []"
  have left: "set t \<subseteq> {c. ws_byte c}" if "strip ws_encodings t = []" for t
    using strip_Nil_chars[OF that] ws_encodings_bytes by blast
  have "strip (map rev ws_encodings) (rev (strip ws_encodings s)) = []"
    using e by (simp add: trim_space_def trim_left_def trim_right_def)
  from strip_Nil_chars[OF this] have "set (strip ws_encodings s) \<subseteq> {c. ws_byte c}"
    using ws_encodings_bytes by auto
  moreover have "c \<in> set (strip ws_encodings s)"
    using assms
  proof (induction ws_encodings s rule: strip.induct)
    case (1 s)
    show ?case
    proof (cases "s = [] \<or> head_len ws_encodings s = 0")
      case True
      with "1.prems" show ?thesis by (auto simp: strip_idle)
    next
      case False
      then obtain w where w: "find (\<lambda>w. prefix w s) ws_encodings = Some w"
        and n: "head_len ws_encodings s = length w"
        by (auto simp: head_len_def split: option.splits)
      then have "w \<in> set ws_encodings" "prefix w s" using find_Some_in_set by fast+
      then obtain t where t: "s = w @ t" by (auto simp: prefix_def)
      have "c \<notin> set w" using ws_encodings_bytes[OF \<open>w \<in> set ws_encodings\<close>] "1.prems"(2) by auto
      with t n "1.prems"(1) have "c \<in> set (drop (head_len ws_encodings s) s)" by simp
      with 1 False have "c \<in> set (strip ws_encodings (drop (head_len ws_encodings s) s))" by blast
      with False show ?thesis by (simp add: strip.simps[of ws_encodings s])
    qed
  qed
  ultimately show False using assms(2) by blast
qed

section \<open>Case folding\<close>

text \<open>
  \<^verbatim>\<open>strings.EqualFold\<close> compares rune by rune up to simple case folding.  The folding orbits
  that contain an ASCII letter are the two cases of the letter, with the Kelvin sign U+212A
  joining \<open>k\<close> and the long s U+017F joining \<open>s\<close>.  Two runes that are both outside ASCII are
  compared for equality only: the model is exact as soon as one of the strings is ASCII, which
  the metric names of parsed events are.
\<close>

definition fold_rune :: "nat \<Rightarrow> nat" where
  "fold_rune r = (if 65 \<le> r \<and> r \<le> 90 then r + 32
     else if r = 0x212A then 107 else if r = 0x17F then 115 else r)"

definition equal_fold :: "string \<Rightarrow> string \<Rightarrow> bool" where
  "equal_fold s t \<longleftrightarrow> map fold_rune (runes_of s) = map fold_rune (runes_of t)"

lemma equal_fold_refl [simp]: "equal_fold s s"
  by (simp add: equal_fold_def)

lemma equal_fold_sym: "equal_fold s t \<longleftrightarrow> equal_fold t s"
  by (auto simp: equal_fold_def)

lemma fold_rune_lower: "fold_rune (byte_val c) = byte_val (lower_byte c)"
  by (simp add: fold_rune_def lower_byte_def byte_val_neq)

lemma equal_fold_ascii:
  "is_ascii s \<Longrightarrow> is_ascii t \<Longrightarrow>
   equal_fold s t \<longleftrightarrow> map lower_byte s = map lower_byte t"
  by (auto simp: equal_fold_def runes_of_ascii fold_rune_lower map_map comp_def
      list_eq_iff_nth_eq)

end
