(* ===== verification/GoFloat.thy ===== *)
theory GoFloat
  imports GoText
begin

text \<open>
  Go's \<^verbatim>\<open>float64\<close>, exactly.  Every finite binary64 value is an integral multiple of
  $2^{-1074}$, so a finite value is a sign and a number of such units; the sign bit of zero is
  kept.  A result is rounded to 53 significant bits, half to even, which in units is rounding a
  natural number; values of $2^{1024}$ and more are infinite.  On top of the arithmetic the
  program uses (addition, subtraction, comparison) the theory models \<^verbatim>\<open>strconv.ParseFloat\<close> and
  \<^verbatim>\<open>strconv.FormatFloat\<close> with precision \<open>-1\<close>.
\<close>

section \<open>Values and rounding\<close>

datatype float64 = FNaN | FInf bool | FFin bool nat

fun bit_len :: "nat \<Rightarrow> nat" where
  "bit_len n = (if n = 0 then 0 else Suc (bit_len (n div 2)))"

declare bit_len.simps [simp del]

definition round_half_even :: "nat \<Rightarrow> nat \<Rightarrow> nat" where
  "round_half_even n d = (let q = n div d; r = n mod d in
     if d < 2 * r \<or> (2 * r = d \<and> odd q) then q + 1 else q)"

text \<open>The number of units nearest to the quotient \<open>n / d\<close> units with 53 significant bits.\<close>

definition round_units :: "nat \<Rightarrow> nat \<Rightarrow> nat" where
  "round_units n d = (let s = bit_len (n div d) - 53 in round_half_even n (d * 2 ^ s) * 2 ^ s)"

definition unit_scale :: nat where
  "unit_scale = 2 ^ 1074"

definition limit_units :: nat where
  "limit_units = 2 ^ 2098"

definition of_units :: "bool \<Rightarrow> nat \<Rightarrow> nat \<Rightarrow> float64" where
  "of_units neg n d = (let k = round_units n d in
     if limit_units \<le> k then FInf neg else FFin neg k)"

text \<open>The binary64 value nearest to \<open>n / d\<close>.\<close>

definition of_ratio :: "bool \<Rightarrow> nat \<Rightarrow> nat \<Rightarrow> float64" where
  "of_ratio neg n d = of_units neg (n * unit_scale) d"

definition of_int64 :: "int \<Rightarrow> float64" where
  "of_int64 i = of_ratio (i < 0) (nat \<bar>i\<bar>) 1"

text \<open>The values a 64-bit pattern can hold: at most 53 significant bits, below the limit.\<close>

fun float_ok :: "float64 \<Rightarrow> bool" where
  "float_ok (FFin neg k) = (round_units k 1 = k \<and> k < limit_units)"
| "float_ok v = True"

section \<open>Arithmetic and comparison\<close>

fun fin_val :: "bool \<Rightarrow> nat \<Rightarrow> int" where
  "fin_val neg k = (if neg then - int k else int k)"

fun flt :: "float64 \<Rightarrow> float64 \<Rightarrow> bool" where
  "flt FNaN _ = False"
| "flt _ FNaN = False"
| "flt (FInf n) (FInf m) = (n \<and> \<not> m)"
| "flt (FInf n) (FFin _ _) = n"
| "flt (FFin _ _) (FInf m) = (\<not> m)"
| "flt (FFin n j) (FFin m k) = (fin_val n j < fin_val m k)"

fun feq :: "float64 \<Rightarrow> float64 \<Rightarrow> bool" where
  "feq FNaN _ = False"
| "feq _ FNaN = False"
| "feq (FInf n) (FInf m) = (n = m)"
| "feq (FInf n) (FFin _ _) = False"
| "feq (FFin _ _) (FInf m) = False"
| "feq (FFin n j) (FFin m k) = (fin_val n j = fin_val m k)"

definition fle :: "float64 \<Rightarrow> float64 \<Rightarrow> bool" where
  "fle a b \<longleftrightarrow> flt a b \<or> feq a b"

fun fneg :: "float64 \<Rightarrow> float64" where
  "fneg FNaN = FNaN"
| "fneg (FInf n) = FInf (\<not> n)"
| "fneg (FFin n k) = FFin (\<not> n) k"

fun fadd :: "float64 \<Rightarrow> float64 \<Rightarrow> float64" where
  "fadd FNaN _ = FNaN"
| "fadd _ FNaN = FNaN"
| "fadd (FInf n) (FInf m) = (if n = m then FInf n else FNaN)"
| "fadd (FInf n) (FFin _ _) = FInf n"
| "fadd (FFin _ _) (FInf m) = FInf m"
| "fadd (FFin n j) (FFin m k) = (let z = fin_val n j + fin_val m k in
     if z = 0 then FFin (n \<and> m) 0 else of_units (z < 0) (nat \<bar>z\<bar>) 1)"

definition fsub :: "float64 \<Rightarrow> float64 \<Rightarrow> float64" where
  "fsub a b = fadd a (fneg b)"

definition is_nan :: "float64 \<Rightarrow> bool" where
  "is_nan v \<longleftrightarrow> v = FNaN"

definition is_inf :: "float64 \<Rightarrow> bool" where
  "is_inf v \<longleftrightarrow> (case v of FInf _ \<Rightarrow> True | _ \<Rightarrow> False)"

definition is_finite :: "float64 \<Rightarrow> bool" where
  "is_finite v \<longleftrightarrow> (case v of FFin _ _ \<Rightarrow> True | _ \<Rightarrow> False)"

lemma is_finite_iff: "is_finite v \<longleftrightarrow> \<not> is_nan v \<and> \<not> is_inf v"
  by (cases v) (simp_all add: is_finite_def is_nan_def is_inf_def)

lemma flt_irrefl [simp]: "\<not> flt a a"
  by (cases a) simp_all

lemma flt_trans: "flt a b \<Longrightarrow> flt b c \<Longrightarrow> flt a c"
  by (cases a; cases b; cases c) (auto split: if_splits)

lemma fle_trans: "fle a b \<Longrightarrow> fle b c \<Longrightarrow> fle a c"
  by (cases a; cases b; cases c) (auto simp: fle_def split: if_splits)

lemma fle_or_flt: "\<not> is_nan a \<Longrightarrow> \<not> is_nan b \<Longrightarrow> fle a b \<or> flt b a"
  by (cases a; cases b) (auto simp: fle_def is_nan_def split: if_splits)

lemma flt_not_fle: "flt a b \<Longrightarrow> \<not> fle b a"
  by (cases a; cases b) (auto simp: fle_def split: if_splits)

lemma feq_sym: "feq a b \<longleftrightarrow> feq b a"
  by (cases a; cases b) auto

section \<open>Facts on rounding\<close>

lemma round_half_even_cancel:
  "0 < c \<Longrightarrow> round_half_even (n * c) (d * c) = round_half_even n d"
  by (cases "d = 0") (auto simp: round_half_even_def Let_def mult_mod_left[symmetric])

lemma round_units_cancel: "0 < c \<Longrightarrow> round_units (n * c) (d * c) = round_units n d"
  using round_half_even_cancel[of c n "d * 2 ^ (bit_len (n div d) - 53)"]
  by (simp add: round_units_def Let_def mult.assoc mult.commute mult.left_commute)

lemma of_units_cancel: "0 < c \<Longrightarrow> of_units neg (n * c) (d * c) = of_units neg n d"
  by (simp add: of_units_def round_units_cancel)

text \<open>Only the quotient matters.\<close>

lemma of_ratio_cong:
  assumes "0 < d" and "0 < d'" and "n * d' = n' * d"
  shows "of_ratio neg n d = of_ratio neg n' d'"
proof -
  have "of_ratio neg n d = of_units neg (n * unit_scale * d') (d * d')"
    by (simp add: of_ratio_def of_units_cancel assms)
  also have "\<dots> = of_units neg (n' * unit_scale * d) (d' * d)"
    using assms(3) by (metis mult.assoc mult.commute)
  also have "\<dots> = of_ratio neg n' d'"
    by (simp add: of_ratio_def of_units_cancel assms)
  finally show ?thesis .
qed

lemma unit_scale_pos [simp]: "0 < unit_scale" "unit_scale \<noteq> 0"
  by (simp_all add: unit_scale_def)

lemma of_ratio_exact:
  assumes "float_ok (FFin neg k)"
  shows "of_ratio neg k unit_scale = FFin neg k"
proof -
  have "of_units neg (k * unit_scale) (1 * unit_scale) = of_units neg k 1"
    by (rule of_units_cancel) simp
  with assms show ?thesis by (simp add: of_ratio_def of_units_def Let_def)
qed

text \<open>A number with at most 53 significant bits is left alone; every rounded number is one.\<close>

lemma bit_len_0 [simp]: "bit_len 0 = 0"
  by (simp add: bit_len.simps)

lemma bit_len_upper: "n < 2 ^ bit_len n"
proof (induction n rule: bit_len.induct)
  case (1 n)
  show ?case
  proof (cases "n = 0")
    case False
    with "1.IH" have "n div 2 < 2 ^ bit_len (n div 2)" by simp
    then have "n < 2 * 2 ^ bit_len (n div 2)" by linarith
    with False show ?thesis by (simp add: bit_len.simps[of n])
  qed simp
qed

lemma bit_len_lower: "0 < n \<Longrightarrow> 2 ^ bit_len n \<le> 2 * n"
proof (induction n rule: bit_len.induct)
  case (1 n)
  show ?case
  proof (cases "n div 2 = 0")
    case True
    with "1.prems" have "n = 1" by linarith
    then show ?thesis by (simp add: bit_len.simps)
  next
    case False
    with "1.IH" "1.prems" have "2 ^ bit_len (n div 2) \<le> 2 * (n div 2)" by simp
    then have "2 * 2 ^ bit_len (n div 2) \<le> 2 * n" by linarith
    with "1.prems" show ?thesis by (simp add: bit_len.simps[of n])
  qed
qed

lemma bit_len_le_iff: "bit_len n \<le> b \<longleftrightarrow> n < 2 ^ b"
proof
  assume "bit_len n \<le> b"
  then have "(2::nat) ^ bit_len n \<le> 2 ^ b" by (rule power_increasing) simp
  then show "n < 2 ^ b" using bit_len_upper[of n] by linarith
next
  assume lt: "n < 2 ^ b"
  show "bit_len n \<le> b"
  proof (cases "n = 0")
    case False
    then have "(2::nat) ^ bit_len n < 2 ^ Suc b" using bit_len_lower[of n] lt by simp
    then have "bit_len n < Suc b" by (subst (asm) power_strict_increasing_iff) auto
    then show ?thesis by simp
  qed simp
qed

lemma round_half_even_exact: "0 < d \<Longrightarrow> d dvd n \<Longrightarrow> round_half_even n d = n div d"
  by (auto simp: round_half_even_def Let_def)

lemma round_units_id: "2 ^ (bit_len k - 53) dvd k \<Longrightarrow> round_units k 1 = k"
  by (simp add: round_units_def Let_def round_half_even_exact)

lemma round_units_scaled:
  assumes "m \<le> 2 ^ 53"
  shows "round_units (m * 2 ^ e) 1 = m * 2 ^ e"
proof (rule round_units_id)
  show "2 ^ (bit_len (m * 2 ^ e) - 53) dvd m * 2 ^ e"
  proof (cases "m = 2 ^ 53")
    case True
    then have k: "m * 2 ^ e = 2 ^ (53 + e)" by (simp add: power_add)
    have "bit_len (m * 2 ^ e) \<le> Suc (53 + e)" unfolding k by (simp add: bit_len_le_iff)
    then have "bit_len (m * 2 ^ e) - 53 \<le> 53 + e" by simp
    then show ?thesis unfolding k by (rule le_imp_power_dvd)
  next
    case False
    with assms have "m * 2 ^ e < 2 ^ (53 + e)" by (simp add: power_add)
    then have "bit_len (m * 2 ^ e) \<le> 53 + e" by (simp only: bit_len_le_iff)
    then have "(2::nat) ^ (bit_len (m * 2 ^ e) - 53) dvd 2 ^ e" by (intro le_imp_power_dvd) simp
    then show ?thesis by (rule dvd_mult)
  qed
qed

lemma round_half_even_le: "round_half_even n d \<le> n div d + 1"
  by (simp add: round_half_even_def Let_def)

lemma round_units_idem: "round_units (round_units n d) 1 = round_units n d"
proof -
  let ?s = "bit_len (n div d) - 53"
  let ?m = "round_half_even n (d * 2 ^ ?s)"
  have "n div d < 2 ^ (53 + ?s)" by (rule bit_len_le_iff[THEN iffD1]) linarith
  then have "n div d < 2 ^ ?s * 2 ^ 53" by (simp only: power_add mult.commute)
  then have "n div d div 2 ^ ?s < 2 ^ 53" by (simp only: less_mult_imp_div_less mult.commute)
  then have "n div (d * 2 ^ ?s) < 2 ^ 53" by (simp only: div_mult2_eq)
  then have "?m \<le> 2 ^ 53" using round_half_even_le[of n "d * 2 ^ ?s"] by linarith
  then show ?thesis by (simp only: round_units_def[of n d] Let_def round_units_scaled)
qed

lemma of_units_ok: "float_ok (of_units neg n d)"
  using round_units_idem[of n d] by (simp add: of_units_def Let_def)

lemma of_ratio_ok: "float_ok (of_ratio neg n d)"
  by (simp add: of_ratio_def of_units_ok)

text \<open>Integers up to $2^{53}$ are exact.\<close>

lemma of_ratio_int:
  assumes "m \<le> 2 ^ 53"
  shows "of_ratio neg m 1 = FFin neg (m * unit_scale)"
proof -
  have "round_units (m * unit_scale) 1 = m * unit_scale"
    unfolding unit_scale_def by (rule round_units_scaled) (rule assms)
  moreover have "m * unit_scale < limit_units"
  proof -
    have "m * unit_scale \<le> 2 ^ 53 * 2 ^ 1074"
      unfolding unit_scale_def by (rule mult_le_mono1) (rule assms)
    also have "\<dots> = 2 ^ (53 + 1074)" by (simp only: power_add)
    also have "\<dots> < limit_units"
      unfolding limit_units_def by (rule power_strict_increasing) simp_all
    finally show ?thesis .
  qed
  ultimately show ?thesis by (simp add: of_ratio_def of_units_def Let_def)
qed

lemma fadd_nonneg:
  "fadd (FFin False j) (FFin False k) =
     (if j + k = 0 then FFin False 0 else of_units False (j + k) 1)"
proof -
  have "nat \<bar>int j + int k\<bar> = j + k" "\<not> int j + int k < 0" by linarith+
  then show ?thesis by (simp add: Let_def del: One_nat_def)
qed

lemma fadd_int:
  assumes "a + b \<le> 2 ^ 53"
  shows "fadd (of_ratio False a 1) (of_ratio False b 1) = of_ratio False (a + b) 1"
proof -
  have ab: "of_ratio False a 1 = FFin False (a * unit_scale)"
    "of_ratio False b 1 = FFin False (b * unit_scale)"
    using assms by (auto intro!: of_ratio_int simp del: One_nat_def)
  show ?thesis
  proof (cases "a + b = 0")
    case True
    then have "a = 0" "b = 0" by simp_all
    with ab show ?thesis by (simp del: One_nat_def)
  next
    case False
    then have "a * unit_scale + b * unit_scale \<noteq> 0" by simp
    then show ?thesis
      unfolding ab fadd_nonneg by (simp only: if_False of_ratio_def distrib_right)
  qed
qed

definition of_natural :: "nat \<Rightarrow> float64" where
  "of_natural n = of_ratio False n 1"

lemma of_natural_add: "a + b \<le> 2 ^ 53 \<Longrightarrow> fadd (of_natural a) (of_natural b) = of_natural (a + b)"
  unfolding of_natural_def by (rule fadd_int)

lemma of_natural_exact: "n \<le> 2 ^ 53 \<Longrightarrow> of_natural n = FFin False (n * unit_scale)"
  unfolding of_natural_def by (rule of_ratio_int)

lemma of_natural_le:
  assumes "a \<le> 2 ^ 53" and "b \<le> 2 ^ 53"
  shows "fle (of_natural a) (of_natural b) \<longleftrightarrow> a \<le> b"
  unfolding of_natural_exact[OF assms(1)] of_natural_exact[OF assms(2)]
  by (auto simp: fle_def simp flip: of_nat_mult)

lemma of_natural_num: "n \<le> 2 ^ 53 \<Longrightarrow> \<not> is_nan (of_natural n)"
  by (simp add: of_natural_exact is_nan_def)

end
