(* ===== verification/GoStrconv.thy ===== *)
theory GoStrconv
  imports GoFloat
begin

text \<open>
  \<^verbatim>\<open>strconv.ParseFloat(s, 64)\<close>, \<^verbatim>\<open>strconv.FormatFloat(v, fmt, -1, 64)\<close> for the formats
  \<open>f\<close> and \<open>g\<close>, and \<^verbatim>\<open>strconv.Atoi\<close>.  Parsing accepts what Go accepts: decimal and
  hexadecimal literals, underscores between digits, infinities and NaN in any case.
  The last section proves that parsing inverts both formats on every finite value.
\<close>

section \<open>Decimal values\<close>

text \<open>The float nearest to \<open>d * 10 ^ x\<close> (\<open>b = 10\<close>) or \<open>d * 2 ^ x\<close> (\<open>b = 2\<close>).\<close>

definition of_scaled :: "nat \<Rightarrow> bool \<Rightarrow> nat \<Rightarrow> int \<Rightarrow> float64" where
  "of_scaled b neg d x =
     (if 0 \<le> x then of_ratio neg (d * b ^ nat x) 1 else of_ratio neg d (b ^ nat (- x)))"

section \<open>ParseFloat\<close>

definition lower_is :: "char \<Rightarrow> char \<Rightarrow> bool" where
  "lower_is l c \<longleftrightarrow> lower_byte c = l"

fun split_sign :: "string \<Rightarrow> bool \<times> bool \<times> string" where
  "split_sign [] = (False, False, [])"
| "split_sign (c # cs) =
     (if c = CHR ''-'' then (True, True, cs)
      else if c = CHR ''+'' then (False, True, cs) else (False, False, c # cs))"

definition special_float :: "string \<Rightarrow> float64 option" where
  "special_float s = (let (neg, signed, t) = split_sign s; l = map lower_byte t in
     if l = ''inf'' \<or> l = ''infinity'' then Some (FInf neg)
     else if \<not> signed \<and> l = ''nan'' then Some FNaN else None)"

fun scan_mant :: "bool \<Rightarrow> bool \<Rightarrow> string \<Rightarrow> string \<times> string \<times> string" where
  "scan_mant hex dot [] = ([], [], [])"
| "scan_mant hex dot (c # cs) =
     (if c = CHR ''_'' then scan_mant hex dot cs
      else if c = CHR ''.'' then (if dot then ([], [], c # cs) else scan_mant hex True cs)
      else if is_digit c \<or> (hex \<and> is_hex c) then
        (let (i, f, r) = scan_mant hex dot cs in if dot then (i, c # f, r) else (c # i, f, r))
      else ([], [], c # cs))"

fun val_of_hex :: "nat \<Rightarrow> string \<Rightarrow> nat" where
  "val_of_hex acc [] = acc"
| "val_of_hex acc (c # cs) = val_of_hex (16 * acc + hex_val c) cs"

text \<open>The exponent stops growing once it has reached 10000, as in \<^verbatim>\<open>readFloat\<close>.\<close>

fun exp_digits :: "nat \<Rightarrow> string \<Rightarrow> nat \<times> string" where
  "exp_digits e [] = (e, [])"
| "exp_digits e (c # cs) =
     (if c = CHR ''_'' then exp_digits e cs
      else if is_digit c then exp_digits (if e < 10000 then 10 * e + digit_val c else e) cs
      else (e, c # cs))"

definition read_exp :: "string \<Rightarrow> (int \<times> string) option" where
  "read_exp s = (let (neg, signed, t) = split_sign s in
     case t of [] \<Rightarrow> None
     | c # _ \<Rightarrow> if is_digit c
         then (let (e, r) = exp_digits 0 t in Some (if neg then - int e else int e, r))
         else None)"

fun underscores_ok :: "bool \<Rightarrow> char \<Rightarrow> string \<Rightarrow> bool" where
  "underscores_ok hex saw [] = (saw \<noteq> CHR ''_'')"
| "underscores_ok hex saw (c # cs) =
     (if is_digit c \<or> (hex \<and> is_hex c) then underscores_ok hex CHR ''0'' cs
      else if c = CHR ''_'' then saw = CHR ''0'' \<and> underscores_ok hex CHR ''_'' cs
      else saw \<noteq> CHR ''_'' \<and> underscores_ok hex CHR ''!'' cs)"

definition underscore_ok :: "string \<Rightarrow> bool" where
  "underscore_ok s = (let (_, _, t) = split_sign s in
     case t of c0 # c1 # t' \<Rightarrow>
       if c0 = CHR ''0'' \<and> (lower_is CHR ''b'' c1 \<or> lower_is CHR ''o'' c1 \<or> lower_is CHR ''x'' c1)
       then underscores_ok (lower_is CHR ''x'' c1) CHR ''0'' t'
       else underscores_ok False CHR ''^'' t
     | _ \<Rightarrow> underscores_ok False CHR ''^'' t)"

definition hex_prefixed :: "string \<Rightarrow> bool" where
  "hex_prefixed t \<longleftrightarrow> 2 < length t \<and> t ! 0 = CHR ''0'' \<and> lower_is CHR ''x'' (t ! 1)"

definition read_float :: "string \<Rightarrow> float64 option" where
  "read_float s = (let (neg, _, t) = split_sign s;
       hex = hex_prefixed t;
       (i, f, r) = scan_mant hex False (if hex then drop 2 t else t) in
     if i @ f = [] then None
     else let ex = (case r of
              c # r' \<Rightarrow> if lower_is (if hex then CHR ''p'' else CHR ''e'') c then read_exp r'
                         else if hex then None else Some (0, r)
            | [] \<Rightarrow> if hex then None else Some (0, r)) in
       (case ex of None \<Rightarrow> None
        | Some (e, rest) \<Rightarrow>
            if rest \<noteq> [] \<or> (CHR ''_'' \<in> set s \<and> \<not> underscore_ok s) then None
            else Some (if hex then of_scaled 2 neg (val_of_hex 0 (i @ f)) (e - 4 * int (length f))
                       else of_scaled 10 neg (val_of_digits 0 (i @ f)) (e - int (length f)))))"

text \<open>\<^term>\<open>None\<close> is a non-nil error: bad syntax, or a finite literal out of range.\<close>

definition parse_float :: "string \<Rightarrow> float64 option" where
  "parse_float s = (case special_float s of Some v \<Rightarrow> Some v
     | None \<Rightarrow> (case read_float s of None \<Rightarrow> None
        | Some v \<Rightarrow> if is_inf v then None else Some v))"

section \<open>FormatFloat with the fewest digits\<close>

fun frac_zeros :: "nat \<Rightarrow> nat \<Rightarrow> nat" where
  "frac_zeros 0 k = 0"
| "frac_zeros (Suc m) k = (if unit_scale \<le> 10 * k then 0 else Suc (frac_zeros m (10 * k)))"

text \<open>The position of the decimal point: $10^{p-1} \le v < 10^p$ for the value of \<open>k > 0\<close> units.\<close>

definition dec_point :: "nat \<Rightarrow> int" where
  "dec_point k = (if unit_scale \<le> k then int (length (digits_of (k div unit_scale)))
     else - int (frac_zeros 324 k))"

text \<open>
  The shortest decimal that reads back as the value: for \<open>n = 1, 2, \<dots>\<close> digits, the value
  truncated to \<open>n\<close> digits and the next one up are tried, the nearer first when both are good.
  Seventeen digits (\<open>max_digits\<close>) suffice for a binary64 value; the exact expansion \<open>k * 5 ^ 1074 * 10 ^ -1074\<close>
  (\<^term>\<open>exact_scale\<close>)
  closes the recursion, so the result reads back whatever the fuel.
\<close>

definition exact_scale :: nat where
  "exact_scale = 5 ^ 1074"

fun shortest_from :: "nat \<Rightarrow> nat \<Rightarrow> nat \<Rightarrow> int \<Rightarrow> nat \<times> int" where
  "shortest_from 0 n k p = (k * exact_scale, - 1074)"
| "shortest_from (Suc m) n k p =
     (let x = p - int n;
          num = (if x \<le> 0 then k * 10 ^ nat (- x) else k);
          den = (if x \<le> 0 then unit_scale else unit_scale * 10 ^ nat x);
          q = num div den;
          down = (of_scaled 10 False q x = FFin False k);
          up = (of_scaled 10 False (q + 1) x = FFin False k)
      in if down \<and> up then (let h = round_half_even num den in if h = q then (q, x) else (q + 1, x))
         else if down then (q, x) else if up then (q + 1, x)
         else shortest_from m (Suc n) k p)"

function strip_zeros :: "nat \<Rightarrow> int \<Rightarrow> nat \<times> int" where
  "strip_zeros d x = (if d \<noteq> 0 \<and> d mod 10 = 0 then strip_zeros (d div 10) (x + 1) else (d, x))"
  by pat_completeness auto
termination by (relation "measure (\<lambda>(d, x). d)") auto

declare strip_zeros.simps [simp del]

definition max_digits :: nat where
  "max_digits = 17"

definition decimal_of :: "nat \<Rightarrow> nat \<times> int" where
  "decimal_of k = (let (d, x) = shortest_from max_digits 1 k (dec_point k) in strip_zeros d x)"

definition sign_str :: "bool \<Rightarrow> string" where
  "sign_str neg = (if neg then ''-'' else [])"

definition fmt_int :: "string \<Rightarrow> int \<Rightarrow> string" where
  "fmt_int ds dp = (if 0 < dp then take (nat dp) ds @ replicate (nat dp - length ds) CHR ''0''
     else ''0'')"

definition fmt_frac :: "string \<Rightarrow> int \<Rightarrow> string" where
  "fmt_frac ds dp = (if dp < 0 then replicate (nat (- dp)) CHR ''0'' @ ds else drop (nat dp) ds)"

definition dot_frac :: "string \<Rightarrow> string" where
  "dot_frac f = (if f = [] then [] else CHR ''.'' # f)"

definition fmt_e :: "string \<Rightarrow> int \<Rightarrow> string" where
  "fmt_e ds dp = (let e = dp - 1; a = nat \<bar>e\<bar> in
     take 1 ds @ dot_frac (drop 1 ds) @ CHR ''e'' # (if e < 0 then CHR ''-'' else CHR ''+'')
       # (if a < 10 then CHR ''0'' # digits_of a else digits_of a))"

fun format_f :: "float64 \<Rightarrow> string" where
  "format_f FNaN = ''NaN''"
| "format_f (FInf neg) = (if neg then ''-Inf'' else ''+Inf'')"
| "format_f (FFin neg k) = (if k = 0 then sign_str neg @ ''0'' else
     (let (d, x) = decimal_of k; ds = digits_of d; dp = int (length ds) + x in
      sign_str neg @ fmt_int ds dp @ dot_frac (fmt_frac ds dp)))"

fun format_g :: "float64 \<Rightarrow> string" where
  "format_g FNaN = ''NaN''"
| "format_g (FInf neg) = (if neg then ''-Inf'' else ''+Inf'')"
| "format_g (FFin neg k) = (if k = 0 then sign_str neg @ ''0'' else
     (let (d, x) = decimal_of k; ds = digits_of d; dp = int (length ds) + x in
      if dp - 1 < - 4 \<or> 6 \<le> dp - 1 then sign_str neg @ fmt_e ds dp
      else sign_str neg @ fmt_int ds dp @ dot_frac (fmt_frac ds dp)))"

section \<open>Atoi\<close>

text \<open>
  \<^verbatim>\<open>strconv.Atoi\<close>: an optional sign, decimal digits only, within the 64-bit range.  The
  callers drop the error; on a syntax error the value is 0, out of range it is the nearer bound.
\<close>

definition max_int64 :: int where
  "max_int64 = 9223372036854775807"

definition min_int64 :: int where
  "min_int64 = - 9223372036854775808"

definition atoi_or_bound :: "string \<Rightarrow> int" where
  "atoi_or_bound s = (let (neg, _, t) = split_sign s in
     if t = [] \<or> \<not> list_all is_digit t then 0
     else let v = int (val_of_digits 0 t); w = (if neg then - v else v) in
       max min_int64 (min max_int64 w))"

text \<open>Signed 64-bit wrap-around, for arithmetic the source leaves unchecked.\<close>

definition wrap64 :: "int \<Rightarrow> int" where
  "wrap64 i = (i - min_int64) mod 18446744073709551616 + min_int64"

lemma wrap64_id: "min_int64 \<le> i \<Longrightarrow> i \<le> max_int64 \<Longrightarrow> wrap64 i = i"
  by (simp add: wrap64_def min_int64_def max_int64_def)

lemma wrap64_range: "min_int64 \<le> wrap64 i \<and> wrap64 i \<le> max_int64"
proof -
  have "0 \<le> (i - min_int64) mod 18446744073709551616"
    "(i - min_int64) mod 18446744073709551616 < 18446744073709551616" by simp_all
  then show ?thesis unfolding wrap64_def min_int64_def max_int64_def by linarith
qed

section \<open>Parsing inverts formatting\<close>

lemma of_scaled_ratio: "of_scaled b neg d x = of_ratio neg (d * b ^ nat x) (b ^ nat (- x))"
proof (cases "0 \<le> x")
  case True
  then have "nat (- x) = 0" by simp
  with True show ?thesis by (simp only: of_scaled_def if_True power_0)
next
  case False
  then have "nat x = 0" by simp
  with False show ?thesis by (simp only: of_scaled_def if_False power_0 mult_1_right)
qed

lemma of_scaled_shift: "of_scaled 10 neg (d * 10 ^ j) x = of_scaled 10 neg d (x + int j)"
proof -
  have "j + nat x + nat (- (x + int j)) = nat (x + int j) + nat (- x)" by linarith
  then have "(10::nat) ^ j * 10 ^ nat x * 10 ^ nat (- (x + int j)) = 10 ^ nat (x + int j) * 10 ^ nat (- x)"
    by (simp only: flip: power_add)
  then have "d * 10 ^ j * 10 ^ nat x * 10 ^ nat (- (x + int j)) = d * 10 ^ nat (x + int j) * 10 ^ nat (- x)"
    by (simp only: mult.assoc)
  then show ?thesis unfolding of_scaled_ratio
    by (rule of_ratio_cong[rotated 2]) (rule zero_less_power, simp)+
qed

lemma of_ratio_sign: "of_ratio False n d = FFin False k \<Longrightarrow> of_ratio neg n d = FFin neg k"
  by (auto simp: of_ratio_def of_units_def Let_def split: if_splits)

lemma of_scaled_sign: "of_scaled b False d x = FFin False k \<Longrightarrow> of_scaled b neg d x = FFin neg k"
  unfolding of_scaled_ratio by (rule of_ratio_sign)

lemma exact_digits: "float_ok (FFin False k) \<Longrightarrow> of_scaled 10 False (k * exact_scale) (- 1074) = FFin False k"
proof -
  assume ok: "float_ok (FFin False k)"
  have pow: "(k * 5 ^ m) * 2 ^ m = k * (10 :: nat) ^ m" for m
    by (simp add: mult.assoc flip: power_mult_distrib)
  have "of_scaled 10 False (k * exact_scale) (- 1074)
      = of_ratio False (k * exact_scale) (10 ^ 1074)"
  proof -
    have "nat (- 1074) = 0" "nat (- (- 1074)) = 1074" by simp_all
    then show ?thesis by (simp only: of_scaled_ratio power_0 mult_1_right)
  qed
  also have "\<dots> = of_ratio False k unit_scale"
  proof (rule of_ratio_cong)
    show "k * exact_scale * unit_scale = k * 10 ^ 1074"
      unfolding exact_scale_def unit_scale_def by (rule pow)
    show "0 < (10::nat) ^ 1074" by (rule zero_less_power) simp
  qed simp
  also have "\<dots> = FFin False k" using ok by (rule of_ratio_exact)
  finally show ?thesis .
qed

lemma shortest_from_reads_back:
  assumes "float_ok (FFin False k)" and "shortest_from m n k p = (d, x)"
  shows "of_scaled 10 False d x = FFin False k"
  using assms(2)
proof (induction m arbitrary: n)
  case 0
  with exact_digits[OF assms(1)] show ?case by simp
next
  case (Suc m)
  then show ?case by (auto simp: Let_def split: if_splits)
qed

lemma strip_zeros_value:
  "strip_zeros d x = (d', x') \<Longrightarrow> of_scaled 10 neg d' x' = of_scaled 10 neg d x"
proof (induction d x rule: strip_zeros.induct)
  case (1 d x)
  show ?case
  proof (cases "d \<noteq> 0 \<and> d mod 10 = 0")
    case True
    with "1.prems" have "strip_zeros (d div 10) (x + 1) = (d', x')"
      by (simp add: strip_zeros.simps[of d x])
    with True have "of_scaled 10 neg d' x' = of_scaled 10 neg (d div 10) (x + 1)"
      by (rule "1.IH")
    also have "\<dots> = of_scaled 10 neg (d div 10 * 10 ^ 1) x" by (subst of_scaled_shift) simp
    also have "d div 10 * 10 ^ 1 = d" using True by auto
    finally show ?thesis .
  next
    case False
    with "1.prems" show ?thesis by (auto simp: strip_zeros.simps[of d x])
  qed
qed

lemma decimal_of_reads_back:
  assumes "float_ok (FFin False k)" and "decimal_of k = (d, x)"
  shows "of_scaled 10 neg d x = FFin neg k"
proof -
  obtain d' x' where s: "shortest_from max_digits 1 k (dec_point k) = (d', x')" by fastforce
  with assms(2) have "strip_zeros d' x' = (d, x)" by (simp add: decimal_of_def)
  then have "of_scaled 10 False d x = of_scaled 10 False d' x'" by (rule strip_zeros_value)
  with shortest_from_reads_back[OF assms(1) s] have "of_scaled 10 False d x = FFin False k"
    by simp
  then show ?thesis by (rule of_scaled_sign)
qed

lemma scan_mant_int:
  assumes "\<forall>c \<in> set ds. is_digit c"
  shows "scan_mant False False (ds @ r) =
    (let (i, f, t) = scan_mant False False r in (ds @ i, f, t))"
  using assms
proof (induction ds)
  case (Cons c ds)
  then have "c \<noteq> CHR ''_''" "c \<noteq> CHR ''.''" by (auto simp: is_digit_def)
  with Cons show ?case by (simp split: prod.splits)
qed (simp split: prod.splits)

lemma scan_mant_frac:
  assumes "\<forall>c \<in> set ds. is_digit c"
  shows "scan_mant False True (ds @ r) =
    (let (i, f, t) = scan_mant False True r in (i, ds @ f, t))"
  using assms
proof (induction ds)
  case (Cons c ds)
  then have "c \<noteq> CHR ''_''" "c \<noteq> CHR ''.''" by (auto simp: is_digit_def)
  with Cons show ?case by (simp split: prod.splits)
qed (simp split: prod.splits)

text \<open>Where the mantissa ends: at the end of the text or at the exponent mark.\<close>

definition exp_mark :: "string \<Rightarrow> bool" where
  "exp_mark r \<longleftrightarrow> r = [] \<or> hd r = CHR ''e''"

lemma scan_mant_decimal:
  assumes "\<forall>c \<in> set i. is_digit c" and "\<forall>c \<in> set f. is_digit c" and "exp_mark r"
  shows "scan_mant False False (i @ dot_frac f @ r) = (i, f, r)"
proof -
  have stop: "scan_mant False dot r = ([], [], r)" for dot
    using assms(3) by (cases r) (auto simp: exp_mark_def is_digit_def)
  have "scan_mant False True (f @ r) = ([], f, r)"
    using scan_mant_frac[OF assms(2), of r] stop by simp
  then show ?thesis
    using scan_mant_int[OF assms(1), of "dot_frac f @ r"] stop by (simp add: dot_frac_def)
qed

lemma no_digit_facts:
  assumes "is_digit c"
  shows "c \<noteq> CHR ''-''" "c \<noteq> CHR ''+''" "lower_byte c = c" "\<not> lower_is CHR ''x'' c"
    "c \<noteq> CHR ''i''" "c \<noteq> CHR ''n''" "c \<noteq> CHR ''_''" "c \<noteq> CHR ''e''"
  using assms by (auto simp: is_digit_def lower_byte_def lower_is_def)

lemma split_sign_str:
  assumes "is_digit c"
  shows "split_sign (sign_str neg @ c # t) = (neg, neg, c # t)"
  using no_digit_facts[OF assms] by (simp add: sign_str_def)

lemma special_float_digit:
  assumes "is_digit c"
  shows "special_float (sign_str neg @ c # t) = None"
  using no_digit_facts[OF assms] by (simp add: special_float_def split_sign_str assms)

lemma hex_prefixed_digits:
  assumes "\<forall>c \<in> set i. is_digit c" and "i \<noteq> []" and "exp_mark r"
  shows "\<not> hex_prefixed (i @ dot_frac f @ r)"
proof (cases i)
  case (Cons c i')
  note i = this
  show ?thesis
  proof (cases i')
    case Nil
    then show ?thesis using i assms(3)
      by (cases f; cases r)
         (auto simp: hex_prefixed_def dot_frac_def lower_is_def lower_byte_def exp_mark_def)
  next
    case (Cons c' i'')
    then show ?thesis using i assms(1) no_digit_facts[of c'] by (simp add: hex_prefixed_def)
  qed
qed (use assms in simp)

text \<open>The common shape of both formats: digits, an optional fraction, an optional exponent.\<close>

lemma parse_float_shape:
  assumes i: "\<forall>c \<in> set i. is_digit c" "i \<noteq> []" and f: "\<forall>c \<in> set f. is_digit c"
    and ex: "(r = [] \<and> e = 0) \<or>
      (\<exists>r'. r = CHR ''e'' # r' \<and> read_exp r' = Some (e, []) \<and> CHR ''_'' \<notin> set r')"
    and v: "of_scaled 10 neg (val_of_digits 0 (i @ f)) (e - int (length f)) = FFin neg k"
  shows "parse_float (sign_str neg @ i @ dot_frac f @ r) = Some (FFin neg k)"
proof -
  let ?t = "i @ dot_frac f @ r"
  have mark: "exp_mark r" using ex by (auto simp: exp_mark_def)
  obtain c i' where ic: "i = c # i'" using i(2) by (cases i) auto
  then have c: "is_digit c" using i(1) by simp
  have sgn: "split_sign (sign_str neg @ ?t) = (neg, neg, ?t)"
    unfolding ic append_Cons by (rule split_sign_str[OF c])
  have special: "special_float (sign_str neg @ ?t) = None"
    unfolding ic append_Cons by (rule special_float_digit[OF c])
  have clean: "CHR ''_'' \<notin> set (sign_str neg @ ?t)"
    using i(1) f ex no_digit_facts(7) by (auto simp: sign_str_def dot_frac_def)
  have "read_float (sign_str neg @ ?t) = Some (FFin neg k)"
    unfolding read_float_def sgn Let_def prod.case
    using hex_prefixed_digits[OF i mark, of f] scan_mant_decimal[OF i(1) f mark] ex v clean i(2)
    by (auto simp: lower_is_def lower_byte_def)
  then show ?thesis by (simp add: parse_float_def special is_inf_def)
qed

lemma val_of_digits_zeros: "val_of_digits a (replicate m CHR ''0'') = a * 10 ^ m"
  by (induction m arbitrary: a) (simp_all add: digit_val_def)

lemma fmt_digits:
  assumes "\<forall>c \<in> set ds. is_digit c" and "ds \<noteq> []"
  shows "\<forall>c \<in> set (fmt_int ds dp). is_digit c" and "fmt_int ds dp \<noteq> []"
    and "\<forall>c \<in> set (fmt_frac ds dp). is_digit c"
  using assms by (auto simp: fmt_int_def fmt_frac_def is_digit_def dest: in_set_takeD in_set_dropD)

lemma fmt_value:
  fixes d :: nat and x :: int
  defines "ds \<equiv> digits_of d" and "dp \<equiv> int (length (digits_of d)) + x"
  shows "of_scaled 10 neg (val_of_digits 0 (fmt_int ds dp @ fmt_frac ds dp))
      (0 - int (length (fmt_frac ds dp))) = of_scaled 10 neg d x"
proof -
  have val: "val_of_digits 0 ds = d" unfolding ds_def by (rule val_of_digits_of)
  consider (small) "dp \<le> 0" | (mid) "0 < dp" "dp < int (length ds)" | (big) "0 < dp" "int (length ds) \<le> dp"
    by linarith
  then show ?thesis
  proof cases
    case small
    then have f: "fmt_frac ds dp = replicate (nat (- dp)) CHR ''0'' @ ds"
      by (simp add: fmt_frac_def)
    have "val_of_digits 0 (fmt_int ds dp @ fmt_frac ds dp) = d"
      using small by (simp add: f fmt_int_def val_of_digits_append val_of_digits_zeros val digit_val_def)
    moreover have "0 - int (length (fmt_frac ds dp)) = x"
      using small unfolding f by (simp add: dp_def ds_def)
    ultimately show ?thesis by simp
  next
    case mid
    then have f: "fmt_frac ds dp = drop (nat dp) ds" and i: "fmt_int ds dp = take (nat dp) ds"
      by (simp_all add: fmt_frac_def fmt_int_def)
    have "0 - int (length (fmt_frac ds dp)) = x"
      using mid unfolding f by (simp add: dp_def ds_def)
    then show ?thesis by (simp add: f i val)
  next
    case big
    then have f: "fmt_frac ds dp = []" and i: "fmt_int ds dp = ds @ replicate (nat x) CHR ''0''"
      by (simp_all add: fmt_frac_def fmt_int_def dp_def ds_def)
    have "of_scaled 10 neg (d * 10 ^ nat x) 0 = of_scaled 10 neg d x"
      using of_scaled_shift[of neg d "nat x" 0] big by (simp add: dp_def ds_def)
    then show ?thesis by (simp add: f i val_of_digits_append val_of_digits_zeros val)
  qed
qed

lemma parse_float_plain:
  assumes "float_ok (FFin False k)" and "decimal_of k = (d, x)"
  shows "parse_float (sign_str neg @ fmt_int (digits_of d) (int (length (digits_of d)) + x)
      @ dot_frac (fmt_frac (digits_of d) (int (length (digits_of d)) + x))) = Some (FFin neg k)"
proof -
  let ?ds = "digits_of d" and ?dp = "int (length (digits_of d)) + x"
  have ds: "\<forall>c \<in> set ?ds. is_digit c" "?ds \<noteq> []" by (rule digits_of_all_digits) simp
  have v: "of_scaled 10 neg (val_of_digits 0 (fmt_int ?ds ?dp @ fmt_frac ?ds ?dp))
      (0 - int (length (fmt_frac ?ds ?dp))) = FFin neg k"
    unfolding fmt_value by (rule decimal_of_reads_back[OF assms])
  show ?thesis
    using parse_float_shape[OF fmt_digits[OF ds] disjI1 v, of "[]"] by simp
qed

lemma parse_float_zero: "parse_float (sign_str neg @ ''0'') = Some (FFin neg 0)"
proof -
  have "of_scaled 10 neg 0 0 = FFin neg 0"
    using of_ratio_int[of 0 neg] by (simp add: of_scaled_def)
  then show ?thesis
    using parse_float_shape[of "''0''" "[]" "[]" 0 neg 0]
    by (simp add: dot_frac_def is_digit_def digit_val_def)
qed

lemma parse_float_format_f:
  assumes "float_ok (FFin neg k)"
  shows "parse_float (format_f (FFin neg k)) = Some (FFin neg k)"
proof (cases "k = 0")
  case True
  then show ?thesis by (simp only: format_f.simps simp_thms if_True parse_float_zero)
next
  case False
  obtain d x where dx: "decimal_of k = (d, x)" by fastforce
  have ok: "float_ok (FFin False k)" using assms by simp
  show ?thesis
    using parse_float_plain[OF ok dx, of neg] False
    by (simp only: format_f.simps if_False dx prod.case Let_def)
qed

section \<open>The exponent form reads back too\<close>

lemma length_digits_of: "n < 10 ^ m \<Longrightarrow> 0 < m \<Longrightarrow> length (digits_of n) \<le> m"
proof (induction n arbitrary: m rule: digits_of.induct)
  case (1 n)
  show ?case
  proof (cases "n < 10")
    case True
    then show ?thesis using "1.prems" by (simp add: digits_of.simps[of n])
  next
    case False
    with "1.prems" obtain m' where m: "m = Suc m'" "0 < m'"
      by (cases m; cases "m - 1") auto
    then have "n div 10 < 10 ^ m'" using "1.prems" by (simp add: less_mult_imp_div_less mult.commute)
    with "1.IH" False m(2) have "length (digits_of (n div 10)) \<le> m'" by blast
    with False m show ?thesis by (simp add: digits_of.simps[of n])
  qed
qed

lemma shortest_from_bounds:
  assumes "k < 10 ^ K" and "- int P \<le> p" and "p \<le> int Q" and "exact_scale \<le> 10 ^ X"
    and "n + m \<le> Suc N" and "shortest_from m n k p = (d, x)"
  shows "d \<le> 10 ^ (K + P + N + X) \<and> (x = - 1074 \<or> (- int (P + N) \<le> x \<and> x \<le> int Q))"
  using assms(5,6)
proof (induction m arbitrary: n)
  case 0
  then have d: "d = k * exact_scale" "x = - 1074" by simp_all
  have "d \<le> 10 ^ K * 10 ^ X" unfolding d using assms(1,4) by (intro mult_le_mono) simp_all
  also have "\<dots> \<le> 10 ^ (K + P + N + X)" unfolding power_add[symmetric] by (rule power_increasing) simp_all
  finally show ?case using d by simp
next
  case (Suc m)
  let ?x = "p - int n"
  let ?num = "if ?x \<le> 0 then k * 10 ^ nat (- ?x) else k"
  let ?den = "if ?x \<le> 0 then unit_scale else unit_scale * 10 ^ nat ?x"
  have n: "n \<le> N" using Suc.prems(1) by simp
  have "?num < 10 ^ K * 10 ^ (P + N)"
  proof -
    have "(10::nat) ^ nat (- ?x) \<le> 10 ^ (P + N)" using assms(2) n by (intro power_increasing) auto
    moreover have "(1::nat) \<le> 10 ^ (P + N)" by simp
    ultimately show ?thesis using assms(1) by (auto intro: mult_less_le_imp_less order_less_le_trans)
  qed
  also have "\<dots> \<le> 10 ^ (K + P + N + X)" unfolding power_add[symmetric] by (rule power_increasing) simp_all
  finally have "?num < 10 ^ (K + P + N + X)" .
  moreover have "?num div ?den \<le> ?num" by (rule div_le_dividend)
  ultimately have q: "Suc (?num div ?den) \<le> 10 ^ (K + P + N + X)" by linarith
  have x: "- int (P + N) \<le> ?x \<and> ?x \<le> int Q" using assms(2,3) n by simp
  have "(d = ?num div ?den \<and> x = ?x) \<or> (d = Suc (?num div ?den) \<and> x = ?x)
      \<or> shortest_from m (Suc n) k p = (d, x)"
    using Suc.prems(2) by (auto simp: Let_def split: if_splits)
  then show ?case
  proof (elim disjE)
    assume "shortest_from m (Suc n) k p = (d, x)"
    then show ?thesis by (rule Suc.IH[rotated]) (use Suc.prems(1) in simp)
  qed (use q x in auto)
qed

lemma strip_zeros_point:
  "strip_zeros d x = (d', x') \<Longrightarrow> int (length (digits_of d')) + x' = int (length (digits_of d)) + x"
proof (induction d x rule: strip_zeros.induct)
  case (1 d x)
  show ?case
  proof (cases "d \<noteq> 0 \<and> d mod 10 = 0")
    case True
    then have "\<not> d < 10" by auto
    with True "1.IH" "1.prems" show ?thesis
      by (simp add: strip_zeros.simps[of d x] digits_of.simps[of d])
  next
    case False
    with "1.prems" show ?thesis by (auto simp: strip_zeros.simps[of d x])
  qed
qed

lemma dec_point_bounds:
  assumes "k < 10 ^ K" and "0 < K"
  shows "- int 324 \<le> dec_point k" and "dec_point k \<le> int K"
proof -
  have fz: "frac_zeros m j \<le> m" for m j by (induction m j rule: frac_zeros.induct) auto
  have "k div unit_scale < 10 ^ K" using assms(1) div_le_dividend[of k unit_scale] by linarith
  then have "length (digits_of (k div unit_scale)) \<le> K" using assms(2) by (rule length_digits_of)
  then show "- int 324 \<le> dec_point k" and "dec_point k \<le> int K"
    using fz[of 324 k] by (simp_all add: dec_point_def)
qed

lemma less_pow_Suc: "(d::nat) \<le> 10 ^ m \<Longrightarrow> d < 10 ^ Suc m"
  by (simp add: le_less_trans[of d "10 ^ m"])

lemma decimal_point_range:
  assumes "k < limit_units" and "decimal_of k = (d, x)"
  shows "\<bar>int (length (digits_of d)) + x\<bar> < 9000"
proof -
  obtain d' x' where s: "shortest_from max_digits 1 k (dec_point k) = (d', x')" by fastforce
  have sz: "strip_zeros d' x' = (d, x)" using assms(2) s by (simp add: decimal_of_def)
  have "limit_units \<le> 10 ^ 2098" unfolding limit_units_def by (rule power_mono) simp_all
  with assms(1) have k: "k < 10 ^ 2098" by (rule order_less_le_trans)
  have X: "exact_scale \<le> 10 ^ 1074" unfolding exact_scale_def by (rule power_mono) simp_all
  have p: "- int 324 \<le> dec_point k" "dec_point k \<le> int 2098"
    by (rule dec_point_bounds[OF k]; simp)+
  have b: "d' \<le> 10 ^ (2098 + 324 + 17 + 1074)
      \<and> (x' = - 1074 \<or> (- int (324 + 17) \<le> x' \<and> x' \<le> int 2098))"
    by (rule shortest_from_bounds[OF k p X _ s]) (simp add: max_digits_def)
  have "length (digits_of d') \<le> Suc (2098 + 324 + 17 + 1074)"
    by (rule length_digits_of[OF less_pow_Suc[OF b[THEN conjunct1]]]) simp
  then have "\<bar>int (length (digits_of d')) + x'\<bar> < 9000"
    using b[THEN conjunct2] by linarith
  with strip_zeros_point[OF sz] show ?thesis by simp
qed

lemma exp_digits_all:
  assumes "\<forall>c \<in> set ds. is_digit c" and "val_of_digits e ds < 10000"
  shows "exp_digits e ds = (val_of_digits e ds, [])"
  using assms
proof (induction ds arbitrary: e)
  case (Cons c ds)
  have mono: "a \<le> val_of_digits a cs" for a cs
  proof (induction cs arbitrary: a)
    case (Cons c cs)
    have "10 * a + digit_val c \<le> val_of_digits (10 * a + digit_val c) cs" by (rule Cons.IH)
    then have "a \<le> val_of_digits (10 * a + digit_val c) cs" by linarith
    then show ?case by simp
  qed simp
  have "e < 10000" using Cons.prems(2) mono[of "10 * e + digit_val c" ds] by simp
  with Cons no_digit_facts(7)[of c] show ?case by simp
qed simp

lemma read_exp_printed:
  assumes "a < 10000"
  shows "read_exp ((if neg then CHR ''-'' else CHR ''+'')
      # (if a < 10 then CHR ''0'' # digits_of a else digits_of a))
    = Some (if neg then - int a else int a, [])"
proof -
  let ?ds = "if a < 10 then CHR ''0'' # digits_of a else digits_of a"
  have all: "\<forall>c \<in> set ?ds. is_digit c" using digits_of_all_digits[of a] by (auto simp: is_digit_def)
  have v: "val_of_digits 0 ?ds = a" by (simp add: val_of_digits_of digit_val_def)
  obtain c t where ct: "?ds = c # t" by (cases ?ds) (auto split: if_splits)
  have "exp_digits 0 ?ds = (a, [])" using exp_digits_all[OF all, of 0] v assms by simp
  moreover have "is_digit c" using all ct by auto
  ultimately show ?thesis unfolding ct read_exp_def by (cases neg) simp_all
qed

lemma read_exp_int:
  assumes "\<bar>e\<bar> < 10000"
  shows "read_exp ((if e < 0 then CHR ''-'' else CHR ''+'')
      # (if nat \<bar>e\<bar> < 10 then CHR ''0'' # digits_of (nat \<bar>e\<bar>) else digits_of (nat \<bar>e\<bar>)))
    = Some (e, [])"
proof -
  have "nat \<bar>e\<bar> < 10000" using assms by linarith
  note r = read_exp_printed[OF this, of "e < 0"]
  have "(if e < 0 then - int (nat \<bar>e\<bar>) else int (nat \<bar>e\<bar>)) = e" by simp
  from r[unfolded this] show ?thesis .
qed

lemma exp_text_clean:
  "CHR ''_'' \<notin> set ((if b then CHR ''-'' else CHR ''+'')
      # (if c then CHR ''0'' # digits_of a else digits_of a))"
proof -
  have "CHR ''_'' \<notin> set (digits_of a)" using digits_of_all_digits no_digit_facts(7) by blast
  then show ?thesis by simp
qed

lemma fmt_e_cons:
  "fmt_e (c # cs) dp = [c] @ dot_frac cs @ CHR ''e'' # (if dp - 1 < 0 then CHR ''-'' else CHR ''+'')
     # (if nat \<bar>dp - 1\<bar> < 10 then CHR ''0'' # digits_of (nat \<bar>dp - 1\<bar>)
        else digits_of (nat \<bar>dp - 1\<bar>))"
  by (simp add: fmt_e_def Let_def)

text \<open>Reading back the digits of \<^const>\<open>format_g\<close>, in either of its two layouts.\<close>

lemma parse_float_format_g:
  assumes "float_ok (FFin neg k)"
  shows "parse_float (format_g (FFin neg k)) = Some (FFin neg k)"
proof (cases "k = 0")
  case True
  then show ?thesis by (simp only: format_g.simps simp_thms if_True parse_float_zero)
next
  case False
  obtain d x where dx: "decimal_of k = (d, x)" by fastforce
  have ok: "float_ok (FFin False k)" and k: "k < limit_units" using assms by simp_all
  let ?ds = "digits_of d" and ?dp = "int (length (digits_of d)) + x"
  let ?e = "?dp - 1"
  obtain c cs where ds: "?ds = c # cs" by (cases ?ds) auto
  have dig: "is_digit c" "\<forall>c \<in> set cs. is_digit c" using digits_of_all_digits[of d] ds by auto
  let ?r' = "(if ?e < 0 then CHR ''-'' else CHR ''+'')
      # (if nat \<bar>?e\<bar> < 10 then CHR ''0'' # digits_of (nat \<bar>?e\<bar>) else digits_of (nat \<bar>?e\<bar>))"
  have "read_exp ?r' = Some (?e, [])"
    by (rule read_exp_int) (use decimal_point_range[OF k dx] in linarith)
  moreover have "CHR ''_'' \<notin> set ?r'" by (rule exp_text_clean)
  ultimately have ex: "(CHR ''e'' # ?r' = [] \<and> ?e = 0) \<or>
      (\<exists>r'. CHR ''e'' # ?r' = CHR ''e'' # r' \<and> read_exp r' = Some (?e, []) \<and> CHR ''_'' \<notin> set r')"
    by blast
  have val: "val_of_digits 0 ([c] @ cs) = d" using val_of_digits_of[of d] ds by simp
  have pos: "?e - int (length cs) = x" by (simp add: ds)
  have v: "of_scaled 10 neg (val_of_digits 0 ([c] @ cs)) (?e - int (length cs)) = FFin neg k"
    unfolding val pos by (rule decimal_of_reads_back[OF ok dx])
  have "parse_float (sign_str neg @ [c] @ dot_frac cs @ CHR ''e'' # ?r') = Some (FFin neg k)"
    using parse_float_shape[OF _ _ dig(2) ex v] dig(1) by simp
  then have "parse_float (sign_str neg @ fmt_e ?ds ?dp) = Some (FFin neg k)"
    unfolding fmt_e_cons[of c cs ?dp, folded ds] .
  then show ?thesis
    using parse_float_plain[OF ok dx, of neg] False
    by (simp only: format_g.simps if_False dx prod.case Let_def simp_thms split: if_split)
qed

text \<open>Distinct finite values are printed differently.\<close>

lemma format_g_inject:
  assumes "float_ok v" "float_ok w" "is_finite v" "is_finite w" and "format_g v = format_g w"
  shows "v = w"
proof -
  obtain n j m k where vw: "v = FFin n j" "w = FFin m k"
    using assms(3,4) by (cases v; cases w) (auto simp: is_finite_def)
  then have "Some v = Some w"
    using parse_float_format_g assms by metis
  then show ?thesis by simp
qed

end
