(* ===== verification/GoTime.thy ===== *)
theory GoTime
  imports GoStrconv
begin

text \<open>
  \<^verbatim>\<open>time.Time\<close> as an instant, in nanoseconds since the Unix epoch (an unbounded integer; the
  monotonic clock reading plays no role here), and the parts of package \<^verbatim>\<open>time\<close> the program
  uses: \<^verbatim>\<open>Add\<close>, \<^verbatim>\<open>Sub\<close>, \<^verbatim>\<open>UnixNano\<close>, \<^verbatim>\<open>Parse\<close> and \<^verbatim>\<open>Format\<close> with the RFC 3339 layout.
\<close>

section \<open>Instants and durations\<close>

type_synonym instant = int
type_synonym duration = int

definition second :: duration where
  "second = 1000000000"

definition minute :: duration where
  "minute = 60 * second"

definition hour :: duration where
  "hour = 60 * minute"

lemmas duration_defs = second_def minute_def hour_def

text \<open>\<^verbatim>\<open>t.Sub(u)\<close> saturates at the ends of \<^verbatim>\<open>int64\<close>; \<^verbatim>\<open>t.UnixNano()\<close> wraps around.\<close>

definition time_sub :: "instant \<Rightarrow> instant \<Rightarrow> duration" where
  "time_sub t u = max min_int64 (min max_int64 (t - u))"

definition unix_nano :: "instant \<Rightarrow> int" where
  "unix_nano t = wrap64 t"

section \<open>The calendar\<close>

definition is_leap :: "int \<Rightarrow> bool" where
  "is_leap y \<longleftrightarrow> y mod 4 = 0 \<and> (y mod 100 \<noteq> 0 \<or> y mod 400 = 0)"

definition month_lengths :: "int \<Rightarrow> int list" where
  "month_lengths y = [31, if is_leap y then 29 else 28, 31, 30, 31, 30, 31, 31, 30, 31, 30, 31]"

definition days_in :: "nat \<Rightarrow> int \<Rightarrow> int" where
  "days_in m y = month_lengths y ! (m - 1)"

text \<open>Days from 0000-01-01 to the first day of year \<open>y\<close> of the proleptic Gregorian calendar.\<close>

definition days_before_year :: "int \<Rightarrow> int" where
  "days_before_year y = 365 * y + (y + 3) div 4 - (y + 99) div 100 + (y + 399) div 400"

definition epoch_days :: int where
  "epoch_days = 719528"

definition days_from_civil :: "int \<Rightarrow> nat \<Rightarrow> int \<Rightarrow> int" where
  "days_from_civil y m d =
     days_before_year y + sum_list (take (m - 1) (month_lengths y)) + (d - 1) - epoch_days"

definition year_of_days :: "int \<Rightarrow> int" where
  "year_of_days n = (let y = (400 * n) div 146097 in
     if n < days_before_year y then y - 1
     else if days_before_year (y + 1) \<le> n then y + 1 else y)"

fun month_and_day :: "nat \<Rightarrow> int list \<Rightarrow> int \<Rightarrow> nat \<times> int" where
  "month_and_day m [] n = (m, n + 1)"
| "month_and_day m (l # ls) n = (if n < l then (m, n + 1) else month_and_day (Suc m) ls (n - l))"

definition civil_from_days :: "int \<Rightarrow> int \<times> nat \<times> int" where
  "civil_from_days z = (let n = z + epoch_days; y = year_of_days n;
     (m, d) = month_and_day 1 (month_lengths y) (n - days_before_year y) in (y, m, d))"

definition date_time :: "int \<Rightarrow> nat \<Rightarrow> int \<Rightarrow> nat \<Rightarrow> nat \<Rightarrow> nat \<Rightarrow> int \<Rightarrow> instant" where
  "date_time y mo d h mi s ns =
     (days_from_civil y mo d * 86400 + int h * 3600 + int mi * 60 + int s) * second + ns"

section \<open>Parsing the RFC 3339 layout\<close>

text \<open>
  \<^verbatim>\<open>time.Parse(time.RFC3339, s)\<close>: the layout \<^verbatim>\<open>2006-01-02T15:04:05Z07:00\<close>, with what Go's
  parser tolerates beyond the RFC: a one-digit hour, a fraction of a second introduced by a
  period or a comma, offsets up to 24:60.  The result is the instant and the zone offset in
  seconds.
\<close>

definition skip_char :: "char \<Rightarrow> string \<Rightarrow> string option" where
  "skip_char c s = (case s of x # xs \<Rightarrow> if x = c then Some xs else None | [] \<Rightarrow> None)"

definition get_num :: "bool \<Rightarrow> string \<Rightarrow> (nat \<times> string) option" where
  "get_num fixed s = (case s of
     c1 # c2 # r \<Rightarrow>
       if \<not> is_digit c1 then None
       else if is_digit c2 then Some (10 * digit_val c1 + digit_val c2, r)
       else if fixed then None else Some (digit_val c1, c2 # r)
   | [c1] \<Rightarrow> if is_digit c1 \<and> \<not> fixed then Some (digit_val c1, []) else None
   | [] \<Rightarrow> None)"

definition get_year :: "string \<Rightarrow> (nat \<times> string) option" where
  "get_year s = (if 4 \<le> length s \<and> list_all is_digit (take 4 s)
     then Some (val_of_digits 0 (take 4 s), drop 4 s) else None)"

definition get_fraction :: "string \<Rightarrow> int \<times> string" where
  "get_fraction s = (case s of
     p # d # r \<Rightarrow>
       if (p = CHR ''.'' \<or> p = CHR '','') \<and> is_digit d then
         (let ds = takeWhile is_digit (d # r); ds9 = take 9 ds in
          (int (val_of_digits 0 ds9 * 10 ^ (9 - length ds9)), dropWhile is_digit (d # r)))
       else (0, s)
   | _ \<Rightarrow> (0, s))"

definition get_zone :: "string \<Rightarrow> (int \<times> string) option" where
  "get_zone s = (case s of
     CHR ''Z'' # r \<Rightarrow> Some (0, r)
   | sg # h1 # h2 # c # m1 # m2 # r \<Rightarrow>
       if c = CHR '':'' \<and> is_digit h1 \<and> is_digit h2 \<and> is_digit m1 \<and> is_digit m2
          \<and> (sg = CHR ''+'' \<or> sg = CHR ''-'')
       then (let h = 10 * digit_val h1 + digit_val h2; m = 10 * digit_val m1 + digit_val m2 in
         if h \<le> 24 \<and> m \<le> 60 then
           Some ((if sg = CHR ''-'' then -1 else 1) * int ((h * 60 + m) * 60), r)
         else None)
       else None
   | _ \<Rightarrow> None)"

definition guard :: "bool \<Rightarrow> 'a option \<Rightarrow> 'a option" where
  "guard b x = (if b then x else None)"

definition get_month :: "string \<Rightarrow> (nat \<times> string) option" where
  "get_month s = Option.bind (get_num True s)
     (\<lambda>(mo, r). guard (1 \<le> mo \<and> mo \<le> 12) (Some (mo, r)))"

definition get_below :: "nat \<Rightarrow> bool \<Rightarrow> string \<Rightarrow> (nat \<times> string) option" where
  "get_below n fixed s = Option.bind (get_num fixed s) (\<lambda>(v, r). guard (v < n) (Some (v, r)))"

definition parse_date :: "string \<Rightarrow> (int \<times> nat \<times> nat \<times> string) option" where
  "parse_date s =
     Option.bind (get_year s) (\<lambda>(y, s).
     Option.bind (skip_char CHR ''-'' s) (\<lambda>s.
     Option.bind (get_month s) (\<lambda>(mo, s).
     Option.bind (skip_char CHR ''-'' s) (\<lambda>s.
     Option.bind (get_num True s) (\<lambda>(d, s). Some (int y, mo, d, s))))))"

definition parse_clock :: "string \<Rightarrow> (nat \<times> nat \<times> nat \<times> int \<times> string) option" where
  "parse_clock s =
     Option.bind (get_below 24 False s) (\<lambda>(h, s).
     Option.bind (skip_char CHR '':'' s) (\<lambda>s.
     Option.bind (get_below 60 True s) (\<lambda>(mi, s).
     Option.bind (skip_char CHR '':'' s) (\<lambda>s.
     Option.bind (get_below 60 True s) (\<lambda>(se, s).
       let (ns, r) = get_fraction s in Some (h, mi, se, ns, r))))))"

definition parse_rfc3339 :: "string \<Rightarrow> (instant \<times> int) option" where
  "parse_rfc3339 s =
     Option.bind (parse_date s) (\<lambda>(y, mo, d, s).
     Option.bind (skip_char CHR ''T'' s) (\<lambda>s.
     Option.bind (parse_clock s) (\<lambda>(h, mi, se, ns, s).
     Option.bind (get_zone s) (\<lambda>(off, s).
     guard (s = [] \<and> 1 \<le> d \<and> int d \<le> days_in mo y)
       (Some (date_time y mo (int d) h mi se ns - off * second, off))))))"

section \<open>Formatting\<close>

definition pad2 :: "nat \<Rightarrow> string" where
  "pad2 n = (if n < 10 then CHR ''0'' # digits_of n else digits_of n)"

definition pad4 :: "nat \<Rightarrow> string" where
  "pad4 n = replicate (4 - length (digits_of n)) CHR ''0'' @ digits_of n"

definition fmt_year :: "int \<Rightarrow> string" where
  "fmt_year y = (if y < 0 then CHR ''-'' # pad4 (nat (- y)) else pad4 (nat y))"

definition fmt_zone :: "int \<Rightarrow> string" where
  "fmt_zone off = (if off = 0 then ''Z'' else
     let m = nat (\<bar>off\<bar> div 60) in
       (if off < 0 then CHR ''-'' else CHR ''+'') # pad2 (m div 60) @ CHR '':'' # pad2 (m mod 60))"

text \<open>\<^verbatim>\<open>t.Format(time.RFC3339)\<close> in a zone \<open>off\<close> seconds east of UTC.\<close>

definition format_rfc3339 :: "int \<Rightarrow> instant \<Rightarrow> string" where
  "format_rfc3339 off t = (let secs = t div second + off; z = secs div 86400;
     sod = nat (secs mod 86400); (y, mo, d) = civil_from_days z in
     fmt_year y @ CHR ''-'' # pad2 mo @ CHR ''-'' # pad2 (nat d) @ CHR ''T'' #
     pad2 (sod div 3600) @ CHR '':'' # pad2 (sod div 60 mod 60) @ CHR '':'' # pad2 (sod mod 60) @
     fmt_zone off)"

section \<open>The calendar is sound\<close>

lemma div_step:
  fixes y k :: int
  assumes "0 < k" and j: "j = k - 1"
  shows "(y + k) div k - (y + j) div k = (if y mod k = 0 then 1 else 0)"
proof -
  have "y + (k - 1) = k * (y div k) + (y mod k + (k - 1))" by simp
  then have "(y + (k - 1)) div k = y div k + (y mod k + (k - 1)) div k"
    using assms by (metis div_mult_self4 less_irrefl)
  moreover have "(y mod k + (k - 1)) div k = (if y mod k = 0 then 0 else 1)"
  proof (cases "y mod k = 0")
    case False
    with assms have "0 < y mod k" "y mod k < k" by (simp_all add: order_le_neq_trans)
    then have "(y mod k + (k - 1)) div k = ((y mod k - 1) + 1 * k) div k" by (simp add: algebra_simps)
    also have "\<dots> = (y mod k - 1) div k + 1" using assms by (subst div_mult_self1) simp_all
    also have "(y mod k - 1) div k = 0"
      using \<open>0 < y mod k\<close> \<open>y mod k < k\<close> by (intro div_pos_pos_trivial) simp_all
    finally show ?thesis using False by simp
  qed (use assms in \<open>simp add: div_pos_pos_trivial\<close>)
  moreover have "(y + k) div k = y div k + 1" using assms by (intro div_add_self2) simp
  ultimately show ?thesis by (auto simp: j)
qed

lemma div_bounds:
  fixes x k :: int
  assumes "0 < k"
  shows "k * (x div k) \<le> x" and "x < k * (x div k) + k"
proof -
  have "k * (x div k) + x mod k = x" by simp
  moreover have "0 \<le> x mod k" "x mod k < k" using assms by simp_all
  ultimately show "k * (x div k) \<le> x" and "x < k * (x div k) + k" by linarith+
qed

lemma leap_arith:
  fixes a0 a1 b0 b1 c0 c1 y :: int
  assumes "a1 - a0 = (if y mod 4 = 0 then 1 else 0)" and "b1 - b0 = (if y mod 100 = 0 then 1 else 0)"
    and "c1 - c0 = (if y mod 400 = 0 then 1 else 0)"
  shows "(365 * (y + 1) + a1 - b1 + c1) - (365 * y + a0 - b0 + c0) = (if is_leap y then 366 else 365)"
proof -
  have "y mod 100 = 0" if "y mod 400 = 0" using that mod_mod_cancel[of 100 400 y] by simp
  moreover have "y mod 4 = 0" if "y mod 100 = 0" using that mod_mod_cancel[of 4 100 y] by simp
  ultimately show ?thesis using assms unfolding is_leap_def by (auto split: if_splits)
qed

lemma year_length:
  "days_before_year (y + 1) - days_before_year y = (if is_leap y then 366 else 365)"
proof -
  have n: "y + 1 + 3 = y + 4" "y + 1 + 99 = y + 100" "y + 1 + 399 = y + 400" by simp_all
  show ?thesis
    unfolding days_before_year_def n by (rule leap_arith; rule div_step; simp)
qed

lemma sum_month_lengths: "sum_list (month_lengths y) = (if is_leap y then 366 else 365)"
  by (simp add: month_lengths_def)

lemma days_before_year_bounds:
  shows "146097 * y - 1200 \<le> 400 * days_before_year y" and "400 * days_before_year y \<le> 146097 * y + 2000"
proof -
  have arith: "146097 * y - 1200 \<le> 400 * (365 * y + a - b + c)"
    "400 * (365 * y + a - b + c) \<le> 146097 * y + 2000"
    if "4 * a \<le> y + 3" "y + 3 < 4 * a + 4" "100 * b \<le> y + 99" "y + 99 < 100 * b + 100"
      "400 * c \<le> y + 399" "y + 399 < 400 * c + 400" for a b c :: int
    using that by simp_all
  note b = arith[OF div_bounds[of 4 "y + 3", OF zero_less_numeral]
      div_bounds[of 100 "y + 99", OF zero_less_numeral]
      div_bounds[of 400 "y + 399", OF zero_less_numeral]]
  show "146097 * y - 1200 \<le> 400 * days_before_year y"
    unfolding days_before_year_def by (rule b(1))
  show "400 * days_before_year y \<le> 146097 * y + 2000"
    unfolding days_before_year_def by (rule b(2))
qed

lemma year_of_days_bounds:
  "days_before_year (year_of_days n) \<le> n \<and> n < days_before_year (year_of_days n + 1)"
proof -
  let ?y = "(400 * n) div 146097"
  have y: "146097 * ?y \<le> 400 * n" "400 * n < 146097 * (?y + 1)"
    using div_bounds[of 146097 "400 * n", OF zero_less_numeral]
    by (simp_all only: distrib_left mult_1_right)
  have "days_before_year (?y - 1) \<le> n"
  proof -
    have "400 * days_before_year (?y - 1) \<le> 146097 * (?y - 1) + 2000"
      by (rule days_before_year_bounds(2))
    then have "400 * days_before_year (?y - 1) \<le> 146097 * ?y"
      by (simp only: right_diff_distrib mult_1_right)
    from this y(1) have "400 * days_before_year (?y - 1) \<le> 400 * n" by (rule order_trans)
    then show ?thesis by simp
  qed
  moreover have "n < days_before_year (?y + 2)"
  proof -
    have "146097 * (?y + 1) \<le> 146097 * (?y + 2) - 1200" by simp
    also have "\<dots> \<le> 400 * days_before_year (?y + 2)" by (rule days_before_year_bounds(1))
    finally have "146097 * (?y + 1) \<le> 400 * days_before_year (?y + 2)" .
    with y(2) have "400 * n < 400 * days_before_year (?y + 2)" by (rule order_less_le_trans)
    then show ?thesis by simp
  qed
  ultimately show ?thesis by (simp add: year_of_days_def Let_def algebra_simps)
qed

lemma month_and_day_spec:
  assumes "0 \<le> n" and "n < sum_list ls" and "month_and_day m ls n = (m', d)"
  shows "m \<le> m' \<and> m' < m + length ls \<and> 1 \<le> d \<and> d \<le> ls ! (m' - m)
    \<and> sum_list (take (m' - m) ls) + (d - 1) = n"
  using assms
proof (induction m ls n rule: month_and_day.induct)
  case (2 m l ls n)
  show ?case
  proof (cases "n < l")
    case True
    with "2.prems" show ?thesis by auto
  next
    case False
    with "2.prems" have "month_and_day (Suc m) ls (n - l) = (m', d)" by simp
    with "2.IH" False "2.prems"
    have IH: "Suc m \<le> m' \<and> m' < Suc m + length ls \<and> 1 \<le> d \<and> d \<le> ls ! (m' - Suc m)
      \<and> sum_list (take (m' - Suc m) ls) + (d - 1) = n - l" by simp
    then obtain i where i: "m' = Suc m + i" using le_Suc_ex by blast
    with IH show ?thesis by simp
  qed
qed simp

theorem civil_from_days_inverse:
  assumes "civil_from_days z = (y, m, d)"
  shows "days_from_civil y m d = z" and "1 \<le> m" "m \<le> 12" and "1 \<le> d" "d \<le> days_in m y"
proof -
  let ?n = "z + epoch_days"
  let ?r = "?n - days_before_year (year_of_days ?n)"
  have y: "y = year_of_days ?n" and md: "month_and_day 1 (month_lengths y) ?r = (m, d)"
    using assms by (auto simp: civil_from_days_def Let_def split: prod.splits)
  have r: "0 \<le> ?r" "?r < sum_list (month_lengths y)"
    using year_of_days_bounds[of ?n] year_length[of "year_of_days ?n"]
    by (auto simp: y sum_month_lengths split: if_splits)
  note spec = month_and_day_spec[OF r md]
  then show "1 \<le> m" "m \<le> 12" "1 \<le> d" "d \<le> days_in m y"
    by (auto simp: month_lengths_def days_in_def)
  from spec show "days_from_civil y m d = z" by (simp add: days_from_civil_def y)
qed

section \<open>Parsing inverts formatting\<close>

lemma digit_char_0: "digit_char 0 = CHR ''0''"
  by code_simp

lemma pad2_digits:
  assumes "n < 100"
  shows "pad2 n = [digit_char (n div 10), digit_char (n mod 10)]"
proof (cases "n < 10")
  case True
  then show ?thesis by (simp add: pad2_def digits_of.simps[of n] digit_char_0)
next
  case False
  with assms have "digits_of n = [digit_char (n div 10), digit_char (n mod 10)]"
    by (simp add: digits_of.simps[of n] digits_of.simps[of "n div 10"])
  with False show ?thesis by (simp add: pad2_def)
qed

lemma get_num_pad2:
  assumes "n < 100"
  shows "get_num fixed (pad2 n @ r) = Some (n, r)"
proof -
  have "n div 10 < 10" using assms by simp
  then show ?thesis
    by (simp add: pad2_digits[OF assms] get_num_def digit_char_facts)
qed

lemma get_year_pad4:
  assumes "0 \<le> y" and "y \<le> 9999"
  shows "get_year (fmt_year y @ r) = Some (nat y, r)"
proof -
  have "nat y < 10 ^ 4" using assms by simp
  then have len: "length (digits_of (nat y)) \<le> 4" by (rule length_digits_of) simp
  have 4: "length (pad4 (nat y)) = 4" using len by (simp add: pad4_def)
  have "list_all is_digit (pad4 (nat y))"
    using digits_of_all_digits[of "nat y"] by (auto simp: pad4_def list_all_iff is_digit_def)
  moreover have "val_of_digits 0 (pad4 (nat y)) = nat y"
    by (simp add: pad4_def val_of_digits_append val_of_digits_zeros val_of_digits_of)
  ultimately show ?thesis using assms 4 by (simp add: get_year_def fmt_year_def)
qed

lemma get_zone_fmt:
  assumes "60 dvd off" and "\<bar>off\<bar> < 86400"
  shows "get_zone (fmt_zone off) = Some (off, [])"
proof (cases "off = 0")
  case True
  then show ?thesis by (simp add: fmt_zone_def get_zone_def)
next
  case False
  define m where "m = nat (\<bar>off\<bar> div 60)"
  have off: "off = (if off < 0 then -1 else 1) * int (m * 60)" and m: "m < 1440"
    using assms by (auto simp: m_def)
  have a: "m div 60 < 100" "m mod 60 < 100" using m by simp_all
  have d: "m div 60 div 10 < 10" "m mod 60 div 10 < 10" using m by simp_all
  have "10 * (m div 60 div 10) + m div 60 mod 10 = m div 60"
    "10 * (m mod 60 div 10) + m mod 60 mod 10 = m mod 60" by simp_all
  moreover have "m div 60 \<le> 24" "m mod 60 \<le> 60" "m div 60 * 60 + m mod 60 = m" using m by simp_all
  ultimately have "get_zone (fmt_zone off) = Some ((if off < 0 then -1 else 1) * int (m * 60), [])"
    using False d by (simp add: fmt_zone_def Let_def pad2_digits a get_zone_def digit_char_facts
        flip: m_def)
  with off show ?thesis by metis
qed

lemma get_fraction_zone: "get_fraction (fmt_zone off) = (0, fmt_zone off)"
  by (auto simp: fmt_zone_def Let_def get_fraction_def split: list.split)

lemma parse_format_rfc3339:
  assumes "60 dvd off" and "\<bar>off\<bar> < 86400"
    and civil: "civil_from_days ((t div second + off) div 86400) = (y, mo, d)"
    and "0 \<le> y" and "y \<le> 9999"
  shows "parse_rfc3339 (format_rfc3339 off t) = Some (t div second * second, off)"
proof -
  let ?secs = "t div second + off"
  define sod where "sod = nat (?secs mod 86400)"
  have sod: "sod < 86400" "int sod = ?secs mod 86400" by (simp_all add: sod_def)
  note c = civil_from_days_inverse[OF civil]
  have d99: "nat d < 100"
    using c(3-5) by (auto simp: days_in_def month_lengths_def nth_Cons' split: if_splits)
  have b: "sod div 3600 < 24" "sod div 60 mod 60 < 60" "sod mod 60 < 60" using sod(1) by simp_all
  have fmt: "format_rfc3339 off t = fmt_year y @ CHR ''-'' # pad2 mo @ CHR ''-'' # pad2 (nat d)
     @ CHR ''T'' # pad2 (sod div 3600) @ CHR '':'' # pad2 (sod div 60 mod 60) @ CHR '':'' #
     pad2 (sod mod 60) @ fmt_zone off"
    by (simp add: format_rfc3339_def Let_def civil flip: sod_def)
  have date: "parse_date (fmt_year y @ CHR ''-'' # pad2 mo @ CHR ''-'' # pad2 (nat d) @ r)
      = Some (y, mo, nat d, r)" for r
    using c(2,3) d99 assms(4,5)
    by (simp add: parse_date_def get_year_pad4 skip_char_def get_month_def guard_def get_num_pad2)
  have clock: "parse_clock (pad2 (sod div 3600) @ CHR '':'' # pad2 (sod div 60 mod 60) @ CHR '':'' #
     pad2 (sod mod 60) @ fmt_zone off)
      = Some (sod div 3600, sod div 60 mod 60, sod mod 60, 0, fmt_zone off)"
    using b by (simp add: parse_clock_def get_below_def guard_def get_num_pad2 skip_char_def
        get_fraction_zone)
  have parts: "int (sod div 3600) * 3600 + int (sod div 60 mod 60) * 60 + int (sod mod 60) = int sod"
  proof -
    define q where "q = sod div 60"
    have "sod div 3600 = q div 60" unfolding q_def by (simp flip: div_mult2_eq)
    moreover have "sod = q * 60 + sod mod 60" unfolding q_def by (rule div_mult_mod_eq[symmetric])
    moreover have "q = q div 60 * 60 + q mod 60" by (rule div_mult_mod_eq[symmetric])
    ultimately show ?thesis unfolding q_def[symmetric] by linarith
  qed
  have whole: "?secs div 86400 * 86400 + int sod = ?secs" using sod(2) by simp
  have "days_from_civil y mo (int (nat d)) * 86400 + int (sod div 3600) * 3600
      + int (sod div 60 mod 60) * 60 + int (sod mod 60) = ?secs"
  proof -
    have "int (nat d) = d" using c(4) by simp
    then show ?thesis using parts whole by (simp only: c(1))
  qed
  then have "date_time y mo (int (nat d)) (sod div 3600) (sod div 60 mod 60) (sod mod 60) 0 - off * second
      = ?secs * second - off * second"
    unfolding date_time_def by simp
  also have "\<dots> = t div second * second" by (simp add: distrib_right)
  finally have "date_time y mo (int (nat d)) (sod div 3600) (sod div 60 mod 60) (sod mod 60) 0
      - off * second = t div second * second" .
  then show ?thesis
    using c(4,5) by (simp add: parse_rfc3339_def fmt date skip_char_def clock get_zone_fmt assms(1,2)
        guard_def)
qed

end
