(* ===== verification/GoDuration.thy ===== *)
theory GoDuration
  imports GoTime
begin

text \<open>
  \<^verbatim>\<open>time.ParseDuration\<close>, with the floating-point product it takes a fraction by, and
  \<^verbatim>\<open>fmt.Sscanf\<close> with the single verb \<^verbatim>\<open>%d\<close>.
\<close>

section \<open>Multiplication and division of floats\<close>

fun sign_of :: "float64 \<Rightarrow> bool" where
  "sign_of FNaN = False"
| "sign_of (FInf n) = n"
| "sign_of (FFin n _) = n"

definition is_zero :: "float64 \<Rightarrow> bool" where
  "is_zero v \<longleftrightarrow> (case v of FFin _ k \<Rightarrow> k = 0 | _ \<Rightarrow> False)"

fun fmul :: "float64 \<Rightarrow> float64 \<Rightarrow> float64" where
  "fmul (FFin n j) (FFin m k) = of_units (n \<noteq> m) (j * k) unit_scale"
| "fmul a b = (if is_nan a \<or> is_nan b \<or> is_zero a \<or> is_zero b then FNaN
     else FInf (sign_of a \<noteq> sign_of b))"

fun fdiv :: "float64 \<Rightarrow> float64 \<Rightarrow> float64" where
  "fdiv (FFin n j) (FFin m k) = (if k = 0 then (if j = 0 then FNaN else FInf (n \<noteq> m))
     else of_units (n \<noteq> m) (j * unit_scale) k)"
| "fdiv (FInf n) (FFin m k) = FInf (n \<noteq> m)"
| "fdiv (FFin n j) (FInf m) = FFin (n \<noteq> m) 0"
| "fdiv a b = FNaN"

text \<open>The conversion of a non-negative float to an integer truncates.\<close>

fun trunc_nat :: "float64 \<Rightarrow> nat" where
  "trunc_nat (FFin _ k) = k div unit_scale"
| "trunc_nat _ = 0"

section \<open>Durations\<close>

definition two63 :: nat where
  "two63 = 9223372036854775808"

text \<open>The leading digits, with their overflow check; \<^term>\<open>None\<close> is an overflow.\<close>

fun leading_int :: "nat \<Rightarrow> string \<Rightarrow> (nat \<times> string) option" where
  "leading_int x [] = Some (x, [])"
| "leading_int x (c # s) = (if \<not> is_digit c then Some (x, c # s)
     else if two63 div 10 < x then None
     else (let y = x * 10 + digit_val c in if two63 < y then None else leading_int y s))"

text \<open>The digits of a fraction and the number of them that were taken; digits too many are skipped.\<close>

fun leading_fraction :: "bool \<Rightarrow> nat \<Rightarrow> nat \<Rightarrow> string \<Rightarrow> nat \<times> nat \<times> string" where
  "leading_fraction over x n [] = (x, n, [])"
| "leading_fraction over x n (c # s) = (if \<not> is_digit c then (x, n, c # s)
     else if over \<or> (two63 - 1) div 10 < x then leading_fraction True x n s
     else (let y = x * 10 + digit_val c in
       if two63 < y then leading_fraction True x n s else leading_fraction False y (Suc n) s))"

definition unit_char :: "char \<Rightarrow> bool" where
  "unit_char c \<longleftrightarrow> c \<noteq> CHR ''.'' \<and> \<not> is_digit c"

definition unit_of :: "string \<Rightarrow> nat option" where
  "unit_of u = (if u = ''ns'' then Some 1
     else if u \<in> {''us'', [CHR 0xC2, CHR 0xB5, CHR ''s''], [CHR 0xCE, CHR 0xBC, CHR ''s'']} then Some 1000
     else if u = ''ms'' then Some 1000000
     else if u = ''s'' then Some 1000000000
     else if u = ''m'' then Some 60000000000
     else if u = ''h'' then Some 3600000000000 else None)"

definition fraction_part :: "nat \<Rightarrow> nat \<Rightarrow> nat \<Rightarrow> nat" where
  "fraction_part f n unit = trunc_nat (fmul (of_natural f) (fdiv (of_natural unit) (of_natural (10 ^ n))))"

text \<open>One number with its unit, in nanoseconds, and what follows it.\<close>

definition duration_item :: "string \<Rightarrow> (nat \<times> string) option" where
  "duration_item s =
     (if s = [] \<or> \<not> (hd s = CHR ''.'' \<or> is_digit (hd s)) then None
      else (case leading_int 0 s of
        None \<Rightarrow> None
      | Some (v, s1) \<Rightarrow>
          (let dotted = (s1 \<noteq> [] \<and> hd s1 = CHR ''.'');
               (f, n, s2) = (if dotted then leading_fraction False 0 0 (tl s1) else (0, 0, s1));
               pre = (length s1 \<noteq> length s); post = (dotted \<and> length s2 \<noteq> length (tl s1));
               u = takeWhile unit_char s2; rest = dropWhile unit_char s2 in
           if \<not> pre \<and> \<not> post then None
           else (case unit_of u of
             None \<Rightarrow> None
           | Some unit \<Rightarrow>
               if two63 div unit < v then None
               else (let w = v * unit + (if 0 < f then fraction_part f n unit else 0) in
                 if 0 < f \<and> two63 < w then None else Some (w, rest))))))"

lemma leading_int_length: "leading_int x s = Some (v, t) \<Longrightarrow> length t \<le> length s"
  by (induction s arbitrary: x) (fastforce split: if_splits simp: Let_def)+

lemma leading_fraction_length: "leading_fraction b x n s = (f, k, t) \<Longrightarrow> length t \<le> length s"
  by (induction s arbitrary: b x n) (fastforce split: if_splits simp: Let_def)+

lemma unit_of_Nil [simp]: "unit_of [] = None"
  by (simp add: unit_of_def)

lemma duration_item_length:
  assumes "duration_item s = Some (w, rest)"
  shows "length rest < length s"
proof -
  obtain v s1 where i: "leading_int 0 s = Some (v, s1)"
    using assms by (auto simp: duration_item_def split: if_splits option.splits)
  define dotted where "dotted \<longleftrightarrow> s1 \<noteq> [] \<and> hd s1 = CHR ''.''"
  obtain f n s2 where f: "(if dotted then leading_fraction False 0 0 (tl s1) else (0, 0, s1)) = (f, n, s2)"
    by (metis prod_cases3)
  have le: "length s2 \<le> length s"
    using leading_int_length[OF i] f by (auto split: if_splits dest!: leading_fraction_length)
  have "rest = dropWhile unit_char s2 \<and> takeWhile unit_char s2 \<noteq> []"
  proof -
    have "unit_of (takeWhile unit_char s2) \<noteq> None \<and> rest = dropWhile unit_char s2"
      using assms f
      by (auto simp: duration_item_def i Let_def dotted_def[symmetric] split: if_splits option.splits)
    then show ?thesis by force
  qed
  moreover have "length s2 = length (takeWhile unit_char s2) + length (dropWhile unit_char s2)"
    by (metis length_append takeWhile_dropWhile_id)
  ultimately show ?thesis using le by (cases "takeWhile unit_char s2") auto
qed

text \<open>The sum is 64-bit arithmetic and checked after each item.\<close>

function duration_items :: "nat \<Rightarrow> string \<Rightarrow> nat option" where
  "duration_items d s = (if s = [] then Some d
     else (case duration_item s of
       None \<Rightarrow> None
     | Some (v, rest) \<Rightarrow> (let d' = (d + v) mod (2 * two63) in
         if two63 < d' then None else duration_items d' rest)))"
  by pat_completeness auto
termination by (relation "measure (\<lambda>(d, s). length s)") (auto dest: duration_item_length)

declare duration_items.simps [simp del]

definition parse_duration :: "string \<Rightarrow> duration option" where
  "parse_duration s0 = (let signed = (s0 \<noteq> [] \<and> (hd s0 = CHR ''-'' \<or> hd s0 = CHR ''+''));
       neg = (signed \<and> hd s0 = CHR ''-''); s = (if signed then tl s0 else s0) in
     if s = ''0'' then Some 0
     else if s = [] then None
     else (case duration_items 0 s of
       None \<Rightarrow> None
     | Some d \<Rightarrow> if neg then Some (- int d) else if two63 - 1 < d then None else Some (int d)))"

section \<open>Whole durations\<close>

lemma val_of_digits_mono: "y \<le> val_of_digits y ts"
proof (induction ts arbitrary: y)
  case (Cons t ts)
  have "y \<le> 10 * y + digit_val t" by simp
  with Cons[of "10 * y + digit_val t"] show ?case by simp
qed simp

lemma leading_int_digits:
  assumes "\<forall>c \<in> set ds. is_digit c" and "rest = [] \<or> \<not> is_digit (hd rest)" and "x \<le> two63"
  shows "leading_int x (ds @ rest)
    = (if val_of_digits x ds \<le> two63 then Some (val_of_digits x ds, rest) else None)"
  using assms
proof (induction ds arbitrary: x)
  case Nil
  then show ?case by (cases rest) simp_all
next
  case (Cons c ds)
  let ?y = "x * 10 + digit_val c"
  have val: "val_of_digits x (c # ds) = val_of_digits ?y ds" by (simp add: mult.commute)
  show ?case
  proof (cases "?y \<le> two63")
    case True
    then have "\<not> two63 div 10 < x" by (simp add: two63_def)
    with True Cons show ?thesis by (simp add: val Let_def del: val_of_digits.simps)
  next
    case False
    moreover have "\<not> val_of_digits ?y ds \<le> two63"
      using False val_of_digits_mono[of ?y ds] by simp
    ultimately show ?thesis using Cons.prems(1) by (simp add: val Let_def del: val_of_digits.simps)
  qed
qed

lemma unit_of_chars:
  assumes "unit_of u = Some k"
  shows "u \<noteq> []" and "takeWhile unit_char u = u" and "dropWhile unit_char u = []"
    and "\<not> is_digit (hd u)" and "hd u \<noteq> CHR ''.''" and "0 < k"
proof -
  have "u \<in> {''ns'', ''us'', [CHR 0xC2, CHR 0xB5, CHR ''s''], [CHR 0xCE, CHR 0xBC, CHR ''s''], ''ms'', ''s'', ''m'', ''h''}"
    using assms by (auto simp: unit_of_def split: if_splits)
  then have u: "u \<noteq> [] \<and> list_all unit_char u"
    by (auto simp: unit_char_def is_digit_def)
  then show "u \<noteq> []" "takeWhile unit_char u = u" "dropWhile unit_char u = []"
    by (auto simp: list_all_iff)
  from u show "\<not> is_digit (hd u)" "hd u \<noteq> CHR ''.''" by (cases u; simp add: unit_char_def)+
  show "0 < k" using assms by (auto simp: unit_of_def split: if_splits)
qed

lemma duration_item_whole:
  assumes u: "unit_of u = Some k"
  shows "duration_item (digits_of n @ u) = (if n \<le> two63 div k then Some (n * k, []) else None)"
proof -
  note c = unit_of_chars[OF u]
  have "leading_int 0 (digits_of n @ u) = (if n \<le> two63 then Some (n, u) else None)"
    using leading_int_digits[OF digits_of_all_digits, of u 0 n] c by (simp add: val_of_digits_of)
  moreover have "is_digit (hd (digits_of n @ u))"
    using digits_of_all_digits[of n] digits_of_nonempty[of n] by (simp add: hd_append)
  moreover have "n \<le> two63 div k \<Longrightarrow> n \<le> two63" by (meson div_le_dividend order_trans)
  ultimately show ?thesis
    using c u
    by (auto simp: duration_item_def Let_def simp del: takeWhile_eq_all_conv dropWhile_eq_Nil_conv)
qed

text \<open>A whole number followed by a unit is read as that many of the unit, whatever the number, as long as
  it is below $2^{63}$ nanoseconds, and refused beyond.\<close>

lemma parse_duration_whole:
  assumes "unit_of u = Some k"
  shows "parse_duration (digits_of n @ u) = (if n * k < two63 then Some (int (n * k)) else None)"
proof -
  note c = unit_of_chars[OF assms]
  have hd: "is_digit (hd (digits_of n @ u))"
    using digits_of_all_digits[of n] digits_of_nonempty[of n] by (simp add: hd_append)
  then have nosign: "hd (digits_of n @ u) \<noteq> CHR ''-'' \<and> hd (digits_of n @ u) \<noteq> CHR ''+''"
    by (auto simp: is_digit_def)
  have "digits_of n @ u \<noteq> ''0''"
  proof
    assume "digits_of n @ u = ''0''"
    then have "last (digits_of n @ u) = CHR ''0''" by simp
    then have "last u = CHR ''0''" using c(1) by simp
    moreover have "unit_char (last u)" using c(1,2) by (metis last_in_set set_takeWhileD)
    ultimately show False by (simp add: unit_char_def is_digit_def)
  qed
  moreover have "n \<le> two63 div k \<longleftrightarrow> n * k \<le> two63"
    using c(6) by (simp add: less_eq_div_iff_mult_less_eq)
  moreover have "n * k mod (2 * two63) = n * k" if "n * k \<le> two63"
    using that by (simp add: two63_def)
  ultimately have "duration_items 0 (digits_of n @ u) = (if n * k \<le> two63 then Some (n * k) else None)"
    by (simp add: duration_items.simps[of 0] duration_item_whole[OF assms] duration_items.simps[of _ "[]"])
  moreover have "two63 - 1 < n * k \<longleftrightarrow> \<not> n * k < two63" "two63 - 1 < two63" by (auto simp: two63_def)
  ultimately show ?thesis
    using nosign \<open>digits_of n @ u \<noteq> ''0''\<close> c(1) by (simp add: parse_duration_def Let_def)
qed

section \<open>Sscanf with one integer\<close>

text \<open>White space before the number is skipped, but not a newline; what follows the number is ignored.\<close>

definition blank_encodings :: "string list" where
  "blank_encodings = filter (\<lambda>w. w \<noteq> [CHR 0x0A]) ws_encodings"

definition scan_int :: "string \<Rightarrow> int option" where
  "scan_int s = (let t = strip blank_encodings s; signed = (t \<noteq> [] \<and> (hd t = CHR ''-'' \<or> hd t = CHR ''+''));
       neg = (signed \<and> hd t = CHR ''-''); ds = takeWhile is_digit (if signed then tl t else t);
       v = int (val_of_digits 0 ds); w = (if neg then - v else v) in
     if ds = [] \<or> w < min_int64 \<or> max_int64 < w then None else Some w)"

end
