(* ===== verification/Domain.thy ===== *)
theory Domain
  imports GoTime
begin

text \<open>
  The entities and errors of \<^verbatim>\<open>internal/domain\<close>: one record per Go struct, one datatype per
  enumeration of string constants.  Pointers that may be nil are options, timestamps are
  instants, Go's \<^verbatim>\<open>int\<close> and \<^verbatim>\<open>int64\<close> are integers.
\<close>

section \<open>Devices\<close>

text \<open>
  \<^verbatim>\<open>DeviceStatus\<close> is a string type: a request may carry any text, which \<^verbatim>\<open>DeviceStatus(s)\<close>
  converts unchecked; \<open>DeviceOther\<close> stands for a text that is none of the four constants.
\<close>

datatype device_status =
  DevicePending | DeviceActive | DeviceSuspended | DeviceDeleted | DeviceOther string

definition device_status_of :: "string \<Rightarrow> device_status" where
  "device_status_of s = (if s = ''pending'' then DevicePending
     else if s = ''active'' then DeviceActive
     else if s = ''suspended'' then DeviceSuspended
     else if s = ''deleted'' then DeviceDeleted else DeviceOther s)"

fun device_status_text :: "device_status \<Rightarrow> string" where
  "device_status_text DevicePending = ''pending''"
| "device_status_text DeviceActive = ''active''"
| "device_status_text DeviceSuspended = ''suspended''"
| "device_status_text DeviceDeleted = ''deleted''"
| "device_status_text (DeviceOther s) = s"

lemma device_status_text_of [simp]: "device_status_text (device_status_of s) = s"
  by (simp add: device_status_of_def)

text \<open>A JSON value, as decoded into \<^verbatim>\<open>any\<close>; \<^verbatim>\<open>map[string]any\<close> is an optional list of members.\<close>

datatype json = JNull | JBool bool | JNumber float64 | JString string
  | JArray "json list" | JObject "(string \<times> json) list"

record device =
  dv_id :: string
  dv_name :: string
  dv_protocol :: string
  dv_status :: device_status
  dv_metadata :: "(string \<times> json) list option"
  dv_last_seen :: "instant option"
  dv_created :: instant
  dv_updated :: instant

section \<open>Raw messages and events\<close>

datatype raw_status = RawReceived | RawParsed | RawRejected | RawDuplicate

record raw_message =
  rm_id :: int
  rm_device :: string
  rm_text :: string
  rm_checksum_received :: string
  rm_checksum_expected :: string
  rm_received_at :: instant
  rm_dedup_key :: string
  rm_status :: raw_status
  rm_parse_error :: string
  rm_event_id :: "string option"

datatype event_status = EventCreated | EventRouted | EventDispatched | EventDeadLetter

fun event_status_text :: "event_status \<Rightarrow> string" where
  "event_status_text EventCreated = ''created''"
| "event_status_text EventRouted = ''routed''"
| "event_status_text EventDispatched = ''dispatched''"
| "event_status_text EventDeadLetter = ''dead_letter''"

record event =
  ev_id :: int
  ev_event_id :: string
  ev_device :: string
  ev_ts :: instant
  ev_metric :: string
  ev_value :: float64
  ev_unit :: string
  ev_dedup_key :: string
  ev_route_key :: string
  ev_status :: event_status
  ev_parsed_at :: instant

section \<open>Rules and their change log\<close>

text \<open>
  \<^verbatim>\<open>Metrics\<close> is an option because Go tells the nil slice from an empty one: a request body
  without the member leaves it nil, \<^verbatim>\<open>"metrics": []\<close> makes it empty and non-nil.
\<close>

record matcher =
  mt_device_pattern :: string
  mt_metrics :: "string list option"
  mt_expr :: string

definition no_matcher :: matcher where
  "no_matcher = \<lparr>mt_device_pattern = [], mt_metrics = None, mt_expr = []\<rparr>"

record route_rule =
  rr_id :: int
  rr_rule_id :: string
  rr_name :: string
  rr_matcher :: matcher
  rr_topic :: string
  rr_priority :: int
  rr_enabled :: bool
  rr_deleted_at :: "instant option"
  rr_created_at :: instant
  rr_updated_at :: instant

datatype change_action = ActionCreate | ActionUpdate | ActionDisable | ActionEnable | ActionDelete

text \<open>
  The JSON documents \<^verbatim>\<open>before_json\<close> and \<^verbatim>\<open>after_json\<close> are the marshalled rule, which is
  determined by the rule: the snapshot is kept as the rule itself.
\<close>

record change_log =
  cl_id :: int
  cl_rule_id :: string
  cl_action :: change_action
  cl_before :: "route_rule option"
  cl_after :: "route_rule option"
  cl_operator :: string
  cl_changed_at :: instant

section \<open>Deliveries\<close>

datatype delivery_status = DeliveryPending | DeliveryDispatched | DeliveryFailed | DeliveryDead

record delivery =
  dl_id :: int
  dl_event_id :: string
  dl_rule_id :: string
  dl_topic :: string
  dl_status :: delivery_status
  dl_attempts :: int
  dl_last_error :: string
  dl_next_retry_at :: "instant option"
  dl_dispatched_at :: "instant option"

section \<open>The authentication audit\<close>

datatype audit_action = AuditAuthenticated | AuditRejected

record api_key_audit =
  au_id :: int
  au_key_hash :: string
  au_action :: audit_action
  au_operator :: string
  au_remote :: string
  au_path :: string
  au_at :: instant

section \<open>Domain errors\<close>

record 'd domain_error =
  err_code :: string
  err_message :: string
  err_details :: "'d option"
  err_status :: int

definition new_error :: "int \<Rightarrow> string \<Rightarrow> string \<Rightarrow> 'd domain_error" where
  "new_error status code message =
     \<lparr>err_code = code, err_message = message, err_details = None, err_status = status\<rparr>"

text \<open>
  The predeclared errors are package variables holding pointers: every use shares the one
  object.  \<open>err_name\<close> is the variable, \<open>initial_error\<close> the object it points to at start.
\<close>

datatype err_name = ErrInvalidField | ErrChecksumMismatch | ErrDeviceNotFound | ErrDeviceConflict
  | ErrDeviceInactive | ErrDuplicateMessage | ErrRuleConflict | ErrRuleNotFound | ErrUnknownMetric
  | ErrTSOutOfRange | ErrEventNotFound | ErrDuplicate

fun initial_error :: "err_name \<Rightarrow> 'd domain_error" where
  "initial_error ErrInvalidField = new_error 422 ''INVALID_FIELD'' ''invalid field''"
| "initial_error ErrChecksumMismatch = new_error 422 ''CHECKSUM_MISMATCH'' ''checksum mismatch''"
| "initial_error ErrDeviceNotFound = new_error 404 ''DEVICE_NOT_FOUND'' ''device not found''"
| "initial_error ErrDeviceConflict = new_error 409 ''DEVICE_CONFLICT'' ''device already exists''"
| "initial_error ErrDeviceInactive = new_error 422 ''DEVICE_INACTIVE'' ''device is not active''"
| "initial_error ErrDuplicateMessage = new_error 200 ''DUPLICATE_MESSAGE'' ''duplicate message''"
| "initial_error ErrRuleConflict = new_error 409 ''RULE_CONFLICT'' ''rule conflict''"
| "initial_error ErrRuleNotFound = new_error 404 ''RULE_NOT_FOUND'' ''rule not found''"
| "initial_error ErrUnknownMetric = new_error 422 ''UNKNOWN_METRIC'' ''unknown metric''"
| "initial_error ErrTSOutOfRange = new_error 422 ''TS_OUT_OF_RANGE'' ''timestamp out of range''"
| "initial_error ErrEventNotFound = new_error 404 ''EVENT_NOT_FOUND'' ''event not found''"
| "initial_error ErrDuplicate = new_error 200 ''DUPLICATE_MESSAGE'' ''duplicate message''"

text \<open>
  The heap of the shared error objects, and \<^verbatim>\<open>e.WithDetails(d)\<close>, which writes through the
  pointer and returns the same pointer.
\<close>

type_synonym 'd error_heap = "err_name \<Rightarrow> 'd domain_error"

definition with_details :: "err_name \<Rightarrow> 'd \<Rightarrow> 'd error_heap \<Rightarrow> err_name \<times> 'd error_heap" where
  "with_details e d h = (e, h(e := (h e)\<lparr>err_details := Some d\<rparr>))"

lemma with_details_last_wins:
  "err_details (snd (with_details e d2 (snd (with_details e d1 h))) e) = Some d2"
  by (simp add: with_details_def)

end
