(* ===== verification/Database.thy ===== *)
theory Database
  imports Domain
begin

text \<open>
  The PostgreSQL schema of \<^verbatim>\<open>internal/migrate\<close> and the execution of statements: the tables as lists
  of rows, the sequences of the \<^verbatim>\<open>BIGSERIAL\<close> columns, the constraints a row must meet, the
  faults a statement may run into, and transactions.

  What the server does beyond the schema is a parameter of the state: \<open>db_stamp\<close> rounds an
  instant to the resolution of \<^verbatim>\<open>TIMESTAMPTZ\<close>, \<open>db_collate\<close> gives the sort key of a text under
  the collation of the database, and the plan \<open>db_plan\<close> says which of the coming statements fail
  for a reason outside the schema (a lost connection, a refused encoding, a cancelled context),
  before or after taking effect.
\<close>

section \<open>State\<close>

datatype db_error =
    UniqueViolation string
  | ForeignKeyViolation string
  | IntegerOutOfRange
  | NegativeOffset
  | Refused string

datatype fault = FailBefore db_error | FailAfter db_error

record database =
  db_devices :: "device list"
  db_raws :: "raw_message list"
  db_events :: "event list"
  db_rules :: "route_rule list"
  db_changes :: "change_log list"
  db_deliveries :: "delivery list"
  db_audits :: "api_key_audit list"
  db_seq_raw :: int
  db_seq_event :: int
  db_seq_rule :: int
  db_seq_change :: int
  db_seq_delivery :: int
  db_seq_audit :: int
  db_stamp :: "instant \<Rightarrow> instant"
  db_collate :: "string \<Rightarrow> nat list"
  db_plan :: "fault option list"

text \<open>The database after \<^verbatim>\<open>migrate.Apply\<close> on an empty server: every sequence starts at one.\<close>

definition empty_database :: "(instant \<Rightarrow> instant) \<Rightarrow> (string \<Rightarrow> nat list) \<Rightarrow> database" where
  "empty_database stamp collate =
     \<lparr>db_devices = [], db_raws = [], db_events = [], db_rules = [], db_changes = [],
      db_deliveries = [], db_audits = [], db_seq_raw = 1, db_seq_event = 1, db_seq_rule = 1,
      db_seq_change = 1, db_seq_delivery = 1, db_seq_audit = 1,
      db_stamp = stamp, db_collate = collate, db_plan = []\<rparr>"

section \<open>Statements\<close>

text \<open>
  A statement is a function on the database; \<open>exec\<close> runs it under the fault plan.  A statement
  that violates a constraint leaves the tables alone but has used up its sequence number.
\<close>

type_synonym 'a statement = "(database, db_error, 'a) action"

definition exec :: "'a statement \<Rightarrow> 'a statement" where
  "exec st db = (let rest = db\<lparr>db_plan := tl (db_plan db)\<rparr> in
     case db_plan db of
       Some (FailBefore e) # _ \<Rightarrow> (Inl e, rest)
     | Some (FailAfter e) # _ \<Rightarrow> (Inl e, snd (st rest))
     | _ \<Rightarrow> st rest)"

definition find_row :: "('row \<Rightarrow> 'k) \<Rightarrow> 'k \<Rightarrow> 'row list \<Rightarrow> 'row option" where
  "find_row key k rows = find (\<lambda>r. key r = k) rows"

definition update_rows :: "('row \<Rightarrow> 'k) \<Rightarrow> 'k \<Rightarrow> ('row \<Rightarrow> 'row) \<Rightarrow> 'row list \<Rightarrow> 'row list" where
  "update_rows key k f rows = map (\<lambda>r. if key r = k then f r else r) rows"

definition has_key :: "('row \<Rightarrow> 'k) \<Rightarrow> 'k \<Rightarrow> 'row list \<Rightarrow> bool" where
  "has_key key k rows \<longleftrightarrow> list_ex (\<lambda>r. key r = k) rows"

definition int4 :: "int \<Rightarrow> bool" where
  "int4 i \<longleftrightarrow> - 2147483648 \<le> i \<and> i \<le> 2147483647"

section \<open>Transactions\<close>

text \<open>A rollback restores the tables; sequences and the fault plan are not transactional.\<close>

definition roll_back :: "database \<Rightarrow> database \<Rightarrow> database" where
  "roll_back before db = db\<lparr>db_devices := db_devices before, db_raws := db_raws before,
     db_events := db_events before, db_rules := db_rules before, db_changes := db_changes before,
     db_deliveries := db_deliveries before, db_audits := db_audits before\<rparr>"

text \<open>\<^verbatim>\<open>InTx\<close>: begin, run the function, commit; every error path runs the deferred rollback.\<close>

definition begin_tx :: "unit statement" where
  "begin_tx = exec (ret ())"

definition in_tx :: "(db_error \<Rightarrow> 'e) \<Rightarrow> (database, 'e, 'a) action \<Rightarrow> (database, 'e, 'a) action" where
  "in_tx wrap body db =
     (case begin_tx db of
        (Inl e, db1) \<Rightarrow> (Inl (wrap e), db1)
      | (Inr _, db1) \<Rightarrow>
          (case body db1 of
             (Inl e, db2) \<Rightarrow> (Inl e, roll_back db1 db2)
           | (Inr x, db2) \<Rightarrow>
               (let rest = db2\<lparr>db_plan := tl (db_plan db2)\<rparr> in
                case db_plan db2 of
                  Some (FailBefore e) # _ \<Rightarrow> (Inl (wrap e), roll_back db1 rest)
                | Some (FailAfter e) # _ \<Rightarrow> (Inl (wrap e), rest)
                | _ \<Rightarrow> (Inr x, rest))))"

text \<open>Errors of the store seen by a caller that has errors of its own.\<close>

definition lift_error :: "(db_error \<Rightarrow> 'e) \<Rightarrow> 'a statement \<Rightarrow> (database, 'e, 'a) action" where
  "lift_error wrap st db = (case st db of (Inl e, db') \<Rightarrow> (Inl (wrap e), db') | (Inr x, db') \<Rightarrow> (Inr x, db'))"

section \<open>Tables with a key\<close>

text \<open>
  The contract between a table with a unique key and the queries on it: looking up a key, adding
  a row with a new key, updating the rows of a key by a function that keeps the key.
\<close>

locale keyed_table =
  fixes key :: "'row \<Rightarrow> 'k"
    and lookup :: "'k \<Rightarrow> 'row list \<Rightarrow> 'row option"
    and update :: "'k \<Rightarrow> ('row \<Rightarrow> 'row) \<Rightarrow> 'row list \<Rightarrow> 'row list"
  assumes lookup_Nil: "lookup k [] = None"
    and lookup_Cons: "lookup k (r # rs) = (if key r = k then Some r else lookup k rs)"
    and update_Nil: "update k f [] = []"
    and update_Cons: "update k f (r # rs) = (if key r = k then f r else r) # update k f rs"
begin

lemma lookup_SomeD: "lookup k rs = Some r \<Longrightarrow> r \<in> set rs \<and> key r = k"
  by (induction rs) (auto simp: lookup_Nil lookup_Cons split: if_splits)

lemma lookup_None_iff: "lookup k rs = None \<longleftrightarrow> k \<notin> key ` set rs"
  by (induction rs) (auto simp: lookup_Nil lookup_Cons)

lemma lookup_unique: "distinct (map key rs) \<Longrightarrow> r \<in> set rs \<Longrightarrow> lookup (key r) rs = Some r"
  by (induction rs) (auto simp: lookup_Cons)

lemma lookup_insert_same: "k \<notin> key ` set rs \<Longrightarrow> key r = k \<Longrightarrow> lookup k (rs @ [r]) = Some r"
  by (induction rs) (auto simp: lookup_Nil lookup_Cons)

lemma lookup_insert_other: "key r \<noteq> k \<Longrightarrow> lookup k (rs @ [r]) = lookup k rs"
  by (induction rs) (auto simp: lookup_Nil lookup_Cons)

lemma distinct_insert: "distinct (map key rs) \<Longrightarrow> key r \<notin> key ` set rs \<Longrightarrow> distinct (map key (rs @ [r]))"
  by simp

lemma set_update: "set (update k f rs) = (\<lambda>r. if key r = k then f r else r) ` set rs"
  by (induction rs) (auto simp: update_Nil update_Cons)

lemma map_update: "(\<And>r. key r = k \<Longrightarrow> g (f r) = g r) \<Longrightarrow> map g (update k f rs) = map g rs"
  by (induction rs) (auto simp: update_Nil update_Cons)

lemma lookup_update_same:
  "(\<And>r. key (f r) = key r) \<Longrightarrow> lookup k (update k f rs) = map_option f (lookup k rs)"
  by (induction rs) (auto simp: lookup_Nil lookup_Cons update_Nil update_Cons)

lemma lookup_update_other:
  "(\<And>r. key (f r) = key r) \<Longrightarrow> k' \<noteq> k \<Longrightarrow> lookup k' (update k f rs) = lookup k' rs"
  by (induction rs) (auto simp: lookup_Nil lookup_Cons update_Nil update_Cons)

lemma update_absent: "k \<notin> key ` set rs \<Longrightarrow> update k f rs = rs"
  by (induction rs) (auto simp: update_Nil update_Cons)

end

interpretation devices: keyed_table dv_id "find_row dv_id" "update_rows dv_id"
  by unfold_locales (simp_all add: find_row_def update_rows_def)

interpretation raws: keyed_table rm_dedup_key "find_row rm_dedup_key" "update_rows rm_dedup_key"
  by unfold_locales (simp_all add: find_row_def update_rows_def)

interpretation events: keyed_table ev_event_id "find_row ev_event_id" "update_rows ev_event_id"
  by unfold_locales (simp_all add: find_row_def update_rows_def)

interpretation rules: keyed_table rr_rule_id "find_row rr_rule_id" "update_rows rr_rule_id"
  by unfold_locales (simp_all add: find_row_def update_rows_def)

interpretation deliveries: keyed_table dl_id "find_row dl_id" "update_rows dl_id"
  by unfold_locales (simp_all add: find_row_def update_rows_def)

lemma has_key_iff: "has_key key k rows \<longleftrightarrow> k \<in> key ` set rows"
  by (auto simp: has_key_def list_ex_iff)

lemma find_row_None_iff: "find_row key k rows = None \<longleftrightarrow> \<not> has_key key k rows"
  by (auto simp: find_row_def find_None_iff has_key_def list_ex_iff)

lemma find_row_update:
  "(\<And>r. key (f r) = key r) \<Longrightarrow> find_row key k (update_rows key k' f rows)
    = map_option (\<lambda>r. if key r = k' then f r else r) (find_row key k rows)"
  by (induction rows) (auto simp: find_row_def update_rows_def)

section \<open>Relations kept by everything that talks to the database\<close>

text \<open>
  A relation between states that allows the fault plan to advance and survives a rollback is kept
  by a statement under faults and by a transaction as soon as the statement, or the body, keeps it.
\<close>

locale db_relation = step_preorder R for R :: "database \<Rightarrow> database \<Rightarrow> bool" +
  assumes R_plan: "R db (db\<lparr>db_plan := tl (db_plan db)\<rparr>)"
    and R_roll_back: "R before db \<Longrightarrow> R before (roll_back before db)"
begin

lemma keeps_exec:
  assumes "keeps R st"
  shows "keeps R (exec st)"
proof (rule keepsI)
  fix db r t assume run: "exec st db = (r, t)"
  let ?rest = "db\<lparr>db_plan := tl (db_plan db)\<rparr>"
  have "R db ?rest" by (rule R_plan)
  moreover have "R ?rest (snd (st ?rest))" using assms by (simp add: keeps_def)
  ultimately have "R db (snd (st ?rest))" by (rule R_trans)
  moreover have "t = ?rest \<or> t = snd (st ?rest)"
    using run by (auto simp: exec_def Let_def split: list.splits option.splits fault.splits)
  ultimately show "R db t" using \<open>R db ?rest\<close> by blast
qed

lemma keeps_lift_error:
  assumes "keeps R st"
  shows "keeps R (lift_error wrap st)"
proof (rule keepsI)
  fix s r t assume "lift_error wrap st s = (r, t)"
  then obtain r' where "st s = (r', t)"
    by (auto simp: lift_error_def split: prod.splits sum.splits)
  with assms show "R s t" by (rule keepsD)
qed

lemma keeps_in_tx:
  assumes "keeps R body"
  shows "keeps R (in_tx wrap body)"
proof (rule keepsI)
  fix db r t assume run: "in_tx wrap body db = (r, t)"
  obtain r1 db1 where b: "begin_tx db = (r1, db1)" by fastforce
  have "keeps R begin_tx" unfolding begin_tx_def by (intro keeps_exec keeps_ret)
  then have r01: "R db db1" using b by (rule keepsD)
  show "R db t"
  proof (cases r1)
    case (Inl e)
    with run b r01 show ?thesis by (simp add: in_tx_def)
  next
    case (Inr u)
    obtain r2 db2 where body: "body db1 = (r2, db2)" by fastforce
    let ?rest = "db2\<lparr>db_plan := tl (db_plan db2)\<rparr>"
    have r12: "R db1 db2" using assms body by (rule keepsD)
    then have r1r: "R db1 ?rest" using R_plan by (rule R_trans)
    have "t \<in> {roll_back db1 db2, roll_back db1 ?rest, ?rest}"
      using run b Inr body
      by (auto simp: in_tx_def Let_def split: sum.splits list.splits option.splits fault.splits)
    then have "R db1 t" using R_roll_back[OF r12] R_roll_back[OF r1r] r1r by blast
    with r01 show ?thesis by (rule R_trans)
  qed
qed

lemmas keeps_db_rules = keeps_rules keeps_exec keeps_lift_error keeps_in_tx

end

text \<open>The parameters of the server never change.\<close>

definition same_server :: "database \<Rightarrow> database \<Rightarrow> bool" where
  "same_server s t \<longleftrightarrow> db_stamp t = db_stamp s \<and> db_collate t = db_collate s"

interpretation server: db_relation same_server
  by unfold_locales (simp_all add: same_server_def roll_back_def)

section \<open>Faults and atomicity\<close>

definition same_tables :: "database \<Rightarrow> database \<Rightarrow> bool" where
  "same_tables s t \<longleftrightarrow> db_devices t = db_devices s \<and> db_raws t = db_raws s
     \<and> db_events t = db_events s \<and> db_rules t = db_rules s \<and> db_changes t = db_changes s
     \<and> db_deliveries t = db_deliveries s \<and> db_audits t = db_audits s"

interpretation tables: db_relation same_tables
  by unfold_locales (auto simp: same_tables_def roll_back_def)

text \<open>The fault plan is only ever consumed.\<close>

definition plan_shrinks :: "database \<Rightarrow> database \<Rightarrow> bool" where
  "plan_shrinks s t \<longleftrightarrow> set (db_plan t) \<subseteq> set (db_plan s)"

interpretation plan: db_relation plan_shrinks
proof
  show "plan_shrinks db (db\<lparr>db_plan := tl (db_plan db)\<rparr>)" for db
    by (cases "db_plan db") (auto simp: plan_shrinks_def)
qed (auto simp: plan_shrinks_def roll_back_def)

text \<open>No reply is lost: a statement that reports an error has not taken effect.\<close>

definition no_lost_reply :: "database \<Rightarrow> bool" where
  "no_lost_reply db \<longleftrightarrow> (\<forall>e. Some (FailAfter e) \<notin> set (db_plan db))"

lemma no_lost_reply_kept: "no_lost_reply s \<Longrightarrow> plan_shrinks s t \<Longrightarrow> no_lost_reply t"
  by (auto simp: no_lost_reply_def plan_shrinks_def)

lemma set_plan_self [simp]: "db_plan d = p \<Longrightarrow> d\<lparr>db_plan := p\<rparr> = d"
  by (cases d) simp

lemma exec_fault_free: "db_plan d = [] \<Longrightarrow> exec st d = st d"
  by (simp add: exec_def Let_def)

lemma exec_Inr:
  assumes "exec st d = (Inr x, d')"
  shows "st (d\<lparr>db_plan := tl (db_plan d)\<rparr>) = (Inr x, d')"
  using assms by (auto simp: exec_def Let_def split: list.splits option.splits fault.splits)

lemma in_tx_fault_free:
  assumes "db_plan d = []" and "db_plan (snd (body d)) = []"
  shows "in_tx wrap body d = (case body d of
     (Inl e, d') \<Rightarrow> (Inl e, roll_back d d') | (Inr x, d') \<Rightarrow> (Inr x, d'))"
  using assms by (auto simp: in_tx_def begin_tx_def exec_fault_free ret_def split: prod.split sum.split)

lemma in_tx_outcome:
  assumes "in_tx wrap body d = (r, d')"
  shows "same_tables d d'
    \<or> (\<exists>x d1 q. body (d\<lparr>db_plan := tl (db_plan d)\<rparr>) = (Inr x, d1) \<and> d' = d1\<lparr>db_plan := q\<rparr>
        \<and> (r = Inr x \<or> (\<exists>e. r = Inl (wrap e) \<and> Some (FailAfter e) \<in> set (db_plan d1))))"
proof -
  obtain r1 d1 where b: "begin_tx d = (r1, d1)" by fastforce
  then have d1: "d1 = d\<lparr>db_plan := tl (db_plan d)\<rparr>"
    by (auto simp: begin_tx_def exec_def ret_def Let_def split: list.splits option.splits fault.splits)
  then have t1: "same_tables d d1" by (simp add: same_tables_def)
  show ?thesis
  proof (cases r1)
    case (Inl e)
    with assms b t1 show ?thesis by (simp add: in_tx_def)
  next
    case (Inr u)
    obtain r2 d2 where body: "body d1 = (r2, d2)" by fastforce
    have undone: "same_tables d (roll_back d1 x)" for x
      using t1 by (simp add: same_tables_def roll_back_def)
    show ?thesis
    proof (cases r2)
      case (Inl e)
      with assms b Inr body undone show ?thesis by (auto simp: in_tx_def)
    next
      case (Inr x)
      have commit: "(case db_plan d2 of
          Some (FailBefore e) # _ \<Rightarrow> (Inl (wrap e), roll_back d1 (d2\<lparr>db_plan := tl (db_plan d2)\<rparr>))
        | Some (FailAfter e) # _ \<Rightarrow> (Inl (wrap e), d2\<lparr>db_plan := tl (db_plan d2)\<rparr>)
        | _ \<Rightarrow> (Inr x, d2\<lparr>db_plan := tl (db_plan d2)\<rparr>)) = (r, d')"
        using assms b \<open>r1 = Inr u\<close> body Inr by (simp add: in_tx_def Let_def)
      then consider "\<exists>y. d' = roll_back d1 y"
        | "d' = d2\<lparr>db_plan := tl (db_plan d2)\<rparr>"
          and "r = Inr x \<or> (\<exists>e. r = Inl (wrap e) \<and> Some (FailAfter e) \<in> set (db_plan d2))"
        by (auto split: list.splits option.splits fault.splits)
      then show ?thesis
      proof cases
        case 1
        with undone show ?thesis by blast
      next
        case 2
        then show ?thesis using body Inr d1 by blast
      qed
    qed
  qed
qed

end
