(* ===== verification/GoPath.thy ===== *)
theory GoPath
  imports GoText
begin

text \<open>
  \<^verbatim>\<open>path.Match(pattern, name)\<close>, statement by statement: the pattern is cut at the stars into
  chunks, the first place at which a chunk matches is taken, and a match that has failed goes on
  reading the pattern so that a malformed one is still reported.  \<^term>\<open>None\<close> is
  \<^verbatim>\<open>ErrBadPattern\<close>.
\<close>

section \<open>Chunks\<close>

definition get_esc :: "string \<Rightarrow> (nat \<times> string) option" where
  "get_esc chunk = (case chunk of
     [] \<Rightarrow> None
   | c # cs \<Rightarrow>
       if c = CHR ''-'' \<or> c = CHR '']'' then None
       else (let body = (if c = CHR 0x5C then cs else chunk) in
         if body = [] then None
         else (let (r, n) = decode_rune body in
           if (r = rune_error \<and> n = 1) \<or> drop n body = [] then None
           else Some (r, drop n body))))"

lemma get_esc_length: "get_esc chunk = Some (r, rest) \<Longrightarrow> length rest < length chunk"
proof -
  assume g: "get_esc chunk = Some (r, rest)"
  then obtain c cs where c: "chunk = c # cs" by (cases chunk) (auto simp: get_esc_def)
  define body where "body = (if c = CHR 0x5C then cs else chunk)"
  have ne: "body \<noteq> []" and r: "rest = drop (snd (decode_rune body)) body"
    using g by (auto simp: get_esc_def c body_def Let_def split: if_splits prod.splits)
  have "length rest < length body"
    using decode_rune_width(1)[OF ne] ne by (simp add: r)
  moreover have "length body \<le> length chunk" by (simp add: body_def c)
  ultimately show ?thesis by simp
qed

text \<open>
  The ranges of a character class after \<^verbatim>\<open>[\<close> and an optional caret: whether the rune is in one
  of them, and the pattern after the closing bracket.
\<close>

function class_ranges :: "nat \<Rightarrow> bool \<Rightarrow> nat \<Rightarrow> string \<Rightarrow> (bool \<times> string) option" where
  "class_ranges r m nrange chunk =
     (if chunk \<noteq> [] \<and> hd chunk = CHR '']'' \<and> 0 < nrange then Some (m, tl chunk)
      else (case get_esc chunk of
         None \<Rightarrow> None
       | Some (lo, c1) \<Rightarrow>
           (if hd c1 = CHR ''-'' then
              (case get_esc (tl c1) of
                 None \<Rightarrow> None
               | Some (hi, c2) \<Rightarrow> class_ranges r (m \<or> (lo \<le> r \<and> r \<le> hi)) (Suc nrange) c2)
            else class_ranges r (m \<or> lo = r) (Suc nrange) c1)))"
  by pat_completeness auto
termination
proof (relation "measure (\<lambda>(r, m, n, chunk). length chunk)", goal_cases)
  case (2 r m nrange chunk p lo c1 q hi c2)
  then have "length c1 < length chunk" "length c2 < length (tl c1)"
    by (auto dest: get_esc_length)
  then show ?case by (simp add: less_diff_conv)
next
  case (3 r m nrange chunk p lo c1)
  then have "length c1 < length chunk" by (auto dest: get_esc_length)
  then show ?case by simp
qed simp

declare class_ranges.simps [simp del]

lemma class_ranges_length:
  "class_ranges r m n chunk = Some (b, rest) \<Longrightarrow> length rest < length chunk"
proof (induction r m n chunk rule: class_ranges.induct)
  case (1 r m n chunk)
  show ?case
  proof (cases "chunk \<noteq> [] \<and> hd chunk = CHR '']'' \<and> 0 < n")
    case True
    with "1.prems" show ?thesis by (subst (asm) class_ranges.simps) auto
  next
    case stop: False
    with "1.prems" obtain lo c1 where lo: "get_esc chunk = Some (lo, c1)"
      by (subst (asm) class_ranges.simps) (auto split: option.splits)
    note l1 = get_esc_length[OF lo]
    show ?thesis
    proof (cases "hd c1 = CHR ''-''")
      case True
      with "1.prems" stop lo obtain hi c2 where hi: "get_esc (tl c1) = Some (hi, c2)"
        and rec: "class_ranges r (m \<or> (lo \<le> r \<and> r \<le> hi)) (Suc n) c2 = Some (b, rest)"
        by (subst (asm) class_ranges.simps) (auto split: option.splits)
      have "length rest < length c2" by (rule "1.IH"(1)[OF stop lo refl True hi refl rec])
      with get_esc_length[OF hi] l1 show ?thesis by simp
    next
      case False
      with "1.prems" stop lo have rec: "class_ranges r (m \<or> lo = r) (Suc n) c1 = Some (b, rest)"
        by (subst (asm) class_ranges.simps) auto
      have "length rest < length c1" by (rule "1.IH"(2)[OF stop lo refl False rec])
      with l1 show ?thesis by simp
    qed
  qed
qed

definition class_head :: "string \<Rightarrow> bool \<times> string" where
  "class_head chunk = (case chunk of
     c # cs \<Rightarrow> if c = CHR ''^'' then (True, cs) else (False, chunk) | [] \<Rightarrow> (False, chunk))"

lemma class_head_length: "class_head chunk = (neg, rest) \<Longrightarrow> length rest \<le> length chunk"
  by (cases chunk) (auto simp: class_head_def split: if_splits)

text \<open>
  \<^verbatim>\<open>matchChunk\<close>: \<^term>\<open>None\<close> is a bad pattern, \<^term>\<open>Some None\<close> no match,
  \<^term>\<open>Some (Some t)\<close> a match that leaves \<open>t\<close>.
\<close>

function match_chunk :: "bool \<Rightarrow> string \<Rightarrow> string \<Rightarrow> string option option" where
  "match_chunk failed chunk s =
     (if chunk = [] then Some (if failed then None else Some s)
      else let failed = failed \<or> s = []; c = hd chunk; cs = tl chunk in
        if c = CHR ''['' then
          (let (r, n) = (if failed then (0, 0) else decode_rune s); (neg, c2) = class_head cs in
           case class_ranges r False 0 c2 of
             None \<Rightarrow> None
           | Some (m, c3) \<Rightarrow> match_chunk (failed \<or> m = neg) c3 (drop n s))
        else if c = CHR ''?'' then
          (if failed then match_chunk True cs s
           else match_chunk (hd s = CHR ''/'') cs (drop (snd (decode_rune s)) s))
        else if c = CHR 0x5C \<and> cs = [] then None
        else (let (l, c1) = (if c = CHR 0x5C then (hd cs, tl cs) else (c, cs)) in
          if failed then match_chunk True c1 s else match_chunk (l \<noteq> hd s) c1 (tl s)))"
  by pat_completeness auto
termination
proof (relation "measure (\<lambda>(f, chunk, s). length chunk)", goal_cases)
  case (2 failed chunk s f c cs p r n q neg c2 x m c3)
  then have "length c3 < length c2" by (metis class_ranges_length)
  moreover have "length c2 \<le> length cs" using 2 by (metis class_head_length)
  moreover have "length cs < length chunk" using 2 by simp
  ultimately show ?case by simp
qed (auto split: if_splits)

declare match_chunk.simps [simp del]

section \<open>The whole pattern\<close>

fun drop_stars :: "string \<Rightarrow> bool \<times> string" where
  "drop_stars [] = (False, [])"
| "drop_stars (c # cs) = (if c = CHR ''*'' then (True, snd (drop_stars cs)) else (False, c # cs))"

fun scan_body :: "bool \<Rightarrow> string \<Rightarrow> string \<times> string" where
  "scan_body inrange [] = ([], [])"
| "scan_body inrange [c] =
     (if c = CHR ''*'' \<and> \<not> inrange then ([], [c]) else ([c], []))"
| "scan_body inrange (c # d # cs) =
     (if c = CHR 0x5C then (let (a, b) = scan_body inrange cs in (c # d # a, b))
      else if c = CHR ''*'' \<and> \<not> inrange then ([], c # d # cs)
      else (let (a, b) = scan_body (c = CHR ''['' \<or> (inrange \<and> c \<noteq> CHR '']'')) (d # cs)
            in (c # a, b)))"

definition scan_chunk :: "string \<Rightarrow> bool \<times> string \<times> string" where
  "scan_chunk pattern = (let (star, p) = drop_stars pattern; (chunk, rest) = scan_body False p
     in (star, chunk, rest))"

lemma drop_stars_length: "drop_stars p = (star, q) \<Longrightarrow> length q \<le> length p \<and> (star \<longrightarrow> length q < length p)"
proof (induction p arbitrary: star q)
  case (Cons c p)
  then show ?case by (cases "drop_stars p") (auto split: if_splits)
qed simp

lemma scan_body_append: "scan_body inrange p = (a, b) \<Longrightarrow> p = a @ b"
  by (induction inrange p arbitrary: a b rule: scan_body.induct)
     (auto simp: Let_def split: if_splits prod.splits)

lemma scan_chunk_length:
  assumes "scan_chunk p = (star, chunk, rest)" and "p \<noteq> []"
  shows "length rest < length p"
proof -
  obtain q where d: "drop_stars p = (star, q)" and b: "scan_body False q = (chunk, rest)"
    using assms(1) by (auto simp: scan_chunk_def Let_def split: prod.splits)
  have q: "q = chunk @ rest" by (rule scan_body_append[OF b])
  show ?thesis
  proof (cases star)
    case True
    with drop_stars_length[OF d] q show ?thesis by simp
  next
    case False
    then have p: "p = q" and c: "hd p \<noteq> CHR ''*''"
      using d assms(2) by (cases p; auto split: if_splits)+
    then have "chunk \<noteq> []" using b assms(2)
      by (cases "(False, q)" rule: scan_body.cases) (auto simp: Let_def split: if_splits prod.splits)
    with p q show ?thesis by simp
  qed
qed

text \<open>Looking for the chunk at the later positions, never past a slash.\<close>

fun star_search :: "string \<Rightarrow> bool \<Rightarrow> string \<Rightarrow> string option option" where
  "star_search chunk at_end [] = Some None"
| "star_search chunk at_end (c # cs) =
     (if c = CHR ''/'' then Some None
      else (case match_chunk False chunk cs of
         None \<Rightarrow> None
       | Some None \<Rightarrow> star_search chunk at_end cs
       | Some (Some t) \<Rightarrow> if at_end \<and> t \<noteq> [] then star_search chunk at_end cs else Some (Some t)))"

function tail_check :: "string \<Rightarrow> bool option" where
  "tail_check p = (if p = [] then Some False
     else let (star, chunk, rest) = scan_chunk p in
       (case match_chunk False chunk [] of None \<Rightarrow> None | Some _ \<Rightarrow> tail_check rest))"
  by pat_completeness auto
termination by (relation "measure length") (auto dest!: sym[of _ "scan_chunk _"] intro: scan_chunk_length)

declare tail_check.simps [simp del]

function path_match :: "string \<Rightarrow> string \<Rightarrow> bool option" where
  "path_match pattern name =
     (if pattern = [] then Some (name = [])
      else let (star, chunk, rest) = scan_chunk pattern in
        if star \<and> chunk = [] then Some (CHR ''/'' \<notin> set name)
        else (case match_chunk False chunk name of
           None \<Rightarrow> None
         | Some first \<Rightarrow>
             (case (case first of Some t \<Rightarrow> if t = [] \<or> rest \<noteq> [] then Some t else None
                    | None \<Rightarrow> None) of
                Some t \<Rightarrow> path_match rest t
              | None \<Rightarrow>
                  if star then
                    (case star_search chunk (rest = []) name of
                       None \<Rightarrow> None
                     | Some (Some t) \<Rightarrow> path_match rest t
                     | Some None \<Rightarrow> tail_check rest)
                  else tail_check rest)))"
  by pat_completeness auto
termination
  by (relation "measure (\<lambda>(p, n). length p)")
     (auto dest!: sym[of _ "scan_chunk _"] intro: scan_chunk_length)

declare path_match.simps [simp del]

end
