(* ===== verification/Expr.thy ===== *)
theory Expr
  imports GoText GoStrconv GoPath Domain
begin

text \<open>
  \<^verbatim>\<open>internal/router/expr.go\<close>: the recursive-descent parser of matcher expressions, which
  evaluates while it parses.  The parser state \<^verbatim>\<open>(s, pos)\<close> is the remaining input
  \<^verbatim>\<open>s[pos:]\<close>: no function of the source looks behind the position.  The mutually recursive
  functions carry fuel; \<open>parse_total\<close> shows that four units per byte and three more
  are enough, so the fuel of \<open>match_expr\<close> never runs out.
\<close>

section \<open>Comparisons\<close>

datatype expr_error =
    UnexpectedEnd
  | MissingParenthesis
  | ExpectedField
  | ExpectedOperator
  | UnterminatedString
  | ExpectedLiteral
  | NeedsNumber
  | UnknownField string

definition string_compare :: "string \<Rightarrow> string \<Rightarrow> string \<Rightarrow> bool" where
  "string_compare op got want =
     (if op = ''=='' then got = want
      else if op = ''!='' then got \<noteq> want
      else if op = ''~'' then (case path_match want got of None \<Rightarrow> False | Some ok \<Rightarrow> ok)
      else False)"

text \<open>The constant \<^verbatim>\<open>1e-9\<close> as a binary64 value.\<close>

definition epsilon :: float64 where
  "epsilon = of_ratio False 1 (10 ^ 9)"

definition value_compare :: "string \<Rightarrow> float64 \<Rightarrow> float64 \<Rightarrow> bool" where
  "value_compare op got want =
     (if op = ''=='' then feq got want
      else if op = ''!='' then \<not> feq got want
      else if op = ''~'' then
        (let diff = fsub got want; diff = (if flt diff (FFin False 0) then fneg diff else diff) in
         flt diff epsilon)
      else if op = ''>'' then flt want got
      else if op = ''>='' then fle want got
      else if op = ''<'' then flt got want
      else if op = ''<='' then fle got want
      else False)"

definition compare_expr :: "string \<Rightarrow> string \<Rightarrow> string \<Rightarrow> event \<Rightarrow> expr_error + bool" where
  "compare_expr field op lit ev =
     (if field = ''metric'' then Inr (string_compare op (ev_metric ev) lit)
      else if field = ''device'' then Inr (string_compare op (ev_device ev) lit)
      else if field = ''unit'' then Inr (string_compare op (ev_unit ev) lit)
      else if field = ''value'' then
        (case parse_float lit of None \<Rightarrow> Inl NeedsNumber
         | Some v \<Rightarrow> Inr (value_compare op (ev_value ev) v))
      else Inl (UnknownField field))"

section \<open>Tokens\<close>

definition skip_space :: "string \<Rightarrow> string" where
  "skip_space s = dropWhile is_space_byte s"

definition is_word_char :: "char \<Rightarrow> bool" where
  "is_word_char c \<longleftrightarrow> is_letter_byte c \<or> is_digit c \<or> c = CHR ''_''"

text \<open>\<^verbatim>\<open>peekKeyword\<close> on an input without leading white space.\<close>

definition peek_keyword :: "string \<Rightarrow> string \<Rightarrow> bool" where
  "peek_keyword kw s \<longleftrightarrow> length kw \<le> length s \<and> equal_fold (take (length kw) s) kw
     \<and> (case drop (length kw) s of [] \<Rightarrow> True | c # _ \<Rightarrow> \<not> is_word_char c)"

definition consume_keyword :: "string \<Rightarrow> string \<Rightarrow> bool \<times> string" where
  "consume_keyword kw s0 = (let s = skip_space s0 in
     if peek_keyword kw s then (True, skip_space (drop (length kw) s)) else (False, s))"

definition parse_ident :: "string \<Rightarrow> expr_error + (string \<times> string)" where
  "parse_ident s0 = (let s = skip_space s0; word = takeWhile is_word_char s in
     if word = [] then Inl ExpectedField else Inr (word, dropWhile is_word_char s))"

definition two_byte_ops :: "string list" where
  "two_byte_ops = [''=='', ''!='', ''>='', ''<='']"

definition parse_op :: "string \<Rightarrow> expr_error + (string \<times> string)" where
  "parse_op s =
     (if 2 \<le> length s \<and> take 2 s \<in> set two_byte_ops then Inr (take 2 s, drop 2 s)
      else (case s of [] \<Rightarrow> Inl ExpectedOperator
      | c # t \<Rightarrow>
          if c = CHR ''~'' then Inr (''~'', t)
          else if c = CHR ''='' then Inr (''=='', t)
          else if c = CHR ''!'' then Inr (''!='', t)
          else if c = CHR ''>'' then Inr (''>'', t)
          else if c = CHR ''<'' then Inr (''<'', t)
          else Inl ExpectedOperator))"

definition quote_char :: "char \<Rightarrow> bool" where
  "quote_char c \<longleftrightarrow> byte_val c = 34 \<or> byte_val c = 39"

definition parse_bare :: "string \<Rightarrow> expr_error + (string \<times> string)" where
  "parse_bare s = (let bare = (\<lambda>c. \<not> is_space_byte c \<and> c \<noteq> CHR '')''); lit = takeWhile bare s in
     if lit = [] then Inl ExpectedLiteral else Inr (lit, dropWhile bare s))"

definition parse_literal :: "string \<Rightarrow> expr_error + (string \<times> string)" where
  "parse_literal s0 = (let s = skip_space s0 in
     case s of
       [] \<Rightarrow> Inl ExpectedLiteral
     | q # t \<Rightarrow>
         if quote_char q then
           (case dropWhile (\<lambda>c. c \<noteq> q) t of
              [] \<Rightarrow> Inl UnterminatedString
            | _ # rest \<Rightarrow> Inr (takeWhile (\<lambda>c. c \<noteq> q) t, rest))
         else parse_bare s)"

definition parse_cmp :: "event \<Rightarrow> string \<Rightarrow> expr_error + (bool \<times> string)" where
  "parse_cmp ev s0 =
     (case parse_ident s0 of Inl e \<Rightarrow> Inl e | Inr (field, s1) \<Rightarrow>
     (case parse_op (skip_space s1) of Inl e \<Rightarrow> Inl e | Inr (op, s2) \<Rightarrow>
     (case parse_literal (skip_space s2) of Inl e \<Rightarrow> Inl e | Inr (lit, s3) \<Rightarrow>
     (case compare_expr field op lit ev of Inl e \<Rightarrow> Inl e | Inr b \<Rightarrow> Inr (b, s3)))))"

section \<open>The recursive descent\<close>

type_synonym parsed = "(expr_error + (bool \<times> string)) option"

text \<open>The shape of \<^verbatim>\<open>v, err := ...; if err != nil { return false, err }\<close>.\<close>

definition and_then :: "parsed \<Rightarrow> (bool \<Rightarrow> string \<Rightarrow> parsed) \<Rightarrow> parsed" where
  "and_then m f = (case m of
     None \<Rightarrow> None
   | Some (Inl e) \<Rightarrow> Some (Inl e)
   | Some (Inr (b, s)) \<Rightarrow> f b s)"

definition close_paren :: "bool \<Rightarrow> string \<Rightarrow> parsed" where
  "close_paren v s = (case skip_space s of
     [] \<Rightarrow> Some (Inl MissingParenthesis)
   | d # rest \<Rightarrow> if d = CHR '')'' then Some (Inr (v, rest)) else Some (Inl MissingParenthesis))"

function (sequential) parse_or :: "nat \<Rightarrow> event \<Rightarrow> string \<Rightarrow> parsed"
  and or_loop :: "nat \<Rightarrow> event \<Rightarrow> bool \<Rightarrow> string \<Rightarrow> parsed"
  and parse_and :: "nat \<Rightarrow> event \<Rightarrow> string \<Rightarrow> parsed"
  and and_loop :: "nat \<Rightarrow> event \<Rightarrow> bool \<Rightarrow> string \<Rightarrow> parsed"
  and parse_atom :: "nat \<Rightarrow> event \<Rightarrow> string \<Rightarrow> parsed" where
  "parse_or 0 ev s = None"
| "parse_or (Suc n) ev s = and_then (parse_and n ev s) (\<lambda>left s'. or_loop n ev left s')"
| "or_loop 0 ev left s = None"
| "or_loop (Suc n) ev left s = (let (found, s') = consume_keyword ''or'' s in
     if found then and_then (parse_and n ev s') (\<lambda>right s''. or_loop n ev (left \<or> right) s'')
     else Some (Inr (left, s')))"
| "parse_and 0 ev s = None"
| "parse_and (Suc n) ev s = and_then (parse_atom n ev s) (\<lambda>left s'. and_loop n ev left s')"
| "and_loop 0 ev left s = None"
| "and_loop (Suc n) ev left s = (let (found, s') = consume_keyword ''and'' s in
     if found then and_then (parse_atom n ev s') (\<lambda>right s''. and_loop n ev (left \<and> right) s'')
     else Some (Inr (left, s')))"
| "parse_atom 0 ev s0 = None"
| "parse_atom (Suc n) ev s0 = (let s = skip_space s0 in
     if s = [] then Some (Inl UnexpectedEnd)
     else if hd s = CHR ''('' then and_then (parse_or n ev (tl s)) close_paren
     else Some (parse_cmp ev s))"
  by pat_completeness auto

termination
  by (relation "measure (\<lambda>x. case x of
        Inl (Inl (n, _)) \<Rightarrow> n
      | Inl (Inr (n, _)) \<Rightarrow> n
      | Inr (Inl (n, _)) \<Rightarrow> n
      | Inr (Inr (Inl (n, _))) \<Rightarrow> n
      | Inr (Inr (Inr (n, _))) \<Rightarrow> n)") simp_all

definition expr_fuel :: "string \<Rightarrow> nat" where
  "expr_fuel s = 4 * length s + 3"

definition match_expr :: "string \<Rightarrow> event \<Rightarrow> bool" where
  "match_expr expr0 ev = (let expr = trim_space expr0 in
     if expr = [] then True
     else (case parse_or (expr_fuel expr) ev expr of
        Some (Inr (ok, rest)) \<Rightarrow> if skip_space rest = [] then ok else False
      | _ \<Rightarrow> False))"

section \<open>The fuel is enough\<close>

lemma length_skip_space: "length (skip_space s) \<le> length s"
  by (simp add: skip_space_def length_dropWhile_le)

lemma consume_keyword_length:
  assumes "consume_keyword kw s = (found, s')"
  shows "length s' \<le> length s" and "found \<Longrightarrow> length s' + length kw \<le> length s"
proof -
  let ?t = "skip_space s"
  have d: "length (skip_space (drop (length kw) ?t)) + length kw \<le> length ?t"
    if "length kw \<le> length ?t"
    using length_skip_space[of "drop (length kw) ?t"] that by simp
  show "length s' \<le> length s"
    using assms length_skip_space[of s] length_skip_space[of "drop (length kw) ?t"]
    by (auto simp: consume_keyword_def Let_def split: if_splits)
  show "length s' + length kw \<le> length s" if found
    using assms that d length_skip_space[of s]
    by (auto simp: consume_keyword_def Let_def peek_keyword_def split: if_splits)
qed

lemma length_parse_ident: "parse_ident s = Inr (w, r) \<Longrightarrow> length r < length s"
proof -
  assume "parse_ident s = Inr (w, r)"
  then have w: "takeWhile is_word_char (skip_space s) \<noteq> []"
    and r: "r = dropWhile is_word_char (skip_space s)"
    by (auto simp: parse_ident_def Let_def split: if_splits)
  have "length (takeWhile is_word_char (skip_space s)) + length r = length (skip_space s)"
    unfolding r by (metis length_append takeWhile_dropWhile_id)
  with w length_skip_space[of s] show "length r < length s" by (simp flip: length_greater_0_conv)
qed

lemma length_parse_op: "parse_op s = Inr (w, r) \<Longrightarrow> length r \<le> length s"
  by (auto simp: parse_op_def split: if_splits list.splits)

lemma length_parse_literal: "parse_literal s = Inr (w, r) \<Longrightarrow> length r \<le> length s"
proof -
  assume p: "parse_literal s = Inr (w, r)"
  have "length r \<le> length (skip_space s)"
  proof (cases "skip_space s")
    case (Cons q t)
    show ?thesis
    proof (cases "quote_char q")
      case True
      then obtain c where "dropWhile (\<lambda>c. c \<noteq> q) t = c # r"
        using p Cons by (auto simp: parse_literal_def split: list.splits)
      then have "length r < length t"
        using length_dropWhile_le[of "\<lambda>c. c \<noteq> q" t] by simp
      with Cons show ?thesis by simp
    next
      case False
      with p Cons have "r = dropWhile (\<lambda>c. \<not> is_space_byte c \<and> c \<noteq> CHR '')'') (q # t)"
        by (simp add: parse_literal_def parse_bare_def Let_def split: if_splits del: dropWhile.simps)
      then show ?thesis unfolding Cons by (simp only: length_dropWhile_le)
    qed
  qed (use p in \<open>simp add: parse_literal_def\<close>)
  with length_skip_space[of s] show "length r \<le> length s" by linarith
qed

lemma length_parse_cmp: "parse_cmp ev s = Inr (b, r) \<Longrightarrow> length r < length s"
proof -
  assume "parse_cmp ev s = Inr (b, r)"
  then obtain f s1 op s2 lit where "parse_ident s = Inr (f, s1)" "parse_op (skip_space s1) = Inr (op, s2)"
    "parse_literal (skip_space s2) = Inr (lit, r)"
    by (auto simp: parse_cmp_def split: sum.splits prod.splits)
  then have "length s1 < length s" "length s2 \<le> length (skip_space s1)" "length r \<le> length (skip_space s2)"
    by (simp_all add: length_parse_ident length_parse_op length_parse_literal)
  with length_skip_space[of s1] length_skip_space[of s2] show "length r < length s" by linarith
qed

lemma and_then_Inr:
  "and_then m f = Some (Inr (b, r)) \<longleftrightarrow> (\<exists>c s. m = Some (Inr (c, s)) \<and> f c s = Some (Inr (b, r)))"
  by (auto simp: and_then_def split: option.splits sum.splits)

lemma and_then_None: "and_then m f = None \<longleftrightarrow> m = None \<or> (\<exists>c s. m = Some (Inr (c, s)) \<and> f c s = None)"
  by (auto simp: and_then_def split: option.splits sum.splits)

lemma close_paren_length: "close_paren v s = Some (Inr (b, r)) \<Longrightarrow> length r \<le> length s"
  using length_skip_space[of s]
  by (auto simp: close_paren_def split: list.splits if_splits)

lemma close_paren_not_None: "close_paren v s = None \<longleftrightarrow> False"
  by (auto simp: close_paren_def split: list.splits)

lemma parse_consumes:
  shows "parse_or n ev s = Some (Inr (b, r)) \<Longrightarrow> length r < length s"
    and "or_loop n ev l s = Some (Inr (b, r)) \<Longrightarrow> length r \<le> length s"
    and "parse_and n ev s = Some (Inr (b, r)) \<Longrightarrow> length r < length s"
    and "and_loop n ev l s = Some (Inr (b, r)) \<Longrightarrow> length r \<le> length s"
    and "parse_atom n ev s = Some (Inr (b, r)) \<Longrightarrow> length r < length s"
proof (induction n arbitrary: s l b r)
  case (Suc n)
  {
    case 1
    then show ?case using Suc(3,2) by (fastforce simp: and_then_Inr intro: le_less_trans)
  next
    case 2
    obtain found s' where c: "consume_keyword ''or'' s = (found, s')" by fastforce
    from 2 c consume_keyword_length(1)[OF c] show ?case
      by (auto simp: and_then_Inr dest!: Suc(2,3) split: if_splits)
  next
    case 3
    then show ?case using Suc(5,4) by (fastforce simp: and_then_Inr intro: le_less_trans)
  next
    case 4
    obtain found s' where c: "consume_keyword ''and'' s = (found, s')" by fastforce
    from 4 c consume_keyword_length(1)[OF c] show ?case
      by (auto simp: and_then_Inr dest!: Suc(4,5) split: if_splits)
  next
    case 5
    have tl: "length (tl (skip_space s)) \<le> length s" using length_skip_space[of s] by simp
    from 5 show ?case
      using tl length_skip_space[of s]
      by (auto simp: Let_def and_then_Inr dest!: Suc(1) close_paren_length length_parse_cmp
          split: if_splits)
  }
qed simp_all

lemma parse_total:
  shows "4 * length s + 3 \<le> n \<Longrightarrow> parse_or n ev s \<noteq> None"
    and "4 * length s + 3 \<le> n \<Longrightarrow> or_loop n ev l s \<noteq> None"
    and "4 * length s + 2 \<le> n \<Longrightarrow> parse_and n ev s \<noteq> None"
    and "4 * length s + 2 \<le> n \<Longrightarrow> and_loop n ev l s \<noteq> None"
    and "4 * length s + 1 \<le> n \<Longrightarrow> parse_atom n ev s \<noteq> None"
proof (induction n arbitrary: s l)
  case (Suc n)
  {
    case 1
    then have "parse_and n ev s \<noteq> None" by (intro Suc(3)) simp
    moreover have "or_loop n ev l' r \<noteq> None" if "parse_and n ev s = Some (Inr (b, r))" for l' b r
      using 1 parse_consumes(3)[OF that] by (intro Suc(2)) simp
    ultimately show ?case by (simp add: and_then_None)
  next
    case 2
    obtain found s' where c: "consume_keyword ''or'' s = (found, s')" by fastforce
    show ?case
    proof (cases found)
      case True
      then have s': "4 * length s' + 4 \<le> n" using consume_keyword_length(2)[OF c] 2 by simp
      then have "parse_and n ev s' \<noteq> None" using Suc(3)[of s'] by simp
      moreover have "or_loop n ev l' r \<noteq> None" if "parse_and n ev s' = Some (Inr (b, r))" for l' b r
        using s' parse_consumes(3)[OF that] by (intro Suc(2)) simp
      ultimately show ?thesis using c True by (simp add: and_then_None)
    qed (use c in simp)
  next
    case 3
    then have "parse_atom n ev s \<noteq> None" by (intro Suc(5)) simp
    moreover have "and_loop n ev l' r \<noteq> None" if "parse_atom n ev s = Some (Inr (b, r))" for l' b r
      using 3 parse_consumes(5)[OF that] by (intro Suc(4)) simp
    ultimately show ?case by (simp add: and_then_None)
  next
    case 4
    obtain found s' where c: "consume_keyword ''and'' s = (found, s')" by fastforce
    show ?case
    proof (cases found)
      case True
      then have s': "4 * length s' + 4 \<le> n" using consume_keyword_length(2)[OF c] 4 by simp
      then have "parse_atom n ev s' \<noteq> None" using Suc(5)[of s'] by simp
      moreover have "and_loop n ev l' r \<noteq> None" if "parse_atom n ev s' = Some (Inr (b, r))" for l' b r
        using s' parse_consumes(5)[OF that] by (intro Suc(4)) simp
      ultimately show ?thesis using c True by (simp add: and_then_None)
    qed (use c in simp)
  next
    case 5
    have "skip_space s \<noteq> [] \<Longrightarrow> 4 * length (tl (skip_space s)) + 3 \<le> n"
      using length_skip_space[of s] 5 by (cases "skip_space s") auto
    then show ?case using Suc(1)[of "tl (skip_space s)"]
      by (simp add: Let_def and_then_None close_paren_not_None del: not_None_eq)
  }
qed simp_all

lemma and_then_more:
  assumes "and_then m f = Some r" and "\<And>x. m = Some x \<Longrightarrow> m' = Some x"
    and "\<And>b s x. f b s = Some x \<Longrightarrow> f' b s = Some x"
  shows "and_then m' f' = Some r"
  using assms by (auto simp: and_then_def split: option.splits sum.splits)

lemma parse_more_fuel:
  shows "parse_or n ev s = Some x \<Longrightarrow> n \<le> m \<Longrightarrow> parse_or m ev s = Some x"
    and "or_loop n ev l s = Some x \<Longrightarrow> n \<le> m \<Longrightarrow> or_loop m ev l s = Some x"
    and "parse_and n ev s = Some x \<Longrightarrow> n \<le> m \<Longrightarrow> parse_and m ev s = Some x"
    and "and_loop n ev l s = Some x \<Longrightarrow> n \<le> m \<Longrightarrow> and_loop m ev l s = Some x"
    and "parse_atom n ev s = Some x \<Longrightarrow> n \<le> m \<Longrightarrow> parse_atom m ev s = Some x"
proof (induction n arbitrary: s l x m)
  case (Suc n)
  {
    case 1
    then obtain k where "m = Suc k" "n \<le> k" by (cases m) auto
    with 1 show ?case by (auto elim!: and_then_more intro: Suc)
  next
    case 2
    then obtain k where "m = Suc k" "n \<le> k" by (cases m) auto
    with 2 show ?case by (auto simp: Let_def split: prod.splits if_splits elim!: and_then_more intro: Suc)
  next
    case 3
    then obtain k where "m = Suc k" "n \<le> k" by (cases m) auto
    with 3 show ?case by (auto elim!: and_then_more intro: Suc)
  next
    case 4
    then obtain k where "m = Suc k" "n \<le> k" by (cases m) auto
    with 4 show ?case by (auto simp: Let_def split: prod.splits if_splits elim!: and_then_more intro: Suc)
  next
    case 5
    then obtain k where "m = Suc k" "n \<le> k" by (cases m) auto
    with 5 show ?case by (auto simp: Let_def split: if_splits elim!: and_then_more intro: Suc)
  }
qed simp_all

lemma parse_or_fuel:
  assumes "parse_or n ev s = Some x"
  shows "parse_or (expr_fuel s) ev s = Some x"
proof (cases "n \<le> expr_fuel s")
  case True
  with assms show ?thesis by (rule parse_more_fuel(1))
next
  case False
  obtain y where y: "parse_or (expr_fuel s) ev s = Some y"
    using parse_total(1)[of s "expr_fuel s" ev] by (auto simp: expr_fuel_def)
  with False have "parse_or n ev s = Some y" by (intro parse_more_fuel(1)[OF y]) simp
  with assms y show ?thesis by simp
qed

section \<open>Expressions as trees\<close>

text \<open>
  The grammar of the source as a datatype: a disjunction of conjunctions of atoms, an atom
  being a comparison or a parenthesised disjunction.  \<open>eval_or\<close> is what an expression means:
  both connectives evaluate all their parts from left to right and the first faulty
  comparison makes the whole expression faulty.
\<close>

datatype atom = Compare string string string | Paren "atom list list"

fun combine :: "(bool \<Rightarrow> bool \<Rightarrow> bool) \<Rightarrow> bool \<Rightarrow> (expr_error + bool) list \<Rightarrow> expr_error + bool" where
  "combine f acc [] = Inr acc"
| "combine f acc (Inl e # rs) = Inl e"
| "combine f acc (Inr b # rs) = combine f (f acc b) rs"

fun fold_results :: "(bool \<Rightarrow> bool \<Rightarrow> bool) \<Rightarrow> (expr_error + bool) list \<Rightarrow> expr_error + bool" where
  "fold_results f [] = Inl UnexpectedEnd"
| "fold_results f (Inl e # rs) = Inl e"
| "fold_results f (Inr b # rs) = combine f b rs"

fun eval_atom :: "event \<Rightarrow> atom \<Rightarrow> expr_error + bool" where
  "eval_atom ev (Compare field op lit) = compare_expr field op lit ev"
| "eval_atom ev (Paren conds) =
     fold_results (\<or>) (map (\<lambda>terms. fold_results (\<and>) (map (eval_atom ev) terms)) conds)"

definition eval_or :: "event \<Rightarrow> atom list list \<Rightarrow> expr_error + bool" where
  "eval_or ev conds = fold_results (\<or>) (map (\<lambda>terms. fold_results (\<and>) (map (eval_atom ev) terms)) conds)"

text \<open>How a tree is written: quoted literals, one space around operators and connectives.\<close>

definition quote :: char where
  "quote = char_of (34 :: nat)"

fun print_atom :: "atom \<Rightarrow> string" where
  "print_atom (Compare field op lit) = field @ '' '' @ op @ '' '' @ quote # lit @ [quote]"
| "print_atom (Paren conds) =
     ''('' @ join_with '' or '' (map (\<lambda>terms. join_with '' and '' (map print_atom terms)) conds) @ '')''"

definition print_or :: "atom list list \<Rightarrow> string" where
  "print_or conds = join_with '' or '' (map (\<lambda>terms. join_with '' and '' (map print_atom terms)) conds)"

definition expr_ops :: "string list" where
  "expr_ops = [''=='', ''!='', ''~'', ''>'', ''<'', ''>='', ''<='']"

fun wf_atom :: "atom \<Rightarrow> bool" where
  "wf_atom (Compare field op lit) \<longleftrightarrow>
     field \<noteq> [] \<and> is_ascii field \<and> list_all is_word_char field \<and> op \<in> set expr_ops \<and> quote \<notin> set lit"
| "wf_atom (Paren conds) \<longleftrightarrow> conds \<noteq> [] \<and> list_all (\<lambda>terms. terms \<noteq> [] \<and> list_all wf_atom terms) conds"

definition wf_or :: "atom list list \<Rightarrow> bool" where
  "wf_or conds \<longleftrightarrow> conds \<noteq> [] \<and> list_all (\<lambda>terms. terms \<noteq> [] \<and> list_all wf_atom terms) conds"

section \<open>Parsing what was printed\<close>

lemma word_char_not_space: "is_word_char c \<Longrightarrow> \<not> is_space_byte c"
  by (auto simp: is_word_char_def is_letter_byte_def is_digit_def is_space_byte_def Let_def)

lemma skip_space_idle: "\<not> is_space_byte c \<Longrightarrow> skip_space (c # s) = c # s"
  by (simp add: skip_space_def)

lemma skip_space_blank [simp]: "skip_space (CHR '' '' # s) = skip_space s"
  by (simp add: skip_space_def is_space_byte_def)

lemma skip_space_idem [simp]: "skip_space (skip_space s) = skip_space s"
  by (induction s) (simp_all add: skip_space_def)

lemma quote_is: "quote = CHR 0x22"
  by code_simp

lemma quote_facts [simp]: "quote_char quote" "\<not> is_space_byte quote"
  by (simp_all add: quote_is quote_char_def is_space_byte_def)

lemma parse_ident_print:
  assumes "field \<noteq> []" and "list_all is_word_char field"
  shows "parse_ident (field @ CHR '' '' # s) = Inr (field, CHR '' '' # s)"
proof -
  have b: "\<not> is_word_char CHR '' ''"
    by (simp add: is_word_char_def is_letter_byte_def is_digit_def)
  obtain c cs where f: "field = c # cs" using assms(1) by (cases field) auto
  have "skip_space (field @ CHR '' '' # s) = field @ CHR '' '' # s"
    using assms(2) by (simp add: f skip_space_idle word_char_not_space)
  then show ?thesis
    using assms b by (simp add: parse_ident_def Let_def takeWhile_append dropWhile_append list_all_iff)
qed

lemma parse_op_print:
  assumes "op \<in> set expr_ops"
  shows "parse_op (skip_space (op @ CHR '' '' # s)) = Inr (op, CHR '' '' # s)"
  using assms
  by (auto simp: expr_ops_def parse_op_def two_byte_ops_def skip_space_idle is_space_byte_def)

lemma parse_literal_print:
  assumes "quote \<notin> set lit"
  shows "parse_literal (quote # lit @ quote # s) = Inr (lit, s)"
proof -
  have "dropWhile (\<lambda>c. c \<noteq> quote) (lit @ quote # s) = quote # s"
    "takeWhile (\<lambda>c. c \<noteq> quote) (lit @ quote # s) = lit"
    using assms by (auto simp: dropWhile_append takeWhile_append)
  then show ?thesis by (simp add: parse_literal_def skip_space_idle)
qed

definition outcome :: "expr_error + bool \<Rightarrow> string \<Rightarrow> expr_error + (bool \<times> string)" where
  "outcome r rest = (case r of Inl e \<Rightarrow> Inl e | Inr b \<Rightarrow> Inr (b, rest))"

lemma outcome_simps [simp]: "outcome (Inl e) rest = Inl e" "outcome (Inr b) rest = Inr (b, rest)"
  by (simp_all add: outcome_def)

lemma parse_cmp_print:
  assumes "wf_atom (Compare field op lit)"
  shows "parse_cmp ev (print_atom (Compare field op lit) @ rest)
    = outcome (compare_expr field op lit ev) rest"
proof -
  have "skip_space (quote # lit @ quote # rest) = quote # lit @ quote # rest"
    by (rule skip_space_idle) simp
  then show ?thesis
    using assms parse_ident_print[of field "op @ CHR '' '' # quote # lit @ quote # rest"]
      parse_op_print[of op "quote # lit @ quote # rest"] parse_literal_print[of lit rest]
    by (simp add: parse_cmp_def outcome_def split: sum.split)
qed

text \<open>No connective follows.\<close>

definition ends_here :: "string \<Rightarrow> string \<Rightarrow> bool" where
  "ends_here kw rest \<longleftrightarrow> \<not> peek_keyword kw (skip_space rest)"

lemma consume_keyword_end: "ends_here kw rest \<Longrightarrow> consume_keyword kw rest = (False, skip_space rest)"
  by (simp add: ends_here_def consume_keyword_def Let_def)

lemma consume_keyword_word:
  assumes "kw = ''and'' \<or> kw = ''or''"
  shows "consume_keyword kw (CHR '' '' # kw @ CHR '' '' # s) = (True, skip_space s)"
proof -
  have "\<not> is_word_char CHR '' ''"
    by (simp add: is_word_char_def is_letter_byte_def is_digit_def)
  moreover have "skip_space (kw @ CHR '' '' # s) = kw @ CHR '' '' # s"
    using assms by (auto simp: skip_space_idle is_space_byte_def)
  ultimately show ?thesis by (simp add: consume_keyword_def Let_def peek_keyword_def)
qed

lemma ends_here_paren: "kw = ''and'' \<or> kw = ''or'' \<Longrightarrow> ends_here kw (CHR '')'' # s)"
  by (auto simp: ends_here_def skip_space_idle is_space_byte_def peek_keyword_def equal_fold_def
      runes_of_ascii_cons fold_rune_def)

lemma ends_here_or: "ends_here ''and'' ('' or '' @ s)"
  by (auto simp: ends_here_def skip_space_idle is_space_byte_def peek_keyword_def equal_fold_def
      runes_of_ascii_cons fold_rune_def)

lemma ends_here_Nil: "kw \<noteq> [] \<Longrightarrow> ends_here kw []"
  by (simp add: ends_here_def skip_space_def peek_keyword_def)

lemma join_with_Cons: "join_with sep (x # xs) = x @ concat (map ((@) sep) xs)"
  by (induction xs arbitrary: x) auto

definition reads_atom :: "event \<Rightarrow> atom \<Rightarrow> bool" where
  "reads_atom ev a \<longleftrightarrow>
     (\<forall>rest. \<exists>n. parse_atom n ev (print_atom a @ rest) = Some (outcome (eval_atom ev a) rest))"

definition reads_conj :: "event \<Rightarrow> atom list \<Rightarrow> bool" where
  "reads_conj ev terms \<longleftrightarrow> (\<forall>rest. ends_here ''and'' rest \<longrightarrow>
     (\<exists>n. parse_and n ev (join_with '' and '' (map print_atom terms) @ rest)
        = Some (outcome (fold_results (\<and>) (map (eval_atom ev) terms)) (skip_space rest))))"

definition reads_or :: "event \<Rightarrow> atom list list \<Rightarrow> bool" where
  "reads_or ev conds \<longleftrightarrow> (\<forall>rest. ends_here ''and'' rest \<longrightarrow> ends_here ''or'' rest \<longrightarrow>
     (\<exists>n. parse_or n ev (print_or conds @ rest) = Some (outcome (eval_or ev conds) (skip_space rest))))"

lemma parse_skip_space [simp]:
  "parse_atom n ev (skip_space s) = parse_atom n ev s"
  "parse_and n ev (skip_space s) = parse_and n ev s"
proof -
  show a: "parse_atom n ev (skip_space s) = parse_atom n ev s" for n by (cases n) simp_all
  show "parse_and n ev (skip_space s) = parse_and n ev s" by (cases n) (simp_all add: a)
qed

lemma loop_skip_space [simp]:
  "and_loop n ev l (skip_space s) = and_loop n ev l s"
  "or_loop n ev l (skip_space s) = or_loop n ev l s"
  by (cases n; simp add: consume_keyword_def)+

lemma and_loop_print:
  assumes "list_all (reads_atom ev) ts" and "ends_here ''and'' rest"
  shows "\<exists>n. and_loop n ev acc (concat (map ((@) '' and '') (map print_atom ts)) @ rest)
    = Some (outcome (combine (\<and>) acc (map (eval_atom ev) ts)) (skip_space rest))"
  using assms(1)
proof (induction ts arbitrary: acc)
  case Nil
  have "and_loop (Suc 0) ev acc rest = Some (Inr (acc, skip_space rest))"
    using assms(2) by (simp add: consume_keyword_end)
  then show ?case by (auto simp del: and_loop.simps)
next
  case (Cons a ts)
  let ?tail = "concat (map ((@) '' and '') (map print_atom ts)) @ rest"
  have shape: "concat (map ((@) '' and '') (map print_atom (a # ts))) @ rest = '' and '' @ print_atom a @ ?tail"
    by (simp only: list.map concat.simps append.assoc)
  have c: "consume_keyword ''and'' ('' and '' @ print_atom a @ ?tail)
      = (True, skip_space (print_atom a @ ?tail))"
    using consume_keyword_word[of "''and''" "print_atom a @ ?tail"] by simp
  from Cons.prems obtain n1 where n1: "parse_atom n1 ev (print_atom a @ ?tail)
      = Some (outcome (eval_atom ev a) ?tail)"
    by (auto simp: reads_atom_def)
  show ?case
  proof (cases "eval_atom ev a")
    case (Inl e)
    have "and_loop (Suc n1) ev acc ('' and '' @ print_atom a @ ?tail) = Some (Inl e)"
      using c n1 Inl by (simp add: and_then_def del: append.simps)
    with Inl show ?thesis unfolding shape by (auto simp del: and_loop.simps append.simps)
  next
    case (Inr b)
    from Cons obtain n2 where n2: "and_loop n2 ev (acc \<and> b) ?tail
        = Some (outcome (combine (\<and>) (acc \<and> b) (map (eval_atom ev) ts)) (skip_space rest))"
      by (metis list.pred_inject(2))
    have "and_loop (Suc (max n1 n2)) ev acc ('' and '' @ print_atom a @ ?tail)
        = Some (outcome (combine (\<and>) (acc \<and> b) (map (eval_atom ev) ts)) (skip_space rest))"
      using c parse_more_fuel(5)[OF n1, of "max n1 n2"] parse_more_fuel(4)[OF n2, of "max n1 n2"] Inr
      by (simp add: and_then_def del: append.simps)
    with Inr show ?thesis unfolding shape by (auto simp del: and_loop.simps append.simps)
  qed
qed

lemma reads_conjI:
  assumes "list_all (reads_atom ev) terms" and "terms \<noteq> []"
  shows "reads_conj ev terms"
  unfolding reads_conj_def
proof (intro allI impI)
  fix rest assume e: "ends_here ''and'' rest"
  obtain a ts where c: "terms = a # ts" using assms(2) by (cases terms) auto
  let ?tail = "concat (map ((@) '' and '') (map print_atom ts)) @ rest"
  have shape: "join_with '' and '' (map print_atom terms) @ rest = print_atom a @ ?tail"
    by (simp only: c list.map join_with_Cons append.assoc)
  from assms c obtain n1 where n1: "parse_atom n1 ev (print_atom a @ ?tail)
      = Some (outcome (eval_atom ev a) ?tail)"
    by (auto simp: reads_atom_def)
  show "\<exists>n. parse_and n ev (join_with '' and '' (map print_atom terms) @ rest)
        = Some (outcome (fold_results (\<and>) (map (eval_atom ev) terms)) (skip_space rest))"
  proof (cases "eval_atom ev a")
    case (Inl e')
    have "parse_and (Suc n1) ev (print_atom a @ ?tail) = Some (Inl e')"
      using n1 Inl by (simp add: and_then_def)
    with Inl show ?thesis unfolding shape by (auto simp: c simp del: parse_and.simps)
  next
    case (Inr b)
    obtain n2 where n2: "and_loop n2 ev b ?tail
        = Some (outcome (combine (\<and>) b (map (eval_atom ev) ts)) (skip_space rest))"
      using and_loop_print[OF _ e, of ev ts b] assms(1) c by auto
    have "parse_and (Suc (max n1 n2)) ev (print_atom a @ ?tail)
        = Some (outcome (combine (\<and>) b (map (eval_atom ev) ts)) (skip_space rest))"
      using parse_more_fuel(5)[OF n1, of "max n1 n2"] parse_more_fuel(4)[OF n2, of "max n1 n2"] Inr
      by (simp add: and_then_def)
    with Inr show ?thesis unfolding shape by (auto simp: c simp del: parse_and.simps)
  qed
qed

abbreviation conj_text :: "atom list \<Rightarrow> string" where
  "conj_text terms \<equiv> join_with '' and '' (map print_atom terms)"

abbreviation conj_value :: "event \<Rightarrow> atom list \<Rightarrow> expr_error + bool" where
  "conj_value ev terms \<equiv> fold_results (\<and>) (map (eval_atom ev) terms)"

lemma ends_here_tail:
  assumes "ends_here ''and'' rest"
  shows "ends_here ''and'' (concat (map ((@) '' or '') ps) @ rest)"
proof (cases ps)
  case (Cons p ps')
  then have "concat (map ((@) '' or '') ps) @ rest = '' or '' @ p @ concat (map ((@) '' or '') ps') @ rest"
    by (simp only: list.map concat.simps append.assoc)
  then show ?thesis by (simp only: ends_here_or)
qed (use assms in simp)

lemma or_loop_print:
  assumes "list_all (reads_conj ev) cs" and e: "ends_here ''and'' rest" "ends_here ''or'' rest"
  shows "\<exists>n. or_loop n ev acc (concat (map ((@) '' or '') (map conj_text cs)) @ rest)
    = Some (outcome (combine (\<or>) acc (map (conj_value ev) cs)) (skip_space rest))"
  using assms(1)
proof (induction cs arbitrary: acc)
  case Nil
  have "or_loop (Suc 0) ev acc rest = Some (Inr (acc, skip_space rest))"
    using e by (simp add: consume_keyword_end)
  then show ?case by (auto simp del: or_loop.simps)
next
  case (Cons c cs)
  let ?tail = "concat (map ((@) '' or '') (map conj_text cs)) @ rest"
  have shape: "concat (map ((@) '' or '') (map conj_text (c # cs))) @ rest = '' or '' @ conj_text c @ ?tail"
    by (simp only: list.map concat.simps append.assoc)
  have k: "consume_keyword ''or'' ('' or '' @ conj_text c @ ?tail) = (True, skip_space (conj_text c @ ?tail))"
    using consume_keyword_word[of "''or''" "conj_text c @ ?tail"] by simp
  from Cons.prems ends_here_tail[OF e(1)] obtain n1 where n1: "parse_and n1 ev (conj_text c @ ?tail)
      = Some (outcome (conj_value ev c) (skip_space ?tail))"
    unfolding reads_conj_def list.pred_inject by blast
  show ?case
  proof (cases "conj_value ev c")
    case (Inl er)
    have "or_loop (Suc n1) ev acc ('' or '' @ conj_text c @ ?tail) = Some (Inl er)"
      using k n1 Inl by (simp add: and_then_def del: append.simps)
    with Inl show ?thesis unfolding shape by (auto simp del: or_loop.simps append.simps)
  next
    case (Inr b)
    from Cons obtain n2 where n2: "or_loop n2 ev (acc \<or> b) ?tail
        = Some (outcome (combine (\<or>) (acc \<or> b) (map (conj_value ev) cs)) (skip_space rest))"
      by (metis list.pred_inject(2))
    have "or_loop (Suc (max n1 n2)) ev acc ('' or '' @ conj_text c @ ?tail)
        = Some (outcome (combine (\<or>) (acc \<or> b) (map (conj_value ev) cs)) (skip_space rest))"
      using k parse_more_fuel(3)[OF n1, of "max n1 n2"] parse_more_fuel(2)[OF n2, of "max n1 n2"] Inr
      by (simp add: and_then_def del: append.simps)
    with Inr show ?thesis unfolding shape by (auto simp del: or_loop.simps append.simps)
  qed
qed

lemma reads_orI:
  assumes "list_all (reads_conj ev) conds" and "conds \<noteq> []"
  shows "reads_or ev conds"
  unfolding reads_or_def
proof (intro allI impI)
  fix rest assume e: "ends_here ''and'' rest" "ends_here ''or'' rest"
  obtain c cs where c: "conds = c # cs" using assms(2) by (cases conds) auto
  let ?tail = "concat (map ((@) '' or '') (map conj_text cs)) @ rest"
  have shape: "print_or conds @ rest = conj_text c @ ?tail"
    by (simp only: c print_or_def list.map join_with_Cons append.assoc)
  have "reads_conj ev c" using assms(1) c by simp
  with ends_here_tail[OF e(1)] obtain n1 where n1: "parse_and n1 ev (conj_text c @ ?tail)
      = Some (outcome (conj_value ev c) (skip_space ?tail))"
    unfolding reads_conj_def by blast
  show "\<exists>n. parse_or n ev (print_or conds @ rest) = Some (outcome (eval_or ev conds) (skip_space rest))"
  proof (cases "conj_value ev c")
    case (Inl er)
    have "parse_or (Suc n1) ev (conj_text c @ ?tail) = Some (Inl er)"
      using n1 Inl by (simp add: and_then_def)
    with Inl show ?thesis unfolding shape by (auto simp: c eval_or_def simp del: parse_or.simps)
  next
    case (Inr b)
    obtain n2 where n2: "or_loop n2 ev b ?tail
        = Some (outcome (combine (\<or>) b (map (conj_value ev) cs)) (skip_space rest))"
      using or_loop_print[OF _ e, of ev cs b] assms(1) c by auto
    have "parse_or (Suc (max n1 n2)) ev (conj_text c @ ?tail)
        = Some (outcome (combine (\<or>) b (map (conj_value ev) cs)) (skip_space rest))"
      using parse_more_fuel(3)[OF n1, of "max n1 n2"] parse_more_fuel(2)[OF n2, of "max n1 n2"] Inr
      by (simp add: and_then_def)
    with Inr show ?thesis unfolding shape by (auto simp: c eval_or_def simp del: parse_or.simps)
  qed
qed

lemma reads_atom_compare:
  assumes "wf_atom (Compare field op lit)"
  shows "reads_atom ev (Compare field op lit)"
  unfolding reads_atom_def
proof
  fix rest
  let ?s = "print_atom (Compare field op lit) @ rest"
  obtain c cs where f: "field = c # cs" "is_word_char c"
    using assms by (cases field) auto
  then have s: "skip_space ?s = ?s" "?s \<noteq> []" "hd ?s \<noteq> CHR ''(''"
    by (auto simp: skip_space_idle word_char_not_space)
       (simp add: is_word_char_def is_letter_byte_def is_digit_def)
  then have "parse_atom (Suc 0) ev ?s = Some (parse_cmp ev ?s)"
    by (simp only: parse_atom.simps Let_def if_False)
  then show "\<exists>n. parse_atom n ev ?s = Some (outcome (eval_atom ev (Compare field op lit)) rest)"
    unfolding parse_cmp_print[OF assms] by (metis eval_atom.simps(1))
qed

lemma reads_atom_paren:
  assumes "reads_or ev conds"
  shows "reads_atom ev (Paren conds)"
  unfolding reads_atom_def
proof
  fix rest
  have p: "print_atom (Paren conds) @ rest = CHR ''('' # print_or conds @ CHR '')'' # rest"
    by (simp add: print_or_def)
  obtain n where n: "parse_or n ev (print_or conds @ CHR '')'' # rest)
      = Some (outcome (eval_or ev conds) (skip_space (CHR '')'' # rest)))"
    using assms ends_here_paren unfolding reads_or_def by metis
  have "skip_space (CHR ''('' # s) = CHR ''('' # s" "skip_space (CHR '')'' # s) = CHR '')'' # s" for s
    by (simp_all add: skip_space_idle is_space_byte_def)
  with n have "parse_atom (Suc n) ev (print_atom (Paren conds) @ rest)
      = Some (outcome (eval_or ev conds) rest)"
    unfolding p by (cases "eval_or ev conds") (simp_all add: and_then_def close_paren_def)
  then show "\<exists>n. parse_atom n ev (print_atom (Paren conds) @ rest)
      = Some (outcome (eval_atom ev (Paren conds)) rest)"
    by (metis eval_atom.simps(2) eval_or_def)
qed

lemma wf_reads_atom: "wf_atom a \<Longrightarrow> reads_atom ev a"
proof (induction a)
  case (Compare field op lit)
  then show ?case by (rule reads_atom_compare)
next
  case (Paren conds)
  then have "list_all (reads_conj ev) conds"
    by (auto simp: list_all_iff intro!: reads_conjI)
  with Paren.prems have "reads_or ev conds" by (intro reads_orI) simp_all
  then show ?case by (rule reads_atom_paren)
qed

lemma wf_reads_or: "wf_or conds \<Longrightarrow> reads_or ev conds"
  by (intro reads_orI) (auto simp: wf_or_def list_all_iff intro!: reads_conjI wf_reads_atom)

lemma print_atom_ends:
  assumes "wf_atom a"
  shows "print_atom a \<noteq> []" and "\<not> ws_byte (hd (print_atom a))" and "\<not> ws_byte (last (print_atom a))"
proof -
  have "print_atom a \<noteq> [] \<and> \<not> ws_byte (hd (print_atom a)) \<and> \<not> ws_byte (last (print_atom a))"
  proof (cases a)
    case (Compare field op lit)
    with assms obtain c cs where f: "field = c # cs" "is_word_char c" "byte_val c < 128"
      by (cases field) (auto simp: is_ascii_def)
    then have "\<not> ws_byte c"
      by (auto simp: ws_byte_def is_word_char_def is_letter_byte_def is_digit_def Let_def)
    then show ?thesis by (simp add: Compare f ws_byte_def quote_is)
  next
    case (Paren conds)
    then show ?thesis by (simp add: ws_byte_def)
  qed
  then show "print_atom a \<noteq> []" "\<not> ws_byte (hd (print_atom a))" "\<not> ws_byte (last (print_atom a))"
    by blast+
qed

lemma join_ends:
  assumes "xs \<noteq> []" and "\<forall>x \<in> set xs. x \<noteq> [] \<and> \<not> ws_byte (hd x) \<and> \<not> ws_byte (last x)"
  shows "join_with sep xs \<noteq> [] \<and> \<not> ws_byte (hd (join_with sep xs)) \<and> \<not> ws_byte (last (join_with sep xs))"
  using assms by (induction sep xs rule: join_with.induct) (auto simp: last_append hd_append)

lemma trim_print_or:
  assumes "wf_or conds"
  shows "print_or conds \<noteq> []" and "trim_space (print_or conds) = print_or conds"
proof -
  have "print_or conds \<noteq> [] \<and> \<not> ws_byte (hd (print_or conds)) \<and> \<not> ws_byte (last (print_or conds))"
    unfolding print_or_def
  proof (rule join_ends)
    show "map conj_text conds \<noteq> []" using assms by (simp add: wf_or_def)
    show "\<forall>x\<in>set (map conj_text conds). x \<noteq> [] \<and> \<not> ws_byte (hd x) \<and> \<not> ws_byte (last x)"
    proof
      fix x assume "x \<in> set (map conj_text conds)"
      then obtain terms where t: "terms \<in> set conds" "x = conj_text terms" by auto
      with assms have "terms \<noteq> []" "\<forall>a \<in> set terms. wf_atom a"
        by (auto simp: wf_or_def list_all_iff)
      then show "x \<noteq> [] \<and> \<not> ws_byte (hd x) \<and> \<not> ws_byte (last x)"
        unfolding t(2) by (intro join_ends) (auto simp: print_atom_ends)
    qed
  qed
  then show "print_or conds \<noteq> []" "trim_space (print_or conds) = print_or conds"
    by (simp_all add: trim_space_id)
qed

section \<open>Properties\<close>

text \<open>C4. Meaning: a matcher expression, written from a syntax tree of the grammar (disjunctions of
  conjunctions of comparisons and parenthesised expressions, \<^verbatim>\<open>and\<close> binding tighter than \<^verbatim>\<open>or\<close>),
  matches an event exactly when the tree evaluates to true; a faulty comparison anywhere (an unknown
  field, a non-numeric literal for the value) makes it match nothing.\<close>

theorem match_expr_print:
  assumes "wf_or conds"
  shows "match_expr (print_or conds) ev \<longleftrightarrow> eval_or ev conds = Inr True"
proof -
  have "ends_here ''and'' []" "ends_here ''or'' []" by (simp_all add: ends_here_Nil)
  with wf_reads_or[OF assms, of ev] obtain n where
    "parse_or n ev (print_or conds @ []) = Some (outcome (eval_or ev conds) (skip_space []))"
    unfolding reads_or_def by blast
  then have "parse_or (expr_fuel (print_or conds)) ev (print_or conds)
      = Some (outcome (eval_or ev conds) [])"
    by (intro parse_or_fuel) (simp add: skip_space_def)
  then show ?thesis
    using trim_print_or[OF assms]
    by (cases "eval_or ev conds") (simp_all add: match_expr_def Let_def skip_space_def)
qed

definition sample_event :: event where
  "sample_event = \<lparr>ev_id = 1, ev_event_id = ''e'', ev_device = ''DEVICE01'', ev_ts = 0,
     ev_metric = ''voltage'', ev_value = FFin False 0, ev_unit = ''V'', ev_dedup_key = [],
     ev_route_key = [], ev_status = EventCreated, ev_parsed_at = 0\<rparr>"

theorem match_expr_print_witness:
  "match_expr (print_or [[Compare ''metric'' ''=='' ''current''],
      [Paren [[Compare ''unit'' ''!='' ''V''], [Compare ''device'' ''=='' ''DEVICE01'']],
       Compare ''metric'' ''=='' ''voltage'']]) sample_event"
proof -
  let ?t = "[[Compare ''metric'' ''=='' ''current''],
      [Paren [[Compare ''unit'' ''!='' ''V''], [Compare ''device'' ''=='' ''DEVICE01'']],
       Compare ''metric'' ''=='' ''voltage'']]"
  have "wf_or ?t"
    by (simp add: wf_or_def is_ascii_def is_word_char_def is_letter_byte_def expr_ops_def quote_is)
  moreover have "eval_or sample_event ?t = Inr True"
    by (simp add: eval_or_def compare_expr_def string_compare_def sample_event_def)
  ultimately show ?thesis using match_expr_print[of ?t sample_event] by simp
qed

text \<open>C7. Termination: the recursive descent returns on every input, the fuel that \<open>match_expr\<close> gives it
  is enough, and more fuel never changes the outcome.\<close>

theorem parse_or_returns:
  "\<exists>x. parse_or (expr_fuel s) ev s = Some x \<and> (\<forall>n. parse_or (expr_fuel s + n) ev s = Some x)"
proof -
  obtain x where x: "parse_or (expr_fuel s) ev s = Some x"
    using parse_total(1)[of s "expr_fuel s" ev] by (auto simp: expr_fuel_def)
  then show ?thesis using parse_more_fuel(1)[OF x] by simp
qed

end
