(* ===== verification/Router.thy ===== *)
theory Router
  imports Expr "HOL-Library.Multiset"
begin

text \<open>
  \<^verbatim>\<open>internal/router/router.go\<close>: which rules an event matches, and the order in which they are
  returned: by descending priority, ties broken by \<^verbatim>\<open>rule_id\<close>.  The order is a linear order on
  \<open>rank\<close>, so the library's sorting applies to it.
\<close>

section \<open>The order of rules\<close>

datatype rank = RuleKey int string

fun key_less :: "rank \<Rightarrow> rank \<Rightarrow> bool" where
  "key_less (RuleKey p r) (RuleKey q t) = (if p \<noteq> q then p > q else r < t)"

instantiation rank :: linorder
begin

definition less_rank :: "rank \<Rightarrow> rank \<Rightarrow> bool" where
  "less_rank a b \<longleftrightarrow> key_less a b"

definition less_eq_rank :: "rank \<Rightarrow> rank \<Rightarrow> bool" where
  "less_eq_rank a b \<longleftrightarrow> key_less a b \<or> a = b"

instance
proof
  fix a b c :: rank
  show "a < b \<longleftrightarrow> a \<le> b \<and> \<not> b \<le> a"
    by (cases a; cases b) (auto simp: less_rank_def less_eq_rank_def split: if_splits)
  show "a \<le> a" by (simp add: less_eq_rank_def)
  show "a \<le> b \<Longrightarrow> b \<le> c \<Longrightarrow> a \<le> c"
    by (cases a; cases b; cases c) (auto simp: less_eq_rank_def split: if_splits)
  show "a \<le> b \<Longrightarrow> b \<le> a \<Longrightarrow> a = b"
    by (cases a; cases b) (auto simp: less_eq_rank_def split: if_splits)
  show "a \<le> b \<or> b \<le> a"
    by (cases a; cases b) (auto simp: less_eq_rank_def split: if_splits)
qed

end

definition rule_key :: "route_rule \<Rightarrow> rank" where
  "rule_key rl = RuleKey (rr_priority rl) (rr_rule_id rl)"

section \<open>Matching\<close>

definition match_device :: "string \<Rightarrow> string \<Rightarrow> bool" where
  "match_device pattern device =
     (if pattern = [] then True
      else (case path_match pattern device of None \<Rightarrow> False | Some matched \<Rightarrow> matched))"

text \<open>\<^verbatim>\<open>len(metrics) == 0\<close> holds for the nil and for the empty slice.\<close>

definition match_metrics :: "string list option \<Rightarrow> string \<Rightarrow> bool" where
  "match_metrics metrics metric =
     (case metrics of
        None \<Rightarrow> True
      | Some ms \<Rightarrow> if ms = [] then True else list_ex (\<lambda>m. equal_fold m metric) ms)"

definition rule_matches :: "event \<Rightarrow> route_rule \<Rightarrow> bool" where
  "rule_matches ev rl =
     (if \<not> rr_enabled rl \<or> rr_deleted_at rl \<noteq> None then False
      else if \<not> match_device (mt_device_pattern (rr_matcher rl)) (ev_device ev) then False
      else if \<not> match_metrics (mt_metrics (rr_matcher rl)) (ev_metric ev) then False
      else match_expr (mt_expr (rr_matcher rl)) ev)"

text \<open>
  \<^verbatim>\<open>sort.Slice\<close> is not stable; \<open>sorted_rules_unique\<close> shows that on rules with distinct
  \<^verbatim>\<open>rule_id\<close>s every sorting algorithm gives the list below.
\<close>

definition match_rules :: "event \<Rightarrow> route_rule list \<Rightarrow> route_rule list" where
  "match_rules ev rules = sort_key rule_key (filter (rule_matches ev) rules)"

definition topics :: "route_rule list \<Rightarrow> string list" where
  "topics rules = map rr_topic rules"

section \<open>Lemmas\<close>

definition ordered_rules :: "route_rule list \<Rightarrow> bool" where
  "ordered_rules rules \<longleftrightarrow> sorted_wrt (\<lambda>a b. rr_priority a > rr_priority b
     \<or> (rr_priority a = rr_priority b \<and> rr_rule_id a \<le> rr_rule_id b)) rules"

lemma rule_key_le_iff: "rule_key a \<le> rule_key b \<longleftrightarrow>
    rr_priority a > rr_priority b \<or> (rr_priority a = rr_priority b \<and> rr_rule_id a \<le> rr_rule_id b)"
  by (auto simp: rule_key_def less_eq_rank_def)

lemma ordered_rules_iff: "ordered_rules rules \<longleftrightarrow> sorted (map rule_key rules)"
  by (simp add: ordered_rules_def sorted_map rule_key_le_iff)

lemma set_match_rules [simp]: "set (match_rules ev rules) = {rl \<in> set rules. rule_matches ev rl}"
  by (auto simp: match_rules_def)

lemma ordered_match_rules: "ordered_rules (match_rules ev rules)"
  by (simp add: ordered_rules_iff match_rules_def)

lemma mset_match_rules: "mset (match_rules ev rules) = filter_mset (rule_matches ev) (mset rules)"
  by (simp add: match_rules_def)

lemma sorted_rules_unique:
  assumes "distinct (map rr_rule_id rules)" and "mset ys = mset rules" and "ordered_rules ys"
  shows "ys = sort_key rule_key rules"
proof -
  let ?zs = "sort_key rule_key rules"
  have inj: "inj_on rule_key (set rules)" and dist: "distinct (map rule_key rules)"
    using assms(1) by (auto simp: distinct_map rule_key_def inj_on_def)
  have set: "set ys = set rules" using assms(2) by (rule mset_eq_setD)
  have keys: "mset (map rule_key ys) = mset (map rule_key rules)"
    "mset (map rule_key ?zs) = mset (map rule_key rules)"
    by (simp_all only: mset_map assms(2) mset_sort)
  then have "distinct (map rule_key ys)" "distinct (map rule_key ?zs)"
    using dist mset_eq_imp_distinct_iff by blast+
  moreover have "set (map rule_key ys) = set (map rule_key ?zs)"
    using keys by (metis mset_eq_setD)
  moreover have "sorted (map rule_key ys)" "sorted (map rule_key ?zs)"
    using assms(3) by (simp_all add: ordered_rules_iff)
  ultimately have "map rule_key ys = map rule_key ?zs"
    by (intro sorted_distinct_set_unique)
  then show ?thesis
    using inj set by (intro map_inj_on[of rule_key]) simp_all
qed

lemma distinct_filter_ids: "distinct (map rr_rule_id rules) \<Longrightarrow> distinct (map rr_rule_id (filter P rules))"
  by (rule distinct_map_filter)

lemma rule_matches_iff:
  "rule_matches ev rl \<longleftrightarrow> rr_enabled rl \<and> rr_deleted_at rl = None
     \<and> (mt_device_pattern (rr_matcher rl) = []
        \<or> path_match (mt_device_pattern (rr_matcher rl)) (ev_device ev) = Some True)
     \<and> (mt_metrics (rr_matcher rl) \<in> {None, Some []}
        \<or> (\<exists>m \<in> set (the (mt_metrics (rr_matcher rl))). equal_fold m (ev_metric ev)))
     \<and> match_expr (mt_expr (rr_matcher rl)) ev"
  by (auto simp: rule_matches_def match_device_def match_metrics_def list_ex_iff
      split: option.splits)

section \<open>Properties\<close>

text \<open>Soundness and completeness of matching: an event is routed by exactly the given rules that are
  enabled, not deleted, whose device pattern is empty or matches the device as a glob, whose
  metric list is absent, empty or holds the metric up to case, and whose expression matches; a
  malformed glob or expression matches nothing.\<close>

theorem match_rules_sound_complete:
  "rl \<in> set (match_rules ev rules) \<longleftrightarrow> rl \<in> set rules
     \<and> rr_enabled rl \<and> rr_deleted_at rl = None
     \<and> (mt_device_pattern (rr_matcher rl) = []
        \<or> path_match (mt_device_pattern (rr_matcher rl)) (ev_device ev) = Some True)
     \<and> (mt_metrics (rr_matcher rl) \<in> {None, Some []}
        \<or> (\<exists>m \<in> set (the (mt_metrics (rr_matcher rl))). equal_fold m (ev_metric ev)))
     \<and> match_expr (mt_expr (rr_matcher rl)) ev"
  by (simp add: rule_matches_iff)

text \<open>C5. Determinism of the order: when rule ids are unique, the result of \<^verbatim>\<open>Match\<close> is the one
  arrangement of the matching rules in which priorities descend and equal priorities ascend by
  rule id; it depends neither on the order in which the rules are given nor on the stability of
  the sort.\<close>

theorem match_rules_unique_order:
  assumes "distinct (map rr_rule_id rules)"
  shows "ys = match_rules ev rules \<longleftrightarrow>
    mset ys = filter_mset (rule_matches ev) (mset rules) \<and> ordered_rules ys"
proof
  assume "mset ys = filter_mset (rule_matches ev) (mset rules) \<and> ordered_rules ys"
  then show "ys = match_rules ev rules"
    unfolding match_rules_def
    by (intro sorted_rules_unique distinct_filter_ids assms) simp_all
next
  assume "ys = match_rules ev rules"
  then show "mset ys = filter_mset (rule_matches ev) (mset rules) \<and> ordered_rules ys"
    by (simp add: mset_match_rules ordered_match_rules)
qed

definition sample_rule :: "string \<Rightarrow> int \<Rightarrow> route_rule" where
  "sample_rule ident priority = \<lparr>rr_id = 1, rr_rule_id = ident, rr_name = ''n'', rr_matcher = no_matcher,
     rr_topic = ident, rr_priority = priority, rr_enabled = True, rr_deleted_at = None,
     rr_created_at = 0, rr_updated_at = 0\<rparr>"

theorem match_rules_unique_order_witness:
  "[sample_rule ''b'' 9, sample_rule ''a'' 5, sample_rule ''c'' 5]
    = match_rules sample_event [sample_rule ''c'' 5, sample_rule ''a'' 5, sample_rule ''b'' 9]"
proof (rule match_rules_unique_order[THEN iffD2])
  show "distinct (map rr_rule_id [sample_rule ''c'' 5, sample_rule ''a'' 5, sample_rule ''b'' 9])"
    by (simp add: sample_rule_def)
  have "rule_matches sample_event (sample_rule i p)" for i p
    by (simp add: rule_matches_iff sample_rule_def no_matcher_def match_expr_def)
  then show "mset [sample_rule ''b'' 9, sample_rule ''a'' 5, sample_rule ''c'' 5]
      = filter_mset (rule_matches sample_event)
          (mset [sample_rule ''c'' 5, sample_rule ''a'' 5, sample_rule ''b'' 9])
      \<and> ordered_rules [sample_rule ''b'' 9, sample_rule ''a'' 5, sample_rule ''c'' 5]"
    by (simp add: ordered_rules_def sample_rule_def)
qed

end
