(* ===== verification/Parser.thy ===== *)
theory Parser
  imports GoTime
begin

unbundle bit_operations_syntax

text \<open>
  \<^verbatim>\<open>internal/parser\<close>: the fixed text protocol
  \<^verbatim>\<open>DEVICE_ID|TIMESTAMP|METRIC|VALUE|UNIT|CHECKSUM\<close>, its validation in the order of the source,
  the CRC16-CCITT checksum on 16-bit words, and the message builder.  Every \<^verbatim>\<open>return nil, err\<close>
  of \<^verbatim>\<open>ParseMessage\<close> is a constructor of \<open>parse_error\<close> that carries what the text of the error
  is made of.
\<close>

section \<open>Results\<close>

record telemetry =
  tm_device :: string
  tm_ts :: instant
  tm_metric :: string
  tm_value :: float64
  tm_unit :: string
  tm_checksum :: string

datatype parse_error =
    EmptyRaw
  | RawTooLong
  | MissingChecksum
  | EmptyChecksum
  | InvalidChecksumFormat
  | FieldCount nat
  | DeviceIdLength
  | DeviceIdCharacter nat
  | InvalidTimestamp
  | TooFarInFuture
  | TooOld
  | UnknownMetric string
  | NonNumericValue string
  | ValueOutOfRange float64 float64 float64
  | ChecksumMismatch string string

section \<open>Metrics\<close>

definition metric_ranges :: "string \<Rightarrow> (float64 \<times> float64) option" where
  "metric_ranges = map_of
     [(''temperature'', (of_int64 (- 60), of_int64 120)),
      (''humidity'', (of_int64 0, of_int64 100)),
      (''pressure'', (of_int64 800, of_int64 1200)),
      (''voltage'', (of_int64 0, of_int64 40)),
      (''current'', (of_int64 0, of_int64 100)),
      (''wind_speed'', (of_int64 0, of_int64 80))]"

definition known_metric :: "string \<Rightarrow> bool" where
  "known_metric metric \<longleftrightarrow> metric_ranges metric \<noteq> None"

section \<open>The checksum\<close>

definition crc_bit :: "16 word \<Rightarrow> 16 word" where
  "crc_bit crc = (if crc AND 0x8000 \<noteq> 0 then push_bit 1 crc XOR 0x1021 else push_bit 1 crc)"

text \<open>The inner loop runs eight times.\<close>

definition crc_byte :: "16 word \<Rightarrow> char \<Rightarrow> 16 word" where
  "crc_byte crc c = (crc_bit ^^ 8) (crc XOR push_bit 8 (of_char c))"

definition crc16 :: "string \<Rightarrow> 16 word" where
  "crc16 body = foldl crc_byte 0xFFFF body"

text \<open>\<^verbatim>\<open>fmt.Sprintf("%04X", crc)\<close>: the four hexadecimal digits of a 16-bit value.\<close>

definition hex4 :: "16 word \<Rightarrow> string" where
  "hex4 w = (let n = unat w in
     [hex_upper_char (n div 4096), hex_upper_char (n div 256 mod 16),
      hex_upper_char (n div 16 mod 16), hex_upper_char (n mod 16)])"

definition checksum_hex :: "string \<Rightarrow> string" where
  "checksum_hex body = hex4 (crc16 body)"

section \<open>Parsing\<close>

definition split_checksum :: "string \<Rightarrow> parse_error + (string \<times> string)" where
  "split_checksum raw = (case last_index_of CHR ''|'' raw of
     None \<Rightarrow> Inl MissingChecksum
   | Some idx \<Rightarrow>
       (let body = take idx raw; checksum = drop (idx + 1) raw in
        if checksum = [] then Inl EmptyChecksum
        else if \<not> hex_decodable (to_upper checksum) then Inl InvalidChecksumFormat
        else Inr (body, checksum)))"

definition id_char :: "char \<Rightarrow> bool" where
  "id_char c \<longleftrightarrow> (let b = byte_val c in (65 \<le> b \<and> b \<le> 90) \<or> (48 \<le> b \<and> b \<le> 57) \<or> b = 45)"

text \<open>
  \<^verbatim>\<open>for _, c := range id\<close>: the bytes before the first offending rune are all ASCII, so the rune
  is decoded at the first byte that is no identifier character.
\<close>

fun check_id_chars :: "string \<Rightarrow> parse_error + unit" where
  "check_id_chars [] = Inr ()"
| "check_id_chars (c # cs) = (if id_char c then check_id_chars cs
     else Inl (DeviceIdCharacter (fst (decode_rune (c # cs)))))"

definition validate_device_id :: "string \<Rightarrow> parse_error + unit" where
  "validate_device_id ident = (if length ident < 8 \<or> 32 < length ident then Inl DeviceIdLength
     else check_id_chars ident)"

definition parse_ts :: "string \<Rightarrow> instant \<Rightarrow> parse_error + instant" where
  "parse_ts s now = (case parse_rfc3339 s of
     None \<Rightarrow> Inl InvalidTimestamp
   | Some (ts, _) \<Rightarrow>
       if now + 5 * minute < ts then Inl TooFarInFuture
       else if ts < now - 30 * 24 * hour then Inl TooOld
       else Inr ts)"

definition parse_value :: "string \<Rightarrow> string \<Rightarrow> parse_error + float64" where
  "parse_value metric field = (case parse_float (trim_space field) of
     None \<Rightarrow> Inl (NonNumericValue field)
   | Some v \<Rightarrow>
       if is_nan v \<or> is_inf v then Inl (NonNumericValue field)
       else (case metric_ranges metric of
          Some (lo, hi) \<Rightarrow> if flt v lo \<or> flt hi v then Inl (ValueOutOfRange v lo hi) else Inr v
        | None \<Rightarrow> Inr v))"

text \<open>The fields of a body that splits into five parts, checked in the order of the source.\<close>

definition parse_fields ::
  "string \<Rightarrow> string \<Rightarrow> string \<times> string \<times> string \<times> string \<times> string \<Rightarrow> instant
   \<Rightarrow> parse_error + telemetry" where
  "parse_fields body checksum parts now = (let (f0, f1, f2, f3, f4) = parts;
       metric = trim_space f2; unit = trim_space f4 in
     case validate_device_id f0 of Inl e \<Rightarrow> Inl e | Inr _ \<Rightarrow>
     (case parse_ts f1 now of Inl e \<Rightarrow> Inl e | Inr ts \<Rightarrow>
     (if \<not> known_metric metric then Inl (UnknownMetric metric)
      else (case parse_value metric f3 of Inl e \<Rightarrow> Inl e | Inr v \<Rightarrow>
        (let expected = checksum_hex body in
         if to_upper checksum \<noteq> expected then Inl (ChecksumMismatch checksum expected)
         else Inr \<lparr>tm_device = f0, tm_ts = ts, tm_metric = metric, tm_value = v,
                   tm_unit = unit, tm_checksum = expected\<rparr>)))))"

definition parse_message :: "string \<Rightarrow> instant \<Rightarrow> parse_error + telemetry" where
  "parse_message raw now =
     (if trim_space raw = [] then Inl EmptyRaw
      else if 4096 < length raw then Inl RawTooLong
      else (case split_checksum raw of Inl e \<Rightarrow> Inl e | Inr (body, checksum) \<Rightarrow>
        (case split_on CHR ''|'' body of
           [f0, f1, f2, f3, f4] \<Rightarrow> parse_fields body checksum (f0, f1, f2, f3, f4) now
         | parts \<Rightarrow> Inl (FieldCount (length parts)))))"

section \<open>Building\<close>

definition message_body :: "string \<Rightarrow> int \<Rightarrow> instant \<Rightarrow> string \<Rightarrow> float64 \<Rightarrow> string \<Rightarrow> string" where
  "message_body device zone ts metric v unit =
     device @ CHR ''|'' # format_rfc3339 zone ts @ CHR ''|'' # metric @ CHR ''|'' # format_f v
     @ CHR ''|'' # unit"

definition build_message :: "string \<Rightarrow> int \<Rightarrow> instant \<Rightarrow> string \<Rightarrow> float64 \<Rightarrow> string \<Rightarrow> string" where
  "build_message device zone ts metric v unit =
     (let body = message_body device zone ts metric v unit in
      body @ CHR ''|'' # checksum_hex body)"

section \<open>What the builder prints\<close>

definition text_byte :: "char \<Rightarrow> bool" where
  "text_byte c \<longleftrightarrow> is_digit c \<or> c \<in> set ''-:TZ+.''"

lemma text_byte_plain: "text_byte c \<Longrightarrow> c \<noteq> CHR ''|'' \<and> \<not> ws_byte c"
  by (auto simp: text_byte_def is_digit_def ws_byte_def)

lemma digit_text_byte [simp]: "is_digit c \<Longrightarrow> text_byte c"
  by (simp add: text_byte_def)

lemma digits_of_text: "c \<in> set (digits_of n) \<Longrightarrow> text_byte c"
  using digits_of_all_digits by simp

lemma text_byte_marks [simp]:
  "text_byte CHR ''0''" "text_byte CHR ''-''" "text_byte CHR '':''" "text_byte CHR ''T''"
  "text_byte CHR ''Z''" "text_byte CHR ''+''" "text_byte CHR ''.''"
  by (simp_all add: text_byte_def is_digit_def)

lemma pad2_text: "list_all text_byte (pad2 n)"
  by (simp add: pad2_def list_all_iff digits_of_text)

lemma fmt_year_text: "list_all text_byte (fmt_year y)"
  by (auto simp: fmt_year_def pad4_def list_all_iff digits_of_text)

lemma fmt_zone_text: "list_all text_byte (fmt_zone off)"
  by (simp add: fmt_zone_def Let_def pad2_text)

lemma format_rfc3339_text: "c \<in> set (format_rfc3339 off t) \<Longrightarrow> text_byte c"
proof -
  have "list_all text_byte (format_rfc3339 off t)"
    by (simp add: format_rfc3339_def Let_def fmt_year_text pad2_text fmt_zone_text
        del: One_nat_def split: prod.split)
  then show "c \<in> set (format_rfc3339 off t) \<Longrightarrow> text_byte c" by (simp add: list_all_iff)
qed

lemma fmt_parts_text:
  assumes "list_all text_byte ds"
  shows "list_all text_byte (fmt_int ds dp)" and "list_all text_byte (fmt_frac ds dp)"
  using assms by (auto simp: fmt_int_def fmt_frac_def list_all_iff dest: in_set_takeD in_set_dropD)

lemma dot_frac_text: "list_all text_byte f \<Longrightarrow> list_all text_byte (dot_frac f)"
  by (simp add: dot_frac_def)

lemma format_f_text: "c \<in> set (format_f (FFin neg k)) \<Longrightarrow> text_byte c"
proof -
  have ds: "list_all text_byte (digits_of d)" for d by (simp add: list_all_iff digits_of_text)
  have "list_all text_byte (format_f (FFin neg k))"
    by (simp add: Let_def sign_str_def fmt_parts_text dot_frac_text ds split: prod.split)
  then show "c \<in> set (format_f (FFin neg k)) \<Longrightarrow> text_byte c" by (simp add: list_all_iff)
qed

lemma fmt_int_nonempty: "ds \<noteq> [] \<Longrightarrow> fmt_int ds dp \<noteq> []"
  by (simp add: fmt_int_def)

lemma format_f_nonempty: "format_f (FFin neg k) \<noteq> []"
  by (simp add: Let_def fmt_int_nonempty split: prod.split)

lemma known_metric_cases:
  assumes "metric_ranges metric = Some r"
  obtains "metric = ''temperature''" | "metric = ''humidity''" | "metric = ''pressure''"
    | "metric = ''voltage''" | "metric = ''current''" | "metric = ''wind_speed''"
  using assms by (auto simp: metric_ranges_def split: if_splits)

lemma known_metric_plain:
  "metric_ranges metric = Some r \<Longrightarrow> CHR ''|'' \<notin> set metric \<and> trim_space metric = metric"
  by (erule known_metric_cases) (simp_all add: trim_space_id ws_byte_def)

lemma hex_upper_char_facts:
  assumes "d < 16"
  shows "is_hex (hex_upper_char d)" and "upper_byte (hex_upper_char d) = hex_upper_char d"
    and "hex_upper_char d \<noteq> CHR ''|''" and "hex_val (hex_upper_char d) = d"
proof -
  have b: "byte_val (hex_upper_char d) = (if d < 10 then 48 + d else 55 + d)"
    using assms by (simp add: hex_upper_char_def)
  show "is_hex (hex_upper_char d)"
    using assms by (simp add: is_hex_def is_digit_def b)
  show "upper_byte (hex_upper_char d) = hex_upper_char d"
    using assms by (simp add: upper_byte_def b)
  show "hex_val (hex_upper_char d) = d"
    using assms by (simp add: hex_val_def b)
  have "byte_val (hex_upper_char d) \<noteq> byte_val CHR ''|''"
    using assms by (simp add: b)
  then show "hex_upper_char d \<noteq> CHR ''|''" by metis
qed

lemma unat_16_less: "unat (w :: 16 word) < 65536"
proof -
  have "unat w < 2 ^ LENGTH(16)" by (rule unsigned_less)
  then show ?thesis by simp
qed

lemma hex4_digits:
  assumes "c \<in> set (hex4 w)"
  shows "\<exists>d < 16. c = hex_upper_char d"
proof -
  have "unat w div 4096 < 16" using unat_16_less[of w] by simp
  moreover have "n mod 16 < 16" for n :: nat by simp
  moreover have "c = hex_upper_char (unat w div 4096) \<or> c = hex_upper_char (unat w div 256 mod 16)
      \<or> c = hex_upper_char (unat w div 16 mod 16) \<or> c = hex_upper_char (unat w mod 16)"
    using assms by (simp add: hex4_def Let_def)
  ultimately show ?thesis by blast
qed

lemma nibbles_value: "((n div 4096 * 16 + n div 256 mod 16) * 16 + n div 16 mod 16) * 16 + n mod 16 = n"
  for n :: nat
proof -
  have "n div 256 = n div 16 div 16" "n div 4096 = n div 16 div 16 div 16"
    by (simp_all flip: div_mult2_eq)
  then show ?thesis by (simp only: div_mult_mod_eq)
qed

lemma hex4_inject:
  assumes "hex4 v = hex4 w"
  shows "v = w"
proof -
  have val: "unat u = ((hex_val (hex4 u ! 0) * 16 + hex_val (hex4 u ! 1)) * 16
      + hex_val (hex4 u ! 2)) * 16 + hex_val (hex4 u ! 3)" for u :: "16 word"
  proof -
    have "unat u div 4096 < 16" using unat_16_less[of u] by simp
    then have "hex_val (hex4 u ! 0) = unat u div 4096" "hex_val (hex4 u ! 1) = unat u div 256 mod 16"
      "hex_val (hex4 u ! 2) = unat u div 16 mod 16" "hex_val (hex4 u ! 3) = unat u mod 16"
      by (simp_all add: hex4_def Let_def hex_upper_char_facts)
    then show ?thesis by (simp only: nibbles_value)
  qed
  have "unat v = unat w" by (subst (1 2) val) (simp only: assms)
  then show ?thesis by (simp only: word_unat_eq_iff)
qed

lemma checksum_hex_facts:
  shows "length (checksum_hex body) = 4" and "CHR ''|'' \<notin> set (checksum_hex body)"
    and "hex_decodable (checksum_hex body)" and "to_upper (checksum_hex body) = checksum_hex body"
proof -
  show len: "length (checksum_hex body) = 4" by (simp add: checksum_hex_def hex4_def Let_def)
  show "CHR ''|'' \<notin> set (checksum_hex body)"
    unfolding checksum_hex_def by (metis hex4_digits hex_upper_char_facts(3))
  show "hex_decodable (checksum_hex body)"
    using hex4_digits[of _ "crc16 body"] hex_upper_char_facts(1) len
    by (fastforce simp: hex_decodable_def checksum_hex_def)
  show "to_upper (checksum_hex body) = checksum_hex body"
    unfolding to_upper_def checksum_hex_def
    by (rule map_idI) (metis hex4_digits hex_upper_char_facts(2))
qed

section \<open>The checksum as an error-detecting code\<close>

text \<open>
  The register update is linear over exclusive or, and injective because the polynomial has its
  lowest coefficient set.
\<close>

lemma crc_bit_top: "crc_bit x = (if bit x 15 then push_bit 1 x XOR 0x1021 else push_bit 1 x)"
proof -
  have m: "(0x8000 :: 16 word) = 2 ^ 15" by simp
  have "x AND 0x8000 \<noteq> 0 \<longleftrightarrow> bit x 15"
    unfolding m and_exp_eq_0_iff_not_bit by (rule not_not)
  then show ?thesis by (simp only: crc_bit_def)
qed

lemma word_xor_left_self: "z XOR (z XOR x) = x" for x z :: "16 word"
  by (simp flip: xor.assoc)

lemma word_xor_right_self: "(x XOR z) XOR z = x" for x z :: "16 word"
  by (simp add: xor.assoc)

lemma word_xor_cancel: "x XOR y = 0 \<Longrightarrow> x = y" for x y :: "16 word"
  using word_xor_right_self[of x y] by simp

lemma word_xor_common: "(x XOR a) XOR (x XOR b) = a XOR b" for a b x :: "16 word"
  by (simp only: xor.assoc xor.left_commute word_xor_left_self)

lemma word_xor_move:
  fixes a b c d :: "16 word"
  assumes "a XOR c = b XOR d"
  shows "a XOR b = c XOR d"
proof -
  have "a XOR b = (a XOR c) XOR (c XOR b)" by (simp only: xor.assoc word_xor_left_self)
  also have "\<dots> = d XOR c" by (simp only: assms xor.commute[of c b] word_xor_common xor.assoc[of b]
      xor.left_commute[of d b] word_xor_left_self)
  finally show ?thesis by (simp only: xor.commute)
qed

lemma word_xor_right_cancel: "x XOR z = y XOR z \<Longrightarrow> x = y" for x y z :: "16 word"
  by (drule arg_cong[of _ _ "\<lambda>w. w XOR z"]) (simp only: word_xor_right_self)

lemma word_xor_left_cancel: "z XOR x = z XOR y \<Longrightarrow> x = y" for x y z :: "16 word"
  by (drule arg_cong[of _ _ "\<lambda>w. z XOR w"]) (simp only: word_xor_left_self)

lemma crc_bit_xor: "crc_bit (x XOR y) = crc_bit x XOR crc_bit y"
  unfolding crc_bit_top bit_xor_iff push_bit_xor
  by (cases "bit x 15"; cases "bit y 15")
     (simp_all only: if_True if_False simp_thms xor.assoc xor.commute xor.left_commute
        word_xor_left_self xor_self_eq xor.right_neutral xor.left_neutral)

lemma crc_bit_zero: "crc_bit x = 0 \<Longrightarrow> x = 0"
proof (rule ccontr)
  assume z: "crc_bit x = 0" and "x \<noteq> 0"
  show False
  proof (cases "bit x 15")
    case True
    have "\<not> bit (push_bit 1 x) 0" "bit (0x1021 :: 16 word) 0"
      by (simp only: bit_push_bit_iff) (simp, simp add: bit_0)
    with True have "bit (crc_bit x) 0" by (simp only: crc_bit_top if_True bit_xor_iff simp_thms)
    with z show False by simp
  next
    case False
    with z have "push_bit 1 x = 0" by (simp only: crc_bit_top if_False)
    then have "\<not> bit (push_bit 1 x) (Suc n)" for n by (simp only: bit_0_eq bot_apply bot_bool_def not_False_eq_True)
    then have up: "\<not> bit x n" if "n < 15" for n
      using that by (simp only: bit_push_bit_iff) (simp add: possible_bit_def)
    have "\<not> bit x n" for n
      using up[of n] False bit_imp_le_length[of x n] by (cases "n < 15"; cases "n = 15") auto
    with \<open>x \<noteq> 0\<close> show False by (simp add: bit_eq_iff)
  qed
qed

abbreviation crc_step8 :: "16 word \<Rightarrow> 16 word" where
  "crc_step8 \<equiv> crc_bit ^^ 8"

lemma crc_pow_xor: "(crc_bit ^^ n) (x XOR y) = (crc_bit ^^ n) x XOR (crc_bit ^^ n) y"
  by (induction n) (simp_all add: crc_bit_xor)

lemma crc_pow_zero: "(crc_bit ^^ n) x = 0 \<Longrightarrow> x = 0"
  by (induction n) (auto dest: crc_bit_zero)

lemma crc_pow_inject: "(crc_bit ^^ n) x = (crc_bit ^^ n) y \<Longrightarrow> x = y"
  by (metis crc_pow_xor crc_pow_zero xor_self_eq word_xor_cancel)

lemma crc_byte_inject:
  assumes "crc_byte x c = crc_byte y c"
  shows "x = y"
  using crc_pow_inject[OF assms[unfolded crc_byte_def]] by (rule word_xor_right_cancel)

lemma crc_fold_inject: "foldl crc_byte x cs = foldl crc_byte y cs \<Longrightarrow> x = y"
  by (induction cs arbitrary: x y) (auto dest: crc_byte_inject)

lemma crc_pow_small:
  assumes "\<And>i. 8 \<le> i \<Longrightarrow> \<not> bit x i" and "n \<le> 8"
  shows "(crc_bit ^^ n) x = push_bit n x"
  using assms(2)
proof (induction n)
  case (Suc n)
  have "\<not> bit (push_bit n x) 15"
    using assms(1)[of "15 - n"] Suc.prems by (simp add: bit_simps)
  with Suc show ?case by (simp add: crc_bit_top push_bit_push_bit)
qed simp

lemma byte_word_bits: "8 \<le> i \<Longrightarrow> \<not> bit (of_char c :: 16 word) i"
proof
  assume i: "8 \<le> i" and b: "bit (of_char c :: 16 word) i"
  have "(of_char c :: 16 word) = of_nat (byte_val c)" by (rule of_nat_of_char[symmetric])
  with b have "bit (byte_val c) i" by (simp add: bit_simps)
  moreover have "byte_val c < 2 ^ i"
  proof -
    have "byte_val c < 2 ^ 8" using nat_of_char_less_256[of c] by simp
    also have "(2::nat) ^ 8 \<le> 2 ^ i" using i by (rule power_increasing) simp
    finally show ?thesis .
  qed
  ultimately show False by (simp add: bit_iff_odd)
qed

lemma byte_word_inject: "(of_char c :: 16 word) = of_char d \<Longrightarrow> c = d"
proof -
  assume eq: "(of_char c :: 16 word) = of_char d"
  have "unat (of_char e :: 16 word) = byte_val e" for e :: char
  proof -
    have "(of_char e :: 16 word) = of_nat (byte_val e)" by (rule of_nat_of_char[symmetric])
    moreover have "byte_val e < 2 ^ LENGTH(16)"
      using nat_of_char_less_256[of e] by (rule less_trans) simp
    ultimately show ?thesis by (simp only: unsigned_of_nat take_bit_nat_eq_self of_nat_id)
  qed
  then have "byte_val c = byte_val d" using eq by metis
  then show "c = d" by simp
qed

text \<open>
  Two neighbouring bytes fill the 16-bit register, so any change confined to them changes the
  checksum.
\<close>

lemma crc_two_bytes:
  assumes eq: "crc_byte (crc_byte x c1) c2 = crc_byte (crc_byte x d1) d2"
  shows "c1 = d1 \<and> c2 = d2"
proof -
  define e where "e = (of_char c1 XOR of_char d1 :: 16 word)"
  define f where "f = (of_char c2 XOR of_char d2 :: 16 word)"
  let ?A = "(crc_bit ^^ 8) (x XOR push_bit 8 (of_char c1))"
  let ?B = "(crc_bit ^^ 8) (x XOR push_bit 8 (of_char d1))"
  have small: "8 \<le> i \<Longrightarrow> \<not> bit e i" "8 \<le> i \<Longrightarrow> \<not> bit f i" for i
    by (simp_all only: e_def f_def bit_xor_iff byte_word_bits simp_thms)
  have "?A XOR push_bit 8 (of_char c2) = ?B XOR push_bit 8 (of_char d2)"
    using eq unfolding crc_byte_def by (rule crc_pow_inject)
  then have "?A XOR ?B = push_bit 8 (of_char c2) XOR push_bit 8 (of_char d2)"
    by (rule word_xor_move)
  moreover have "?A XOR ?B = (crc_bit ^^ 8) (push_bit 8 e)"
    unfolding e_def push_bit_xor crc_pow_xor[symmetric] word_xor_common ..
  moreover have "push_bit 8 (of_char c2) XOR push_bit 8 (of_char d2) = (crc_bit ^^ 8) f"
  proof -
    have "(crc_bit ^^ 8) f = push_bit 8 f" by (rule crc_pow_small[OF small(2)]) simp_all
    then show ?thesis by (simp only: f_def push_bit_xor)
  qed
  ultimately have ef: "push_bit 8 e = f" by (metis crc_pow_inject)
  have "\<not> bit e i" for i
  proof (cases "i < 8")
    case True
    then have "\<not> bit (push_bit 8 e) (i + 8)" using small(2)[of "i + 8"] by (simp only: ef) simp
    with True show ?thesis by (simp only: bit_push_bit_iff) (simp add: possible_bit_def)
  next
    case False
    then show ?thesis using small(1) by simp
  qed
  then have e0: "e = 0" by (simp add: bit_eq_iff)
  with ef have f0: "f = 0" by simp
  from e0 f0 show ?thesis unfolding e_def f_def
    by (blast dest: word_xor_cancel byte_word_inject)
qed

lemma checksum_hex_two_bytes:
  assumes "(c1, c2) \<noteq> (d1, d2)"
  shows "checksum_hex (p @ [c1, c2] @ q) \<noteq> checksum_hex (p @ [d1, d2] @ q)"
proof
  assume "checksum_hex (p @ [c1, c2] @ q) = checksum_hex (p @ [d1, d2] @ q)"
  then have "crc16 (p @ [c1, c2] @ q) = crc16 (p @ [d1, d2] @ q)"
    unfolding checksum_hex_def by (rule hex4_inject)
  then have "crc_byte (crc_byte (foldl crc_byte 0xFFFF p) c1) c2
      = crc_byte (crc_byte (foldl crc_byte 0xFFFF p) d1) d2"
    unfolding crc16_def by (simp add: crc_fold_inject)
  then show False using crc_two_bytes assms by blast
qed

section \<open>The accepted messages\<close>

lemma split_checksum_Inr:
  "split_checksum raw = Inr (body, cs) \<longleftrightarrow>
     raw = body @ CHR ''|'' # cs \<and> CHR ''|'' \<notin> set cs \<and> cs \<noteq> [] \<and> hex_decodable (to_upper cs)"
proof
  assume s: "split_checksum raw = Inr (body, cs)"
  then obtain i where i: "last_index_of CHR ''|'' raw = Some i"
    and b: "body = take i raw" and c: "cs = drop (Suc i) raw" and "cs \<noteq> []" "hex_decodable (to_upper cs)"
    by (auto simp: split_checksum_def Let_def split: option.splits if_splits)
  moreover have "raw = body @ CHR ''|'' # cs" "CHR ''|'' \<notin> set cs"
    using last_index_of_SomeD[OF i] id_take_nth_drop[of i raw] by (auto simp: b c)
  ultimately show "raw = body @ CHR ''|'' # cs \<and> CHR ''|'' \<notin> set cs \<and> cs \<noteq> []
      \<and> hex_decodable (to_upper cs)" by blast
next
  assume "raw = body @ CHR ''|'' # cs \<and> CHR ''|'' \<notin> set cs \<and> cs \<noteq> [] \<and> hex_decodable (to_upper cs)"
  then show "split_checksum raw = Inr (body, cs)"
    by (simp add: split_checksum_def last_index_of_append)
qed

lemma check_id_chars_Inr: "check_id_chars s = Inr u \<longleftrightarrow> list_all id_char s"
  by (induction s) auto

lemma validate_device_id_Inr:
  "validate_device_id s = Inr u \<longleftrightarrow> 8 \<le> length s \<and> length s \<le> 32 \<and> list_all id_char s"
  by (auto simp: validate_device_id_def check_id_chars_Inr)

lemma parse_ts_Inr:
  "parse_ts s now = Inr ts \<longleftrightarrow> (\<exists>off. parse_rfc3339 s = Some (ts, off))
     \<and> now - 30 * 24 * hour \<le> ts \<and> ts \<le> now + 5 * minute"
  by (auto simp: parse_ts_def split: option.splits)

lemma parse_value_Inr:
  assumes "metric_ranges metric = Some (lo, hi)"
  shows "parse_value metric s = Inr v \<longleftrightarrow>
    parse_float (trim_space s) = Some v \<and> is_finite v \<and> \<not> flt v lo \<and> \<not> flt hi v"
  using assms by (cases v) (auto simp: parse_value_def is_nan_def is_inf_def is_finite_def split: option.splits)

lemma parse_fields_Inr:
  "parse_fields body cs (f0, f1, f2, f3, f4) now = Inr t \<longleftrightarrow>
     (\<exists>ts lo hi v. validate_device_id f0 = Inr () \<and> parse_ts f1 now = Inr ts
       \<and> metric_ranges (trim_space f2) = Some (lo, hi) \<and> parse_value (trim_space f2) f3 = Inr v
       \<and> to_upper cs = checksum_hex body
       \<and> t = \<lparr>tm_device = f0, tm_ts = ts, tm_metric = trim_space f2, tm_value = v,
              tm_unit = trim_space f4, tm_checksum = checksum_hex body\<rparr>)"
  by (auto simp: parse_fields_def Let_def known_metric_def split: sum.splits if_splits)

lemma split_five:
  "split_on CHR ''|'' body = [f0, f1, f2, f3, f4] \<longleftrightarrow>
     body = join_with ''|'' [f0, f1, f2, f3, f4]
     \<and> (\<forall>f \<in> {f0, f1, f2, f3, f4}. CHR ''|'' \<notin> set f)"
proof
  assume s: "split_on CHR ''|'' body = [f0, f1, f2, f3, f4]"
  then have "join_with ''|'' [f0, f1, f2, f3, f4] = body" by (rule split_on_join)
  moreover have "\<forall>f \<in> set (split_on CHR ''|'' body). CHR ''|'' \<notin> set f"
    using split_on_parts_clean by fast
  ultimately show "body = join_with ''|'' [f0, f1, f2, f3, f4]
     \<and> (\<forall>f \<in> {f0, f1, f2, f3, f4}. CHR ''|'' \<notin> set f)" using s by auto
next
  assume "body = join_with ''|'' [f0, f1, f2, f3, f4]
     \<and> (\<forall>f \<in> {f0, f1, f2, f3, f4}. CHR ''|'' \<notin> set f)"
  then show "split_on CHR ''|'' body = [f0, f1, f2, f3, f4]"
    by (simp add: split_on_cons split_on_no_sep)
qed

lemma five_fields_dest:
  "(case xs of [f0, f1, f2, f3, f4] \<Rightarrow> g f0 f1 f2 f3 f4 
     | parts \<Rightarrow> Inl (FieldCount (length parts))) = Inr t \<longleftrightarrow>
     (\<exists>f0 f1 f2 f3 f4. xs = [f0, f1, f2, f3, f4] \<and> g f0 f1 f2 f3 f4 = Inr t)"
  by (auto split: list.splits)

lemma parse_message_split:
  "parse_message raw now = Inr t \<longleftrightarrow>
     length raw \<le> 4096 \<and>
     (\<exists>body cs f0 f1 f2 f3 f4. split_checksum raw = Inr (body, cs)
        \<and> split_on CHR ''|'' body = [f0, f1, f2, f3, f4]
        \<and> parse_fields body cs (f0, f1, f2, f3, f4) now = Inr t)"
proof -
  have bar: "split_checksum raw = Inr (body, cs) \<Longrightarrow> trim_space raw \<noteq> []" for body cs
    by (rule trim_space_nonempty[of "CHR ''|''"]) (auto simp: split_checksum_Inr ws_byte_def)
  show ?thesis
    unfolding parse_message_def
    by (auto simp: five_fields_dest not_less dest: bar split: sum.splits if_splits)
qed

lemma parse_message_Inr:
  "parse_message raw now = Inr t \<longleftrightarrow>
     (\<exists>f0 f1 f2 f3 f4 cs ts off lo hi v. raw = join_with ''|'' [f0, f1, f2, f3, f4, cs]
        \<and> (\<forall>f \<in> {f0, f1, f2, f3, f4, cs}. CHR ''|'' \<notin> set f)
        \<and> length raw \<le> 4096
        \<and> 8 \<le> length f0 \<and> length f0 \<le> 32 \<and> list_all id_char f0
        \<and> parse_rfc3339 f1 = Some (ts, off)
        \<and> now - 30 * 24 * hour \<le> ts \<and> ts \<le> now + 5 * minute
        \<and> metric_ranges (trim_space f2) = Some (lo, hi)
        \<and> parse_float (trim_space f3) = Some v \<and> is_finite v \<and> \<not> flt v lo \<and> \<not> flt hi v
        \<and> to_upper cs = checksum_hex (join_with ''|'' [f0, f1, f2, f3, f4])
        \<and> t = \<lparr>tm_device = f0, tm_ts = ts, tm_metric = trim_space f2, tm_value = v,
               tm_unit = trim_space f4,
               tm_checksum = checksum_hex (join_with ''|'' [f0, f1, f2, f3, f4])\<rparr>)"
  (is "_ \<longleftrightarrow> ?rhs")
proof
  assume "parse_message raw now = Inr t"
  then show ?rhs
    by (clarsimp simp: parse_message_split split_checksum_Inr split_five parse_fields_Inr
        validate_device_id_Inr parse_ts_Inr parse_value_Inr) blast
next
  assume ?rhs
  then obtain f0 f1 f2 f3 f4 cs ts off lo hi v where
    raw: "raw = join_with ''|'' [f0, f1, f2, f3, f4] @ CHR ''|'' # cs" "length raw \<le> 4096"
    and bars: "\<forall>f \<in> {f0, f1, f2, f3, f4}. CHR ''|'' \<notin> set f" "CHR ''|'' \<notin> set cs"
    and ident: "8 \<le> length f0" "length f0 \<le> 32" "list_all id_char f0"
    and ts: "parse_rfc3339 f1 = Some (ts, off)" "now - 30 * 24 * hour \<le> ts" "ts \<le> now + 5 * minute"
    and m: "metric_ranges (trim_space f2) = Some (lo, hi)"
    and v: "parse_float (trim_space f3) = Some v" "is_finite v" "\<not> flt v lo" "\<not> flt hi v"
    and cs: "to_upper cs = checksum_hex (join_with ''|'' [f0, f1, f2, f3, f4])"
    and t: "t = \<lparr>tm_device = f0, tm_ts = ts, tm_metric = trim_space f2, tm_value = v,
               tm_unit = trim_space f4,
               tm_checksum = checksum_hex (join_with ''|'' [f0, f1, f2, f3, f4])\<rparr>"
    by auto
  have "hex_decodable (to_upper cs)" "cs \<noteq> []"
    using checksum_hex_facts(1,3)[of "join_with ''|'' [f0, f1, f2, f3, f4]"] cs
      length_to_upper[of cs] by auto
  with raw bars have "split_checksum raw = Inr (join_with ''|'' [f0, f1, f2, f3, f4], cs)"
    by (simp only: split_checksum_Inr) blast
  moreover have "split_on CHR ''|'' (join_with ''|'' [f0, f1, f2, f3, f4]) = [f0, f1, f2, f3, f4]"
    using bars(1) by (simp only: split_five)
  moreover have "parse_fields (join_with ''|'' [f0, f1, f2, f3, f4]) cs (f0, f1, f2, f3, f4) now = Inr t"
    using ident ts m v cs t parse_value_Inr[OF m, of f3 v]
    by (simp only: parse_fields_Inr validate_device_id_Inr parse_ts_Inr) blast
  ultimately show "parse_message raw now = Inr t"
    using raw(2) by (simp only: parse_message_split) blast
qed

lemma parse_build:
  assumes "8 \<le> length device" "length device \<le> 32" "list_all id_char device"
    and "60 dvd zone" "\<bar>zone\<bar> < 86400"
    and "civil_from_days ((ts div second + zone) div 86400) = (y, mo, d)" "0 \<le> y" "y \<le> 9999"
    and "now - 30 * 24 * hour \<le> ts div second * second" "ts div second * second \<le> now + 5 * minute"
    and "metric_ranges metric = Some (lo, hi)"
    and "float_ok (FFin neg k)" "\<not> flt (FFin neg k) lo" "\<not> flt hi (FFin neg k)"
    and "CHR ''|'' \<notin> set unit"
    and "length (build_message device zone ts metric (FFin neg k) unit) \<le> 4096"
  shows "parse_message (build_message device zone ts metric (FFin neg k) unit) now
    = Inr \<lparr>tm_device = device, tm_ts = ts div second * second, tm_metric = metric,
           tm_value = FFin neg k, tm_unit = trim_space unit,
           tm_checksum = checksum_hex (message_body device zone ts metric (FFin neg k) unit)\<rparr>"
proof -
  have body: "message_body device zone ts metric (FFin neg k) unit
      = join_with ''|'' [device, format_rfc3339 zone ts, metric, format_f (FFin neg k), unit]"
    by (simp add: message_body_def)
  have raw: "build_message device zone ts metric (FFin neg k) unit
      = join_with ''|'' [device, format_rfc3339 zone ts, metric, format_f (FFin neg k), unit,
          checksum_hex (message_body device zone ts metric (FFin neg k) unit)]"
    by (simp add: build_message_def message_body_def)
  have dev: "CHR ''|'' \<notin> set device" using assms(3) by (auto simp: list_all_iff id_char_def)
  have time: "CHR ''|'' \<notin> set (format_rfc3339 zone ts)"
    using format_rfc3339_text text_byte_plain by blast
  have met: "CHR ''|'' \<notin> set metric" using known_metric_plain assms(11) by blast
  have num: "CHR ''|'' \<notin> set (format_f (FFin neg k))"
    using format_f_text text_byte_plain by blast
  have trims: "trim_space (format_f (FFin neg k)) = format_f (FFin neg k)" "trim_space metric = metric"
    using format_f_nonempty format_f_text text_byte_plain known_metric_plain assms(11)
    by (blast intro: trim_space_graphic)+
  have "\<forall>f \<in> {device, format_rfc3339 zone ts, metric, format_f (FFin neg k), unit,
      checksum_hex (message_body device zone ts metric (FFin neg k) unit)}. CHR ''|'' \<notin> set f"
    using dev time met num assms(15) checksum_hex_facts(2) by blast
  moreover have "is_finite (FFin neg k)" by (simp add: is_finite_def)
  ultimately show ?thesis
    unfolding parse_message_Inr body[symmetric]
    using assms raw trims checksum_hex_facts(4) parse_format_rfc3339[OF assms(4-8)]
      parse_float_format_f[OF assms(12)]
    by (metis (no_types, lifting) body)
qed

section \<open>Properties\<close>

text \<open>C1. Acceptance: \<^verbatim>\<open>ParseMessage\<close> returns a telemetry exactly for the messages of at most 4096
  bytes that are six bar-free fields joined by bars, whose device id has 8 to 32 characters of
  A--Z, 0--9 and the hyphen, whose time stamp reads as RFC 3339 and lies between thirty days ago and
  five minutes ahead, whose trimmed metric is whitelisted, whose trimmed value reads as a finite
  number within the range of the metric (bounds included), and whose checksum is, up to case, the
  CRC of everything before the last bar; and then the telemetry holds these fields.\<close>

theorem parse_message_accepts_iff:
  "parse_message raw now = Inr t \<longleftrightarrow>
     (\<exists>f0 f1 f2 f3 f4 cs ts off lo hi v. raw = join_with ''|'' [f0, f1, f2, f3, f4, cs]
        \<and> CHR ''|'' \<notin> set (f0 @ f1 @ f2 @ f3 @ f4 @ cs)
        \<and> length raw \<le> 4096
        \<and> 8 \<le> length f0 \<and> length f0 \<le> 32 \<and> list_all id_char f0
        \<and> parse_rfc3339 f1 = Some (ts, off)
        \<and> now - 30 * 24 * hour \<le> ts \<and> ts \<le> now + 5 * minute
        \<and> metric_ranges (trim_space f2) = Some (lo, hi)
        \<and> parse_float (trim_space f3) = Some v \<and> is_finite v \<and> \<not> flt v lo \<and> \<not> flt hi v
        \<and> to_upper cs = checksum_hex (join_with ''|'' [f0, f1, f2, f3, f4])
        \<and> t = \<lparr>tm_device = f0, tm_ts = ts, tm_metric = trim_space f2, tm_value = v,
               tm_unit = trim_space f4,
               tm_checksum = checksum_hex (join_with ''|'' [f0, f1, f2, f3, f4])\<rparr>)"
  unfolding parse_message_Inr by simp

text \<open>C2. Round trip: what \<^verbatim>\<open>BuildMessage\<close> prints, \<^verbatim>\<open>ParseMessage\<close> reads back, with the time stamp
  cut to whole seconds (RFC 3339 without a fraction), the unit trimmed and the checksum set.\<close>

theorem build_parse_roundtrip:
  assumes "8 \<le> length device" "length device \<le> 32" "list_all id_char device"
    and "60 dvd zone" "\<bar>zone\<bar> < 86400"
    and "civil_from_days ((ts div second + zone) div 86400) = (y, mo, d)" "0 \<le> y" "y \<le> 9999"
    and "now - 30 * 24 * hour \<le> ts div second * second" "ts div second * second \<le> now + 5 * minute"
    and "metric_ranges metric = Some (lo, hi)"
    and "float_ok (FFin neg k)" "\<not> flt (FFin neg k) lo" "\<not> flt hi (FFin neg k)"
    and "CHR ''|'' \<notin> set unit"
    and "length (build_message device zone ts metric (FFin neg k) unit) \<le> 4096"
  shows "parse_message (build_message device zone ts metric (FFin neg k) unit) now
    = Inr \<lparr>tm_device = device, tm_ts = ts div second * second, tm_metric = metric,
           tm_value = FFin neg k, tm_unit = trim_space unit,
           tm_checksum = checksum_hex (message_body device zone ts metric (FFin neg k) unit)\<rparr>"
  using assms by (rule parse_build)

lemma epoch_civil: "civil_from_days ((0 div second + 0) div 86400) = (1970, 1, 1)"
  by code_simp

lemma epoch_length: "length (format_rfc3339 0 0) = 20"
  using epoch_civil
  by (simp add: format_rfc3339_def fmt_year_def pad4_def pad2_def digits_of.simps fmt_zone_def second_def)

lemma zero_temperature:
  shows "metric_ranges ''temperature'' = Some (of_int64 (- 60), of_int64 120)"
    and "\<not> flt (FFin False 0) (of_int64 (- 60))" and "\<not> flt (of_int64 120) (FFin False 0)"
    and "float_ok (FFin False 0)"
proof -
  show "metric_ranges ''temperature'' = Some (of_int64 (- 60), of_int64 120)"
    by (simp add: metric_ranges_def)
  have "of_int64 (- 60) = FFin True (60 * unit_scale)" "of_int64 120 = FFin False (120 * unit_scale)"
    by (simp_all add: of_int64_def of_ratio_int del: One_nat_def)
  then show "\<not> flt (FFin False 0) (of_int64 (- 60))" "\<not> flt (of_int64 120) (FFin False 0)"
    by simp_all
  have "float_ok (of_ratio False 0 1)" by (rule of_ratio_ok)
  then show "float_ok (FFin False 0)" using of_ratio_int[of 0 False] by simp
qed

theorem build_parse_roundtrip_witness:
  "parse_message (build_message ''DEVICE01'' 0 0 ''temperature'' (FFin False 0) ''C'') 0
    = Inr \<lparr>tm_device = ''DEVICE01'', tm_ts = 0, tm_metric = ''temperature'',
           tm_value = FFin False 0, tm_unit = trim_space ''C'',
           tm_checksum = checksum_hex (message_body ''DEVICE01'' 0 0 ''temperature'' (FFin False 0) ''C'')\<rparr>"
proof -
  have len: "length (build_message ''DEVICE01'' 0 0 ''temperature'' (FFin False 0) ''C'') \<le> 4096"
    by (simp add: build_message_def message_body_def checksum_hex_facts epoch_length sign_str_def)
  have ident: "list_all id_char ''DEVICE01''" by code_simp
  show ?thesis
    using build_parse_roundtrip[of "''DEVICE01''" 0 0 1970 1 1 0 "''temperature''" "of_int64 (- 60)"
        "of_int64 120" False 0 "''C''"]
    by (simp only: len ident epoch_civil zero_temperature) (simp add: duration_defs)
qed


text \<open>The checksum is compared without regard to case: writing its hexadecimal digits in another
  case changes neither acceptance nor the telemetry.\<close>

theorem parse_message_checksum_case:
  assumes "to_upper cs = to_upper cs'" and "CHR ''|'' \<notin> set cs" and "CHR ''|'' \<notin> set cs'"
  shows "parse_message (body @ CHR ''|'' # cs) now = Inr t
    \<longleftrightarrow> parse_message (body @ CHR ''|'' # cs') now = Inr t"
proof -
  have len: "length cs = length cs'" using assms(1) by (metis length_to_upper)
  have split: "split_checksum (body @ CHR ''|'' # x) = Inr (b, y) \<longleftrightarrow>
      b = body \<and> y = x \<and> x \<noteq> [] \<and> hex_decodable (to_upper x)" if "CHR ''|'' \<notin> set x" for x b y
    using that by (auto simp: split_checksum_def last_index_of_append)
  have "x \<noteq> [] \<longleftrightarrow> length x \<noteq> 0" for x :: string by simp
  with len have "cs \<noteq> [] \<longleftrightarrow> cs' \<noteq> []" by metis
  then show ?thesis
    unfolding parse_message_split
    by (simp add: split assms len parse_fields_Inr)
qed

text \<open>A message built at the epoch, and the same message with another last byte of its unit.\<close>

lemma epoch_message_accepted:
  "parse_message (build_message ''DEVICE01'' 0 0 ''temperature'' (FFin False 0) ''CC'') 0
    = Inr \<lparr>tm_device = ''DEVICE01'', tm_ts = 0 div second * second, tm_metric = ''temperature'',
           tm_value = FFin False 0, tm_unit = trim_space ''CC'',
           tm_checksum = checksum_hex (message_body ''DEVICE01'' 0 0 ''temperature'' (FFin False 0) ''CC'')\<rparr>"
proof (rule parse_build[OF _ _ _ _ _ epoch_civil _ _ _ _ zero_temperature(1,4,2,3)])
  show "length (build_message ''DEVICE01'' 0 0 ''temperature'' (FFin False 0) ''CC'') \<le> 4096"
    by (simp add: build_message_def message_body_def checksum_hex_facts epoch_length sign_str_def)
  show "list_all id_char ''DEVICE01''" by code_simp
qed (simp_all add: duration_defs)

lemma epoch_message_shape:
  "build_message ''DEVICE01'' 0 0 ''temperature'' (FFin False 0) ''CC''
    = (''DEVICE01|'' @ format_rfc3339 0 0 @ ''|temperature|0|'') @ [CHR ''C'', CHR ''C''] @ [] @ CHR ''|''
        # checksum_hex (message_body ''DEVICE01'' 0 0 ''temperature'' (FFin False 0) ''CC'')"
  by (simp add: build_message_def message_body_def sign_str_def)


lemma lower_checksum:
  "to_upper (checksum_hex b) = to_upper (map lower_byte (checksum_hex b))"
  "CHR ''|'' \<notin> set (map lower_byte (checksum_hex b))"
proof -
  have up: "upper_byte c = upper_byte (lower_byte c)" for c
    by (simp add: upper_byte_def lower_byte_def)
  then show "to_upper (checksum_hex b) = to_upper (map lower_byte (checksum_hex b))"
    by (simp add: to_upper_def)
  have "lower_byte c \<noteq> CHR ''|''" if "c \<noteq> CHR ''|''" for c
  proof
    assume l: "lower_byte c = CHR ''|''"
    then have b: "byte_val (lower_byte c) = 124" by simp
    show False
    proof (cases "65 \<le> byte_val c \<and> byte_val c \<le> 90")
      case True
      then have "byte_val (lower_byte c) = byte_val c + 32" by (simp add: lower_byte_def)
      with b True show False by linarith
    next
      case False
      then have "lower_byte c = c" by (simp only: lower_byte_def if_False)
      with l that show False by simp
    qed
  qed
  then show "CHR ''|'' \<notin> set (map lower_byte (checksum_hex b))"
    using checksum_hex_facts(2)[of b] by (metis (no_types, lifting) image_iff list.set_map)
qed

theorem parse_message_checksum_case_witness:
  "parse_message (message_body ''DEVICE01'' 0 0 ''temperature'' (FFin False 0) ''CC'' @ CHR ''|'' #
      map lower_byte (checksum_hex (message_body ''DEVICE01'' 0 0 ''temperature'' (FFin False 0) ''CC''))) 0
    = Inr \<lparr>tm_device = ''DEVICE01'', tm_ts = 0 div second * second, tm_metric = ''temperature'',
           tm_value = FFin False 0, tm_unit = trim_space ''CC'',
           tm_checksum = checksum_hex (message_body ''DEVICE01'' 0 0 ''temperature'' (FFin False 0) ''CC'')\<rparr>"
  using epoch_message_accepted unfolding build_message_def Let_def
  by (rule parse_message_checksum_case[OF lower_checksum(1) checksum_hex_facts(2) lower_checksum(2),
        THEN iffD1])

end
