(* ===== verification/Store.thy ===== *)
theory Store
  imports Database Router Parser
begin

text \<open>
  \<^verbatim>\<open>internal/store\<close>: the statements of the PostgreSQL store, one definition per SQL statement, on
  the tables of \<open>Database\<close>.  \<^verbatim>\<open>PGStore\<close> and \<^verbatim>\<open>txStore\<close> run the same statements, on the connection
  or inside a transaction; the transaction is \<open>in_tx\<close>.  Rows that compare equal under an
  \<^verbatim>\<open>ORDER BY\<close> come in table order, where SQL leaves the order open.
\<close>

section \<open>Devices\<close>

definition insert_device :: "device \<Rightarrow> unit statement" where
  "insert_device d db =
     (if has_key dv_id (dv_id d) (db_devices db) then (Inl (UniqueViolation ''device_pkey''), db)
      else (Inr (), db\<lparr>db_devices := db_devices db @
        [d\<lparr>dv_last_seen := None, dv_created := db_stamp db (dv_created d),
           dv_updated := db_stamp db (dv_updated d)\<rparr>]\<rparr>))"

definition get_device :: "string \<Rightarrow> device option statement" where
  "get_device ident db = (Inr (find_row dv_id ident (db_devices db)), db)"

definition list_devices :: "device list statement" where
  "list_devices db = (Inr (sort_key (\<lambda>d. - dv_created d) (db_devices db)), db)"

definition set_status :: "string \<Rightarrow> device_status \<Rightarrow> instant \<Rightarrow> unit statement" where
  "set_status ident status at db = (Inr (), db\<lparr>db_devices := update_rows dv_id ident
     (\<lambda>d. d\<lparr>dv_status := status, dv_updated := db_stamp db at\<rparr>) (db_devices db)\<rparr>)"

definition touch_seen :: "string \<Rightarrow> instant \<Rightarrow> unit statement" where
  "touch_seen ident at db = (Inr (), db\<lparr>db_devices := update_rows dv_id ident
     (\<lambda>d. d\<lparr>dv_last_seen := Some (db_stamp db at), dv_updated := db_stamp db at\<rparr>) (db_devices db)\<rparr>)"

section \<open>Raw messages\<close>

definition insert_raw :: "raw_message \<Rightarrow> int statement" where
  "insert_raw m db0 = (let ident = db_seq_raw db0; db = db0\<lparr>db_seq_raw := ident + 1\<rparr> in
     if has_key rm_dedup_key (rm_dedup_key m) (db_raws db) then
       (Inl (UniqueViolation ''raw_message_dedup_key_idx''), db)
     else if \<not> has_key dv_id (rm_device m) (db_devices db) then
       (Inl (ForeignKeyViolation ''raw_message_device_id_fkey''), db)
     else (Inr ident, db\<lparr>db_raws := db_raws db @
       [m\<lparr>rm_id := ident, rm_received_at := db_stamp db (rm_received_at m)\<rparr>]\<rparr>))"

definition find_raw_by_dedup :: "string \<Rightarrow> raw_message option statement" where
  "find_raw_by_dedup key db = (Inr (find_row rm_dedup_key key (db_raws db)), db)"

section \<open>Events\<close>

definition create_event :: "event \<Rightarrow> int statement" where
  "create_event e db0 = (let ident = db_seq_event db0; db = db0\<lparr>db_seq_event := ident + 1\<rparr> in
     if has_key ev_event_id (ev_event_id e) (db_events db) then
       (Inl (UniqueViolation ''event_event_id_key''), db)
     else if \<not> has_key dv_id (ev_device e) (db_devices db) then
       (Inl (ForeignKeyViolation ''event_device_id_fkey''), db)
     else (Inr ident, db\<lparr>db_events := db_events db @
       [e\<lparr>ev_id := ident, ev_ts := db_stamp db (ev_ts e),
          ev_parsed_at := db_stamp db (ev_parsed_at e)\<rparr>]\<rparr>))"

definition get_event_by_id :: "string \<Rightarrow> event option statement" where
  "get_event_by_id ident db = (Inr (find_row ev_event_id ident (db_events db)), db)"

definition update_event_status :: "string \<Rightarrow> event_status \<Rightarrow> unit statement" where
  "update_event_status ident status db = (Inr (), db\<lparr>db_events :=
     update_rows ev_event_id ident (\<lambda>e. e\<lparr>ev_status := status\<rparr>) (db_events db)\<rparr>)"

record event_filter =
  ef_device :: string
  ef_metric :: string
  ef_from :: "instant option"
  ef_to :: "instant option"
  ef_status :: string
  ef_page :: int
  ef_size :: int

text \<open>The \<^verbatim>\<open>WHERE\<close> clause \<^verbatim>\<open>queryEvents\<close> puts together from the filters that are set.\<close>

definition event_selected :: "(instant \<Rightarrow> instant) \<Rightarrow> event_filter \<Rightarrow> event \<Rightarrow> bool" where
  "event_selected stamp f e \<longleftrightarrow>
     (if ef_device f \<noteq> [] then ev_device e = ef_device f else True)
     \<and> (if ef_metric f \<noteq> [] then ev_metric e = ef_metric f else True)
     \<and> (if ef_status f \<noteq> [] then event_status_text (ev_status e) = ef_status f else True)
     \<and> (case ef_from f of None \<Rightarrow> True | Some t \<Rightarrow> stamp t \<le> ev_ts e)
     \<and> (case ef_to f of None \<Rightarrow> True | Some t \<Rightarrow> ev_ts e \<le> stamp t)"

definition count_events :: "event_filter \<Rightarrow> int statement" where
  "count_events f db = (Inr (int (length (filter (event_selected (db_stamp db) f) (db_events db)))), db)"

text \<open>\<^verbatim>\<open>(f.Page - 1) * f.Size\<close> is 64-bit arithmetic; the server refuses a negative offset.\<close>

definition select_events :: "event_filter \<Rightarrow> int \<Rightarrow> int \<Rightarrow> event list statement" where
  "select_events f limit offset db =
     (if offset < 0 then (Inl NegativeOffset, db)
      else (Inr (take (nat limit) (drop (nat offset)
        (sort_key (\<lambda>e. - ev_ts e) (filter (event_selected (db_stamp db) f) (db_events db))))), db))"

definition effective_page :: "event_filter \<Rightarrow> int" where
  "effective_page f = (if ef_page f < 1 then 1 else ef_page f)"

definition effective_size :: "event_filter \<Rightarrow> int" where
  "effective_size f = (if ef_size f < 1 then 20 else ef_size f)"

definition query_events :: "event_filter \<Rightarrow> (event list \<times> int) statement" where
  "query_events f =
     andThen (exec (count_events f)) (\<lambda>total.
     andThen (exec (select_events f (effective_size f)
       (wrap64 (wrap64 (effective_page f - 1) * effective_size f)))) (\<lambda>out.
     ret (out, total)))"

section \<open>Rules and their change log\<close>

text \<open>
  A matcher goes through JSON with \<^verbatim>\<open>omitempty\<close> members: an empty metric list comes back nil.
\<close>

definition stored_matcher :: "matcher \<Rightarrow> matcher" where
  "stored_matcher m = (if mt_metrics m = Some [] then m\<lparr>mt_metrics := None\<rparr> else m)"

definition create_rule :: "route_rule \<Rightarrow> int statement" where
  "create_rule r db0 =
     (if \<not> int4 (rr_priority r) then (Inl IntegerOutOfRange, db0)
      else (let ident = db_seq_rule db0; db = db0\<lparr>db_seq_rule := ident + 1\<rparr> in
        if has_key rr_rule_id (rr_rule_id r) (db_rules db) then
          (Inl (UniqueViolation ''route_rule_rule_id_key''), db)
        else (Inr ident, db\<lparr>db_rules := db_rules db @
          [r\<lparr>rr_id := ident, rr_matcher := stored_matcher (rr_matcher r), rr_deleted_at := None,
             rr_created_at := db_stamp db (rr_created_at r),
             rr_updated_at := db_stamp db (rr_updated_at r)\<rparr>]\<rparr>)))"

definition get_rule :: "string \<Rightarrow> route_rule option statement" where
  "get_rule ident db = (Inr (find_row rr_rule_id ident (db_rules db)), db)"

definition update_rule :: "route_rule \<Rightarrow> unit statement" where
  "update_rule r db =
     (if \<not> int4 (rr_priority r) then (Inl IntegerOutOfRange, db)
      else (Inr (), db\<lparr>db_rules := update_rows rr_rule_id (rr_rule_id r)
        (\<lambda>old. old\<lparr>rr_name := rr_name r, rr_matcher := stored_matcher (rr_matcher r),
           rr_topic := rr_topic r, rr_priority := rr_priority r, rr_enabled := rr_enabled r,
           rr_updated_at := db_stamp db (rr_updated_at r)\<rparr>) (db_rules db)\<rparr>))"

definition soft_delete :: "string \<Rightarrow> instant \<Rightarrow> unit statement" where
  "soft_delete ident at db = (Inr (), db\<lparr>db_rules := update_rows rr_rule_id ident
     (\<lambda>r. r\<lparr>rr_deleted_at := Some (db_stamp db at), rr_enabled := False,
        rr_updated_at := db_stamp db at\<rparr>) (db_rules db)\<rparr>)"

text \<open>\<^verbatim>\<open>ORDER BY priority DESC, rule_id\<close>, the texts under the collation of the database.\<close>

definition list_rules :: "bool \<Rightarrow> route_rule list statement" where
  "list_rules include_deleted db =
     (Inr (sort_key (\<lambda>r. - rr_priority r) (sort_key (\<lambda>r. db_collate db (rr_rule_id r))
        (filter (\<lambda>r. include_deleted \<or> rr_deleted_at r = None) (db_rules db)))), db)"

definition changes_of_rule :: "string \<Rightarrow> change_log list statement" where
  "changes_of_rule ident db =
     (Inr (sort_key (\<lambda>c. - cl_changed_at c) (filter (\<lambda>c. cl_rule_id c = ident) (db_changes db))), db)"

definition append_change :: "change_log \<Rightarrow> unit statement" where
  "append_change c db0 = (let ident = db_seq_change db0; db = db0\<lparr>db_seq_change := ident + 1\<rparr> in
     if \<not> has_key rr_rule_id (cl_rule_id c) (db_rules db) then
       (Inl (ForeignKeyViolation ''route_rule_change_log_rule_id_fkey''), db)
     else (Inr (), db\<lparr>db_changes := db_changes db @
       [c\<lparr>cl_id := ident, cl_changed_at := db_stamp db (cl_changed_at c)\<rparr>]\<rparr>))"

section \<open>Deliveries\<close>

definition create_delivery :: "delivery \<Rightarrow> unit statement" where
  "create_delivery d db0 =
     (if \<not> int4 (dl_attempts d) then (Inl IntegerOutOfRange, db0)
      else (let ident = db_seq_delivery db0; db = db0\<lparr>db_seq_delivery := ident + 1\<rparr> in
        if \<not> has_key ev_event_id (dl_event_id d) (db_events db) then
          (Inl (ForeignKeyViolation ''delivery_record_event_id_fkey''), db)
        else if \<not> has_key rr_rule_id (dl_rule_id d) (db_rules db) then
          (Inl (ForeignKeyViolation ''delivery_record_rule_id_fkey''), db)
        else (Inr (), db\<lparr>db_deliveries := db_deliveries db @
          [d\<lparr>dl_id := ident, dl_next_retry_at := map_option (db_stamp db) (dl_next_retry_at d),
             dl_dispatched_at := map_option (db_stamp db) (dl_dispatched_at d)\<rparr>]\<rparr>)))"

definition pending_count :: "int statement" where
  "pending_count db =
     (Inr (int (length (filter (\<lambda>d. dl_status d = DeliveryPending) (db_deliveries db)))), db)"

definition is_due :: "(instant \<Rightarrow> instant) \<Rightarrow> instant \<Rightarrow> delivery \<Rightarrow> bool" where
  "is_due stamp now d \<longleftrightarrow> dl_status d \<in> {DeliveryPending, DeliveryFailed}
     \<and> (case dl_next_retry_at d of None \<Rightarrow> False | Some t \<Rightarrow> t \<le> stamp now)"

definition list_due_deliveries :: "instant \<Rightarrow> int \<Rightarrow> delivery list statement" where
  "list_due_deliveries now limit0 db = (let limit = (if limit0 \<le> 0 then 100 else limit0) in
     (Inr (take (nat limit) (sort_key (\<lambda>d. the (dl_next_retry_at d)) (sort_key dl_id
        (filter (is_due (db_stamp db) now) (db_deliveries db))))), db))"

definition list_deliveries_by_event :: "string \<Rightarrow> delivery list statement" where
  "list_deliveries_by_event ident db =
     (Inr (sort_key dl_id (filter (\<lambda>d. dl_event_id d = ident) (db_deliveries db))), db)"

text \<open>\<^verbatim>\<open>attempts + 1\<close> is computed by the server in the 32-bit type of the column.\<close>

definition mark_delivered :: "int \<Rightarrow> instant \<Rightarrow> unit statement" where
  "mark_delivered ident at db =
     (if list_ex (\<lambda>d. dl_id d = ident \<and> \<not> int4 (dl_attempts d + 1)) (db_deliveries db)
      then (Inl IntegerOutOfRange, db)
      else (Inr (), db\<lparr>db_deliveries := update_rows dl_id ident
        (\<lambda>d. d\<lparr>dl_status := DeliveryDispatched, dl_attempts := dl_attempts d + 1, dl_last_error := [],
           dl_next_retry_at := None, dl_dispatched_at := Some (db_stamp db at)\<rparr>) (db_deliveries db)\<rparr>))"

definition mark_failed :: "int \<Rightarrow> int \<Rightarrow> string \<Rightarrow> instant \<Rightarrow> unit statement" where
  "mark_failed ident attempt last_err next_retry db =
     (if \<not> int4 attempt then (Inl IntegerOutOfRange, db)
      else (Inr (), db\<lparr>db_deliveries := update_rows dl_id ident
        (\<lambda>d. d\<lparr>dl_status := DeliveryFailed, dl_attempts := attempt, dl_last_error := last_err,
           dl_next_retry_at := Some (db_stamp db next_retry)\<rparr>) (db_deliveries db)\<rparr>))"

definition mark_dead :: "int \<Rightarrow> string \<Rightarrow> instant \<Rightarrow> unit statement" where
  "mark_dead ident last_err at db = (Inr (), db\<lparr>db_deliveries := update_rows dl_id ident
     (\<lambda>d. d\<lparr>dl_status := DeliveryDead, dl_last_error := last_err, dl_next_retry_at := None,
        dl_dispatched_at := Some (db_stamp db at)\<rparr>) (db_deliveries db)\<rparr>)"

section \<open>Audit and counts\<close>

definition record_audit ::
  "string \<Rightarrow> audit_action \<Rightarrow> string \<Rightarrow> string \<Rightarrow> string \<Rightarrow> instant \<Rightarrow> unit statement" where
  "record_audit key_hash action operator remote path at db = (let ident = db_seq_audit db in
     (Inr (), db\<lparr>db_seq_audit := ident + 1, db_audits := db_audits db @
        [\<lparr>au_id = ident, au_key_hash = key_hash, au_action = action, au_operator = operator,
          au_remote = remote, au_path = path, au_at = db_stamp db at\<rparr>]\<rparr>))"

definition list_audit :: "int \<Rightarrow> api_key_audit list statement" where
  "list_audit limit0 db = (let limit = (if limit0 \<le> 0 then 50 else limit0) in
     (Inr (take (nat limit) (sort_key (\<lambda>a. - au_at a) (db_audits db))), db))"

definition device_count :: "int statement" where
  "device_count db = (Inr (int (length (db_devices db))), db)"

definition event_count :: "int statement" where
  "event_count db = (Inr (int (length (db_events db))), db)"

section \<open>The schema holds\<close>

definition serial_ok :: "('row \<Rightarrow> int) \<Rightarrow> int \<Rightarrow> 'row list \<Rightarrow> bool" where
  "serial_ok key seq rows \<longleftrightarrow> distinct (map key rows) \<and> (\<forall>r \<in> set rows. key r < seq)"

text \<open>
  What the constraints of the schema promise of the tables: unique keys, foreign keys, serial
  numbers below their sequence, 32-bit columns within their range.
\<close>

definition unique_keys :: "database \<Rightarrow> bool" where
  "unique_keys db \<longleftrightarrow> distinct (map dv_id (db_devices db)) \<and> distinct (map rm_dedup_key (db_raws db))
     \<and> distinct (map ev_event_id (db_events db)) \<and> distinct (map rr_rule_id (db_rules db))"

definition foreign_keys :: "database \<Rightarrow> bool" where
  "foreign_keys db \<longleftrightarrow> rm_device ` set (db_raws db) \<subseteq> dv_id ` set (db_devices db)
     \<and> ev_device ` set (db_events db) \<subseteq> dv_id ` set (db_devices db)
     \<and> cl_rule_id ` set (db_changes db) \<subseteq> rr_rule_id ` set (db_rules db)
     \<and> dl_event_id ` set (db_deliveries db) \<subseteq> ev_event_id ` set (db_events db)
     \<and> dl_rule_id ` set (db_deliveries db) \<subseteq> rr_rule_id ` set (db_rules db)"

definition serials :: "database \<Rightarrow> bool" where
  "serials db \<longleftrightarrow> serial_ok rm_id (db_seq_raw db) (db_raws db)
     \<and> serial_ok ev_id (db_seq_event db) (db_events db)
     \<and> serial_ok rr_id (db_seq_rule db) (db_rules db)
     \<and> serial_ok cl_id (db_seq_change db) (db_changes db)
     \<and> serial_ok dl_id (db_seq_delivery db) (db_deliveries db)
     \<and> serial_ok au_id (db_seq_audit db) (db_audits db)"

definition ranges :: "database \<Rightarrow> bool" where
  "ranges db \<longleftrightarrow> (\<forall>r \<in> set (db_rules db). int4 (rr_priority r))
     \<and> (\<forall>d \<in> set (db_deliveries db). int4 (dl_attempts d))"

definition schema_ok :: "database \<Rightarrow> bool" where
  "schema_ok db \<longleftrightarrow> unique_keys db \<and> foreign_keys db \<and> serials db \<and> ranges db"

definition seqs_grow :: "database \<Rightarrow> database \<Rightarrow> bool" where
  "seqs_grow s t \<longleftrightarrow> db_seq_raw s \<le> db_seq_raw t \<and> db_seq_event s \<le> db_seq_event t
     \<and> db_seq_rule s \<le> db_seq_rule t \<and> db_seq_change s \<le> db_seq_change t
     \<and> db_seq_delivery s \<le> db_seq_delivery t \<and> db_seq_audit s \<le> db_seq_audit t"

definition schema_step :: "database \<Rightarrow> database \<Rightarrow> bool" where
  "schema_step s t \<longleftrightarrow> seqs_grow s t \<and> (schema_ok s \<longrightarrow> schema_ok t)"

lemmas schema_defs = schema_ok_def unique_keys_def foreign_keys_def serials_def ranges_def

lemma serial_ok_mono: "serial_ok key s rows \<Longrightarrow> s \<le> t \<Longrightarrow> serial_ok key t rows"
  by (auto simp: serial_ok_def)

lemma serial_ok_append [simp]:
  "serial_ok key (s + 1) (rows @ [r]) \<longleftrightarrow>
     distinct (map key rows) \<and> key r \<notin> key ` set rows \<and> (\<forall>q \<in> set rows. key q \<le> s) \<and> key r \<le> s"
  by (auto simp: serial_ok_def)

lemma serial_okD: "serial_ok key s rows \<Longrightarrow>
    distinct (map key rows) \<and> s \<notin> key ` set rows \<and> (\<forall>q \<in> set rows. key q \<le> s)"
  by (auto simp: serial_ok_def)

lemma map_update_rows: "(\<And>r. g (f r) = g r) \<Longrightarrow> map g (update_rows key k f rows) = map g rows"
  by (auto simp: update_rows_def)

lemma image_update_rows: "(\<And>r. g (f r) = g r) \<Longrightarrow> g ` set (update_rows key k f rows) = g ` set rows"
  by (metis map_update_rows list.set_map)

lemma serial_ok_update [simp]:
  assumes "\<And>r. g (f r) = g r"
  shows "serial_ok g s (update_rows key k f rows) = serial_ok g s rows"
proof -
  have alt: "serial_ok g s xs \<longleftrightarrow> distinct (map g xs) \<and> (\<forall>i \<in> set (map g xs). i < s)" for xs
    by (auto simp: serial_ok_def)
  show ?thesis unfolding alt map_update_rows[of g f, OF assms] ..
qed

lemma in_update_rowsD:
  "r \<in> set (update_rows key k f rows) \<Longrightarrow> \<exists>q \<in> set rows. r = q \<or> (key q = k \<and> r = f q)"
  by (auto simp: update_rows_def split: if_splits)

lemmas update_simps = map_update_rows image_update_rows

lemma schema_ok_roll_back:
  assumes "seqs_grow s t" and "schema_ok s"
  shows "schema_ok (roll_back s t)"
proof -
  have "serials (roll_back s t)"
    using assms unfolding serials_def schema_ok_def roll_back_def seqs_grow_def
    by (intro conjI; simp) (blast intro: serial_ok_mono)+
  then show ?thesis
    using assms(2) by (simp add: schema_ok_def unique_keys_def foreign_keys_def ranges_def roll_back_def)
qed

interpretation schema: db_relation schema_step
proof
  fix s t u db p
  show "schema_step s s" by (simp add: schema_step_def seqs_grow_def)
  show "schema_step s t \<Longrightarrow> schema_step t u \<Longrightarrow> schema_step s u"
    by (auto simp: schema_step_def seqs_grow_def)
  show "schema_step db (db\<lparr>db_plan := p\<rparr>)"
    by (simp add: schema_step_def seqs_grow_def schema_defs)
  show "schema_step s t \<Longrightarrow> schema_step s (roll_back s t)"
    by (simp add: schema_step_def schema_ok_roll_back) (simp add: seqs_grow_def roll_back_def)
qed

text \<open>Reading statements leave the database as it is.\<close>

definition reads_only :: "'a statement \<Rightarrow> bool" where
  "reads_only st \<longleftrightarrow> (\<forall>db. snd (st db) = db)"

lemma reading_statements:
  "reads_only (get_device i)" "reads_only list_devices" "reads_only (find_raw_by_dedup k)"
  "reads_only (get_event_by_id i)" "reads_only (count_events f)" "reads_only (select_events f l n)"
  "reads_only (get_rule i)" "reads_only (list_rules b)" "reads_only (changes_of_rule i)"
  "reads_only pending_count" "reads_only (list_due_deliveries t l)"
  "reads_only (list_deliveries_by_event i)" "reads_only (list_audit l)" "reads_only device_count"
  "reads_only event_count"
  by (simp_all add: reads_only_def get_device_def list_devices_def find_raw_by_dedup_def
      get_event_by_id_def count_events_def select_events_def get_rule_def list_rules_def
      changes_of_rule_def pending_count_def list_due_deliveries_def list_deliveries_by_event_def
      list_audit_def device_count_def event_count_def Let_def)

lemma schema_stepI: "seqs_grow s t \<Longrightarrow> (schema_ok s \<Longrightarrow> schema_ok t) \<Longrightarrow> schema_step s t"
  by (simp add: schema_step_def)

lemma schema_insert_device: "keeps schema_step (insert_device d)"
  by (rule keepsI, rule schema_stepI)
     (auto simp: insert_device_def seqs_grow_def schema_defs has_key_iff split: if_splits)

lemma schema_set_status: "keeps schema_step (set_status i st at)"
  by (rule keepsI, rule schema_stepI)
     (auto simp: set_status_def seqs_grow_def schema_defs update_simps)

lemma schema_touch_seen: "keeps schema_step (touch_seen i at)"
  by (rule keepsI, rule schema_stepI)
     (auto simp: touch_seen_def seqs_grow_def schema_defs update_simps)

lemma schema_insert_raw: "keeps schema_step (insert_raw m)"
  by (rule keepsI, rule schema_stepI)
     (auto simp: insert_raw_def seqs_grow_def schema_defs Let_def has_key_iff
       dest: serial_okD elim!: serial_ok_mono split: if_splits)

lemma schema_create_event: "keeps schema_step (create_event e)"
  by (rule keepsI, rule schema_stepI)
     (auto simp: create_event_def seqs_grow_def schema_defs Let_def has_key_iff
       dest: serial_okD elim!: serial_ok_mono split: if_splits)

lemma schema_update_event_status: "keeps schema_step (update_event_status i st)"
  by (rule keepsI, rule schema_stepI)
     (auto simp: update_event_status_def seqs_grow_def schema_defs update_simps)

lemma schema_create_rule: "keeps schema_step (create_rule r)"
  by (rule keepsI, rule schema_stepI)
     (auto simp: create_rule_def seqs_grow_def schema_defs Let_def has_key_iff
       dest: serial_okD elim!: serial_ok_mono split: if_splits)

lemma schema_update_rule: "keeps schema_step (update_rule r)"
  by (rule keepsI, rule schema_stepI)
     (auto simp: update_rule_def seqs_grow_def schema_defs update_simps dest!: in_update_rowsD split: if_splits)

lemma schema_soft_delete: "keeps schema_step (soft_delete i at)"
  by (rule keepsI, rule schema_stepI)
     (auto simp: soft_delete_def seqs_grow_def schema_defs update_simps dest!: in_update_rowsD)

lemma schema_append_change: "keeps schema_step (append_change c)"
  by (rule keepsI, rule schema_stepI)
     (auto simp: append_change_def seqs_grow_def schema_defs Let_def has_key_iff
       dest: serial_okD elim!: serial_ok_mono split: if_splits)

lemma schema_create_delivery: "keeps schema_step (create_delivery d)"
  by (rule keepsI, rule schema_stepI)
     (auto simp: create_delivery_def seqs_grow_def schema_defs Let_def has_key_iff
       dest: serial_okD elim!: serial_ok_mono split: if_splits)

lemma schema_mark_failed: "keeps schema_step (mark_failed i n e at)"
  by (rule keepsI, rule schema_stepI)
     (auto simp: mark_failed_def seqs_grow_def schema_defs update_simps dest!: in_update_rowsD split: if_splits)

lemma schema_mark_dead: "keeps schema_step (mark_dead i e at)"
  by (rule keepsI, rule schema_stepI)
     (auto simp: mark_dead_def seqs_grow_def schema_defs update_simps dest!: in_update_rowsD)

lemma schema_mark_delivered: "keeps schema_step (mark_delivered i at)"
  by (rule keepsI, rule schema_stepI)
     (auto simp: mark_delivered_def seqs_grow_def schema_defs update_simps list_ex_iff
       dest!: in_update_rowsD split: if_splits)

lemma schema_record_audit: "keeps schema_step (record_audit h a op r p at)"
  by (rule keepsI, rule schema_stepI)
     (auto simp: record_audit_def seqs_grow_def schema_defs Let_def dest: serial_okD)

section \<open>The contract of the store\<close>

text \<open>The devices the service registers: their ids match \<^verbatim>\<open>deviceIDRe\<close>, and they have a name and a version.\<close>

definition device_id_re :: "string \<Rightarrow> bool" where
  "device_id_re s \<longleftrightarrow> 8 \<le> length s \<and> length s \<le> 32 \<and> list_all id_char s"

definition device_typed :: "device \<Rightarrow> bool" where
  "device_typed d \<longleftrightarrow> device_id_re (dv_id d) \<and> dv_name d \<noteq> [] \<and> dv_protocol d \<noteq> []"

text \<open>
  What a client of the store relies on when it reasons about a relation between states: every
  writing statement it calls keeps it.  There is one contract per group of statements: the devices and
  the audit, the creation of (pending) deliveries, the intake of messages, the marks of the worker,
  the administration of the rules; clients that call several groups combine them.  The use cases
  are proved to keep such a relation once, for all.
\<close>

locale registry_relation = db_relation +
  assumes keeps_insert_device: "device_typed d \<Longrightarrow> keeps R (insert_device d)"
    and keeps_set_status: "keeps R (set_status i st at)"
    and keeps_touch_seen: "keeps R (touch_seen i at)"
    and keeps_record_audit: "keeps R (record_audit h a op rm p at)"
begin

lemma keeps_reads: "reads_only st \<Longrightarrow> keeps R st"
  by (simp add: keeps_def reads_only_def R_refl)

lemmas keeps_registry = keeps_insert_device keeps_set_status keeps_touch_seen keeps_record_audit
  keeps_reads[OF reading_statements(1)] keeps_reads[OF reading_statements(2)]
  keeps_reads[OF reading_statements(3)] keeps_reads[OF reading_statements(4)]
  keeps_reads[OF reading_statements(5)] keeps_reads[OF reading_statements(6)]
  keeps_reads[OF reading_statements(7)] keeps_reads[OF reading_statements(8)]
  keeps_reads[OF reading_statements(9)] keeps_reads[OF reading_statements(10)]
  keeps_reads[OF reading_statements(11)] keeps_reads[OF reading_statements(12)]
  keeps_reads[OF reading_statements(13)] keeps_reads[OF reading_statements(14)]
  keeps_reads[OF reading_statements(15)]

lemma keeps_query_events: "keeps R (query_events f)"
  unfolding query_events_def by (intro keeps_db_rules keeps_registry)

end

locale queue_relation = registry_relation +
  assumes keeps_create_delivery: "dl_status dl = DeliveryPending \<Longrightarrow> dl_attempts dl = 0 \<Longrightarrow> keeps R (create_delivery dl)"

locale intake_relation = queue_relation +
  assumes keeps_insert_raw: "keeps R (insert_raw m)"
    and keeps_create_event: "keeps R (create_event e)"

locale work_relation = registry_relation +
  assumes keeps_update_event_status: "keeps R (update_event_status i es)"
    and keeps_mark_failed: "keeps R (mark_failed n k le at)"
    and keeps_mark_dead: "keeps R (mark_dead n le at)"
    and keeps_mark_delivered: "keeps R (mark_delivered n at)"
begin

lemmas keeps_work = keeps_registry keeps_update_event_status keeps_mark_failed keeps_mark_dead
  keeps_mark_delivered

end

locale rules_relation = registry_relation +
  assumes keeps_create_rule: "keeps R (create_rule r)"
    and keeps_update_rule: "keeps R (update_rule r)"
    and keeps_soft_delete: "keeps R (soft_delete i at)"
    and keeps_append_change: "keeps R (append_change c)"
begin

lemmas keeps_rule_statements = keeps_registry keeps_create_rule keeps_update_rule keeps_soft_delete
  keeps_append_change

end

text \<open>Everything a request other than telemetry does, everything a request does, and the traffic.\<close>

locale steady_relation = queue_relation R + rules_relation R for R

locale request_relation = intake_relation R + rules_relation R for R

sublocale request_relation \<subseteq> steady_relation
  by unfold_locales

locale traffic_relation = intake_relation R + work_relation R for R

locale store_relation = traffic_relation R + rules_relation R for R

sublocale store_relation \<subseteq> request_relation
  by unfold_locales

lemmas writing_defs = insert_device_def set_status_def touch_seen_def insert_raw_def create_event_def
  update_event_status_def create_rule_def update_rule_def soft_delete_def append_change_def
  create_delivery_def mark_failed_def mark_dead_def mark_delivered_def record_audit_def

interpretation schema: store_relation schema_step
  by unfold_locales (rule schema_insert_device schema_set_status schema_touch_seen schema_insert_raw
    schema_create_event schema_update_event_status schema_create_rule schema_update_rule
    schema_soft_delete schema_append_change schema_create_delivery schema_mark_failed
    schema_mark_dead schema_mark_delivered schema_record_audit)+

interpretation server: store_relation same_server
  by unfold_locales (rule keepsI, auto simp: same_server_def writing_defs Let_def split: if_splits)+

section \<open>History is append-only\<close>

text \<open>
  The parts of a row that no statement ever changes.  Rows are only appended; raw messages, change
  log and audit are never touched again at all.
\<close>

definition device_core :: "device \<Rightarrow> string \<times> string \<times> string \<times> (string \<times> json) list option \<times> instant" where
  "device_core d = (dv_id d, dv_name d, dv_protocol d, dv_metadata d, dv_created d)"

definition event_core :: "event \<Rightarrow> event" where
  "event_core e = e\<lparr>ev_status := EventCreated\<rparr>"

definition rule_core :: "route_rule \<Rightarrow> int \<times> string \<times> instant" where
  "rule_core r = (rr_id r, rr_rule_id r, rr_created_at r)"

definition delivery_core :: "delivery \<Rightarrow> int \<times> string \<times> string \<times> string" where
  "delivery_core d = (dl_id d, dl_event_id d, dl_rule_id d, dl_topic d)"

definition history :: "database \<Rightarrow> database \<Rightarrow> bool" where
  "history s t \<longleftrightarrow>
     prefix (map device_core (db_devices s)) (map device_core (db_devices t))
     \<and> prefix (db_raws s) (db_raws t)
     \<and> prefix (map event_core (db_events s)) (map event_core (db_events t))
     \<and> prefix (map rule_core (db_rules s)) (map rule_core (db_rules t))
     \<and> prefix (db_changes s) (db_changes t)
     \<and> prefix (map delivery_core (db_deliveries s)) (map delivery_core (db_deliveries t))
     \<and> prefix (db_audits s) (db_audits t)"

lemmas core_defs = device_core_def event_core_def rule_core_def delivery_core_def

lemma history_trans: "history s t \<Longrightarrow> history t u \<Longrightarrow> history s u"
  unfolding history_def by (meson prefix_order.trans)

interpretation history: store_relation history
proof unfold_locales
  show "history s t \<Longrightarrow> history t u \<Longrightarrow> history s u" for s t u by (rule history_trans)
qed (simp add: history_def roll_back_def; fail
  | rule keepsI, auto simp: history_def core_defs map_update_rows writing_defs Let_def split: if_splits)+

interpretation plan: store_relation plan_shrinks
  by unfold_locales (rule keepsI, auto simp: plan_shrinks_def writing_defs Let_def split: if_splits)+

text \<open>The traffic never touches the rules or their change log.\<close>

definition same_rules :: "database \<Rightarrow> database \<Rightarrow> bool" where
  "same_rules s t \<longleftrightarrow> db_rules t = db_rules s \<and> db_changes t = db_changes s"

interpretation rule_frame: traffic_relation same_rules
  by unfold_locales (auto simp: same_rules_def roll_back_def keeps_def insert_device_def set_status_def
    touch_seen_def insert_raw_def create_event_def update_event_status_def create_delivery_def
    mark_failed_def mark_dead_def mark_delivered_def record_audit_def Let_def)

section \<open>Pages of events and due deliveries\<close>

definition selected_events :: "event_filter \<Rightarrow> database \<Rightarrow> event list" where
  "selected_events f db = sort_key (\<lambda>e. - ev_ts e) (filter (event_selected (db_stamp db) f) (db_events db))"

lemma selected_page [simp]: "selected_events (f\<lparr>ef_page := p\<rparr>) db = selected_events f db"
proof -
  have "event_selected s (f\<lparr>ef_page := p\<rparr>) = event_selected s f" for s
    by (simp add: fun_eq_iff event_selected_def)
  then show ?thesis by (simp add: selected_events_def)
qed

lemma query_events_fault_free:
  assumes plan: "db_plan db = []" and p: "1 \<le> ef_page f" and n: "1 \<le> ef_size f"
    and fits: "ef_page f * ef_size f \<le> max_int64"
  shows "query_events f db = (Inr (take (nat (ef_size f)) (drop (nat ((ef_page f - 1) * ef_size f))
      (selected_events f db)), int (length (selected_events f db))), db)"
proof -
  have pos: "\<not> (ef_page f - 1) * ef_size f < 0" using p n by (simp add: not_less)
  have "(ef_page f - 1) * ef_size f \<le> ef_page f * ef_size f" using n by (intro mult_right_mono) auto
  then have le: "(ef_page f - 1) * ef_size f \<le> max_int64" using fits by simp
  have "ef_page f * 1 \<le> ef_page f * ef_size f" using p n by (intro mult_left_mono) auto
  then have "ef_page f \<le> max_int64" using fits by simp
  then have w1: "wrap64 (ef_page f - 1) = ef_page f - 1"
    using p by (intro wrap64_id) (auto simp: min_int64_def)
  have w2: "wrap64 ((ef_page f - 1) * ef_size f) = (ef_page f - 1) * ef_size f"
    using pos le by (intro wrap64_id) (auto simp: min_int64_def)
  have "length (selected_events f db) = length (filter (event_selected (db_stamp db) f) (db_events db))"
    by (simp add: selected_events_def)
  then show ?thesis
    using plan p n pos
    by (simp add: query_events_def andThen_def exec_fault_free count_events_def select_events_def
        effective_page_def effective_size_def w1 w2 ret_def selected_events_def)
qed

lemma pages_concat:
  "concat (map (\<lambda>p. take n (drop (p * n) xs)) [0..<k]) = take (k * n) xs"
proof (induction k)
  case (Suc k)
  have "take (k * n + n) xs = take (k * n) xs @ take n (drop (k * n) xs)" by (rule take_add)
  with Suc show ?case by (simp add: add.commute)
qed simp




end
