(* ===== verification/GoSha256.thy ===== *)
theory GoSha256
  imports GoBytes
begin

unbundle bit_operations_syntax

text \<open>
  \<^verbatim>\<open>sha256.Sum256\<close> (FIPS 180-4) on 32-bit words and \<^verbatim>\<open>hex.EncodeToString\<close>.  The program
  hashes API keys and the text a deduplication key is derived from.
\<close>

type_synonym u32 = "32 word"

text \<open>
  The constants are the first 32 bits of the fractional parts of the cube roots (round constants)
  and square roots (initial state) of the first primes; \<open>root_from k b n r\<close> finds the integer
  \<open>k\<close>-th root of \<open>n\<close> bit by bit.
\<close>

fun root_from :: "nat \<Rightarrow> nat \<Rightarrow> int \<Rightarrow> int \<Rightarrow> int" where
  "root_from k 0 n r = r"
| "root_from k (Suc b) n r = root_from k b n (if (r + 2 ^ b) ^ k \<le> n then r + 2 ^ b else r)"

definition small_primes :: "int list" where
  "small_primes = filter (\<lambda>p. \<forall>d \<in> set [2 .. 17]. d < p \<longrightarrow> p mod d \<noteq> 0) [2 .. 311]"

definition sha_k :: "u32 list" where
  "sha_k = map (\<lambda>p. of_int (root_from 3 36 (p * 2 ^ 96) 0)) small_primes"

definition sha_init :: "u32 list" where
  "sha_init = map (\<lambda>p. of_int (root_from 2 36 (p * 2 ^ 64) 0)) [2, 3, 5, 7, 11, 13, 17, 19]"

definition rotr :: "nat \<Rightarrow> u32 \<Rightarrow> u32" where
  "rotr n x = drop_bit n x OR push_bit (32 - n) x"

definition big_sigma0 :: "u32 \<Rightarrow> u32" where
  "big_sigma0 x = rotr 2 x XOR rotr 13 x XOR rotr 22 x"

definition big_sigma1 :: "u32 \<Rightarrow> u32" where
  "big_sigma1 x = rotr 6 x XOR rotr 11 x XOR rotr 25 x"

definition small_sigma0 :: "u32 \<Rightarrow> u32" where
  "small_sigma0 x = rotr 7 x XOR rotr 18 x XOR drop_bit 3 x"

definition small_sigma1 :: "u32 \<Rightarrow> u32" where
  "small_sigma1 x = rotr 17 x XOR rotr 19 x XOR drop_bit 10 x"

definition sha_ch :: "u32 \<Rightarrow> u32 \<Rightarrow> u32 \<Rightarrow> u32" where
  "sha_ch x y z = (x AND y) XOR (NOT x AND z)"

definition sha_maj :: "u32 \<Rightarrow> u32 \<Rightarrow> u32 \<Rightarrow> u32" where
  "sha_maj x y z = (x AND y) XOR (x AND z) XOR (y AND z)"

text \<open>Padding to whole blocks of 64 bytes, and the sixteen big-endian words of a block.\<close>

fun be_bytes :: "nat \<Rightarrow> int \<Rightarrow> int list" where
  "be_bytes 0 v = []"
| "be_bytes (Suc n) v = be_bytes n (v div 256) @ [v mod 256]"

definition sha_pad :: "string \<Rightarrow> int list" where
  "sha_pad s = map of_char s @ 0x80 # replicate ((119 - length s mod 64) mod 64) 0
     @ be_bytes 8 (8 * int (length s))"

fun be_words :: "int list \<Rightarrow> u32 list" where
  "be_words (a # b # c # d # r) =
     of_int (((a * 256 + b) * 256 + c) * 256 + d) # be_words r"
| "be_words _ = []"

text \<open>The message schedule, newest word first while it is built.\<close>

fun sha_extend :: "nat \<Rightarrow> u32 list \<Rightarrow> u32 list" where
  "sha_extend 0 w = w"
| "sha_extend (Suc n) w =
     sha_extend n ((small_sigma1 (w ! 1) + w ! 6 + small_sigma0 (w ! 14) + w ! 15) # w)"

definition sha_round :: "u32 list \<Rightarrow> u32 \<times> u32 \<Rightarrow> u32 list" where
  "sha_round st kw = (case st of
     [a, b, c, d, e, f, g, h] \<Rightarrow>
       (let t1 = h + big_sigma1 e + sha_ch e f g + fst kw + snd kw;
            t2 = big_sigma0 a + sha_maj a b c
        in [t1 + t2, a, b, c, d + t1, e, f, g])
   | _ \<Rightarrow> st)"

definition sha_block :: "u32 list \<Rightarrow> u32 list \<Rightarrow> u32 list" where
  "sha_block h w = map2 (+) h (foldl sha_round h (zip sha_k (rev (sha_extend 48 (rev w)))))"

fun sha_blocks :: "nat \<Rightarrow> u32 list \<Rightarrow> u32 list \<Rightarrow> u32 list" where
  "sha_blocks 0 h ws = h"
| "sha_blocks (Suc n) h ws = sha_blocks n (sha_block h (take 16 ws)) (drop 16 ws)"

definition hex_digit :: "int \<Rightarrow> char" where
  "hex_digit d = char_of (if d < 10 then 48 + d else 87 + d)"

definition hex_of_byte :: "int \<Rightarrow> string" where
  "hex_of_byte b = [hex_digit (b div 16), hex_digit (b mod 16)]"

definition hex_encode :: "int list \<Rightarrow> string" where
  "hex_encode bs = concat (map hex_of_byte bs)"

definition sha256 :: "string \<Rightarrow> int list" where
  "sha256 s = (let p = sha_pad s in
     concat (map (\<lambda>w. be_bytes 4 (uint w)) (sha_blocks (length p div 64) sha_init (be_words p))))"

text \<open>\<^verbatim>\<open>hex.EncodeToString(sum[:])\<close>.\<close>

definition sha256_hex :: "string \<Rightarrow> string" where
  "sha256_hex s = hex_encode (sha256 s)"

section \<open>The length of a digest\<close>

lemma length_be_bytes [simp]: "length (be_bytes n v) = n"
  by (induction n arbitrary: v) auto

lemma length_sha_round [simp]: "length (sha_round st kw) = length st"
  by (auto simp: sha_round_def Let_def split: list.split)

lemma length_sha_rounds [simp]: "length (foldl sha_round st ks) = length st"
  by (induction ks arbitrary: st) auto

lemma length_sha_blocks [simp]: "length (sha_blocks n h ws) = length h"
  by (induction n arbitrary: h ws) (auto simp: sha_block_def)

lemma length_concat_const: "(\<And>x. x \<in> set xs \<Longrightarrow> length (f x) = k) \<Longrightarrow> length (concat (map f xs)) = k * length xs"
  by (induction xs) auto

lemma length_sha256 [simp]: "length (sha256 s) = 32"
  by (simp add: sha256_def Let_def length_concat_const[of _ _ 4] sha_init_def)

lemma length_sha256_hex [simp]: "length (sha256_hex s) = 64"
  by (simp add: sha256_hex_def hex_encode_def hex_of_byte_def length_concat_const[of _ _ 2])

end
