(* ===== verification/Dedup.thy ===== *)
theory Dedup
  imports GoStrconv GoTime GoSha256
begin

text \<open>
  \<^verbatim>\<open>internal/dedup\<close>: the deduplication key, the first 32 hexadecimal digits of the SHA-256 of the
  payload, and the test of the idempotency window.
\<close>

section \<open>The key\<close>

definition format_value :: "float64 \<Rightarrow> string" where
  "format_value v = format_g v"

text \<open>The argument of \<^verbatim>\<open>Sum256\<close>: the fields printed by \<^verbatim>\<open>"%s|%d|%s|%s|%s"\<close>.\<close>

definition key_payload :: "string \<Rightarrow> instant \<Rightarrow> string \<Rightarrow> float64 \<Rightarrow> string \<Rightarrow> string" where
  "key_payload device ts metric v unit =
     device @ CHR ''|'' # itoa (unix_nano ts) @ CHR ''|'' # metric @ CHR ''|'' # format_value v
     @ CHR ''|'' # unit"

definition dedup_key :: "string \<Rightarrow> instant \<Rightarrow> string \<Rightarrow> float64 \<Rightarrow> string \<Rightarrow> string" where
  "dedup_key device ts metric v unit = take 32 (sha256_hex (key_payload device ts metric v unit))"

section \<open>The window\<close>

definition within_window :: "instant \<Rightarrow> instant \<Rightarrow> duration \<Rightarrow> bool" where
  "within_window received_at now window \<longleftrightarrow> time_sub now received_at \<le> window"

section \<open>Lemmas\<close>

lemma length_dedup_key [simp]: "length (dedup_key device ts metric v unit) = 32"
  by (simp add: dedup_key_def length_sha256_hex)

lemma itoa_inject: "itoa i = itoa j \<Longrightarrow> i = j"
proof -
  have digits: "CHR ''-'' \<notin> set (digits_of n)" for n
    using digits_of_all_digits[of n] by (auto simp: is_digit_def)
  have first: "digits_of n \<noteq> CHR ''-'' # s" "CHR ''-'' # s \<noteq> digits_of n" for n s
    using digits[of n] by (metis list.set_intros(1))+
  assume "itoa i = itoa j"
  then show "i = j" by (auto simp: itoa_def first dest: digits_of_inject split: if_splits)
qed

lemma itoa_no_bar: "CHR ''|'' \<notin> set (itoa i)"
proof -
  have "CHR ''|'' \<notin> set (digits_of n)" for n
    using digits_of_all_digits[of n] by (auto simp: is_digit_def)
  then show ?thesis by (simp add: itoa_def)
qed

lemma append_bar_inject:
  assumes "a @ c # s = b @ c # t" and "c \<notin> set a" and "c \<notin> set b"
  shows "a = b \<and> s = t"
  using assms
proof (induction a arbitrary: b)
  case Nil
  then show ?case by (cases b) auto
next
  case (Cons x a)
  then show ?case by (cases b) auto
qed

lemma format_g_no_bar: "is_finite v \<Longrightarrow> CHR ''|'' \<notin> set (format_g v)"
proof -
  have ds: "CHR ''|'' \<notin> set (digits_of n)" for n
    using digits_of_all_digits[of n] by (auto simp: is_digit_def)
  have int: "CHR ''|'' \<notin> set (fmt_int (digits_of n) p)" for n p
    using ds[of n] by (auto simp: fmt_int_def dest: in_set_takeD)
  have frac: "CHR ''|'' \<notin> set (dot_frac (fmt_frac (digits_of n) p))" for n p
    using ds[of n] by (auto simp: dot_frac_def fmt_frac_def dest: in_set_dropD)
  have e: "CHR ''|'' \<notin> set (fmt_e (digits_of n) p)" for n p
    using ds ds[of n] by (auto simp: fmt_e_def dot_frac_def Let_def dest: in_set_dropD in_set_takeD)
  assume "is_finite v"
  then obtain neg k where "v = FFin neg k" by (cases v) (auto simp: is_finite_def)
  then show ?thesis
    by (simp add: sign_str_def Let_def int frac e split: prod.split)
qed

lemma key_payload_inject:
  assumes eq: "key_payload d1 t1 m1 v1 u1 = key_payload d2 t2 m2 v2 u2"
    and d: "CHR ''|'' \<notin> set d1" "CHR ''|'' \<notin> set d2"
    and m: "CHR ''|'' \<notin> set m1" "CHR ''|'' \<notin> set m2"
    and v: "is_finite v1" "is_finite v2" "float_ok v1" "float_ok v2"
  shows "d1 = d2 \<and> unix_nano t1 = unix_nano t2 \<and> m1 = m2 \<and> v1 = v2 \<and> u1 = u2"
proof -
  note e1 = append_bar_inject[OF eq[unfolded key_payload_def] d]
  note e2 = append_bar_inject[OF e1[THEN conjunct2] itoa_no_bar itoa_no_bar]
  note e3 = append_bar_inject[OF e2[THEN conjunct2] m]
  note e4 = append_bar_inject[OF e3[THEN conjunct2], unfolded format_value_def,
      OF format_g_no_bar[OF v(1)] format_g_no_bar[OF v(2)]]
  have "v1 = v2" using format_g_inject[OF v(3,4,1,2) e4[THEN conjunct1]] .
  moreover have "unix_nano t1 = unix_nano t2" using e2 by (blast intro: itoa_inject)
  ultimately show ?thesis using e1 e3 e4 by blast
qed

section \<open>Properties\<close>

text \<open>C6. Separation: two measurements of bar-free devices and metrics, with representable finite
  values and time stamps in the range of \<^verbatim>\<open>UnixNano\<close>, have the same hashed payload only when
  they are the same measurement; equal keys of different measurements are collisions of the
  truncated SHA-256.\<close>

theorem dedup_payload_separates:
  assumes "CHR ''|'' \<notin> set d1" "CHR ''|'' \<notin> set d2" "CHR ''|'' \<notin> set m1" "CHR ''|'' \<notin> set m2"
    and "is_finite v1" "is_finite v2" "float_ok v1" "float_ok v2"
    and "min_int64 \<le> t1" "t1 \<le> max_int64" "min_int64 \<le> t2" "t2 \<le> max_int64"
  shows "key_payload d1 t1 m1 v1 u1 = key_payload d2 t2 m2 v2 u2 \<longleftrightarrow>
    d1 = d2 \<and> t1 = t2 \<and> m1 = m2 \<and> v1 = v2 \<and> u1 = u2"
proof
  assume "key_payload d1 t1 m1 v1 u1 = key_payload d2 t2 m2 v2 u2"
  from key_payload_inject[OF this assms(1-8)] assms(9-12)
  show "d1 = d2 \<and> t1 = t2 \<and> m1 = m2 \<and> v1 = v2 \<and> u1 = u2"
    by (simp add: unix_nano_def wrap64_id)
qed simp

theorem dedup_payload_separates_witness:
  "key_payload ''DEVICE01'' 0 ''temperature'' (FFin False 0) ''C''
    \<noteq> key_payload ''DEVICE01'' 0 ''temperature'' (FFin True 0) ''C''"
proof -
  have "float_ok (FFin neg 0)" for neg using of_ratio_ok[of neg 0 1] of_ratio_int[of 0 neg] by simp
  then show ?thesis
    using dedup_payload_separates[of "''DEVICE01''" "''DEVICE01''" "''temperature''" "''temperature''"
        "FFin False 0" "FFin True 0" 0 0 "''C''" "''C''"]
    by (simp add: is_finite_def min_int64_def max_int64_def)
qed

text \<open>The window test is the comparison of the elapsed time with the window, both ends included,
  whatever the two instants: the saturation of \<^verbatim>\<open>Time.Sub\<close> only shows for the largest window.\<close>

theorem within_window_iff:
  assumes "min_int64 \<le> window" "window \<le> max_int64"
  shows "within_window received_at now window \<longleftrightarrow>
    now - received_at \<le> window \<or> window = max_int64"
  using assms by (auto simp: within_window_def time_sub_def min_int64_def max_int64_def)

theorem within_window_iff_witness:
  "within_window 0 (24 * hour) (24 * hour) \<and> \<not> within_window 0 (24 * hour + 1) (24 * hour)"
  using within_window_iff[of "24 * hour" 0 "24 * hour"] within_window_iff[of "24 * hour" 0 "24 * hour + 1"]
  by (simp add: duration_defs min_int64_def max_int64_def)

end
