(* ===== verification/GoJson.thy ===== *)
theory GoJson
  imports Domain
begin

text \<open>
  \<^verbatim>\<open>encoding/json\<close> as far as \<^verbatim>\<open>decodeJSON\<close> uses it: a document, the result of reading the text,
  is stored into a Go struct with unknown fields disallowed.  The first error is the one reported;
  since every caller drops the struct on an error, decoding stops there.  The lexical level (the text
  of the body) is not modelled: a body is a document or a text that is none.
\<close>

section \<open>Documents\<close>

datatype doc = DNull | DBool bool | DNumber string | DString string
  | DArray "doc list" | DObject "(string \<times> doc) list"

datatype body = BadText string | Document doc

datatype decode_error = Malformed string | UnknownField string | WrongType doc

type_synonym 'v decoder = "doc \<Rightarrow> 'v \<Rightarrow> decode_error + 'v"

section \<open>Values\<close>

text \<open>A null leaves the old value in place.\<close>

definition as_string :: "string decoder" where
  "as_string d old = (case d of DString s \<Rightarrow> Inr s | DNull \<Rightarrow> Inr old | _ \<Rightarrow> Inl (WrongType d))"

definition as_bool :: "bool decoder" where
  "as_bool d old = (case d of DBool b \<Rightarrow> Inr b | DNull \<Rightarrow> Inr old | _ \<Rightarrow> Inl (WrongType d))"

text \<open>A number literal is read by \<^verbatim>\<open>ParseInt\<close>, which takes neither fraction nor exponent.\<close>

definition json_int :: "string \<Rightarrow> int option" where
  "json_int s = (let (neg, _, t) = split_sign s; v = int (val_of_digits 0 t); w = (if neg then - v else v) in
     if t \<noteq> [] \<and> list_all is_digit t \<and> min_int64 \<le> w \<and> w \<le> max_int64 then Some w else None)"

definition as_int :: "int decoder" where
  "as_int d old = (case d of
     DNumber s \<Rightarrow> (case json_int s of Some i \<Rightarrow> Inr i | None \<Rightarrow> Inl (WrongType d))
   | DNull \<Rightarrow> Inr old | _ \<Rightarrow> Inl (WrongType d))"

text \<open>The elements of a slice are decoded onto those already there.\<close>

fun as_elements :: "doc list \<Rightarrow> string list \<Rightarrow> decode_error + string list" where
  "as_elements [] old = Inr []"
| "as_elements (d # ds) old = (case as_string d (case old of [] \<Rightarrow> [] | s # _ \<Rightarrow> s) of
     Inl e \<Rightarrow> Inl e
   | Inr s \<Rightarrow> (case as_elements ds (tl old) of Inl e \<Rightarrow> Inl e | Inr ss \<Rightarrow> Inr (s # ss)))"

definition as_strings :: "string list option decoder" where
  "as_strings d old = (case d of
     DArray ds \<Rightarrow> (case as_elements ds (case old of None \<Rightarrow> [] | Some ss \<Rightarrow> ss) of
       Inl e \<Rightarrow> Inl e | Inr ss \<Rightarrow> Inr (Some ss))
   | DNull \<Rightarrow> Inr None | _ \<Rightarrow> Inl (WrongType d))"

text \<open>A member set twice keeps its last value.\<close>

fun put :: "string \<Rightarrow> 'v \<Rightarrow> (string \<times> 'v) list \<Rightarrow> (string \<times> 'v) list" where
  "put k v [] = [(k, v)]"
| "put k v ((k', v') # ms) = (if k' = k then (k, v) # ms else (k', v') # put k v ms)"

fun as_any :: "doc \<Rightarrow> decode_error + json"
  and as_anys :: "doc list \<Rightarrow> decode_error + json list"
  and as_members :: "(string \<times> doc) list \<Rightarrow> (string \<times> json) list \<Rightarrow> decode_error + (string \<times> json) list"
where
  "as_any DNull = Inr JNull"
| "as_any (DBool b) = Inr (JBool b)"
| "as_any (DString s) = Inr (JString s)"
| "as_any (DNumber s) = (case parse_float s of
     Some v \<Rightarrow> Inr (JNumber v) | None \<Rightarrow> Inl (WrongType (DNumber s)))"
| "as_any (DArray ds) = (case as_anys ds of Inl e \<Rightarrow> Inl e | Inr js \<Rightarrow> Inr (JArray js))"
| "as_any (DObject ms) = (case as_members ms [] of Inl e \<Rightarrow> Inl e | Inr js \<Rightarrow> Inr (JObject js))"
| "as_anys [] = Inr []"
| "as_anys (d # ds) = (case as_any d of Inl e \<Rightarrow> Inl e
     | Inr j \<Rightarrow> (case as_anys ds of Inl e \<Rightarrow> Inl e | Inr js \<Rightarrow> Inr (j # js)))"
| "as_members [] out = Inr out"
| "as_members ((k, d) # ms) out = (case as_any d of Inl e \<Rightarrow> Inl e
     | Inr j \<Rightarrow> as_members ms (put k j out))"

definition as_map :: "(string \<times> json) list option decoder" where
  "as_map d old = (case d of
     DObject ms \<Rightarrow> (case as_members ms (case old of None \<Rightarrow> [] | Some js \<Rightarrow> js) of
       Inl e \<Rightarrow> Inl e | Inr js \<Rightarrow> Inr (Some js))
   | DNull \<Rightarrow> Inr None | _ \<Rightarrow> Inl (WrongType d))"

section \<open>Structs\<close>

text \<open>A member goes to the field of its name, or else to the field whose name it equals under case folding.\<close>

definition find_field :: "(string \<times> 'f) list \<Rightarrow> string \<Rightarrow> 'f option" where
  "find_field fs k = (case find (\<lambda>(n, _). n = k) fs of
     Some (_, f) \<Rightarrow> Some f
   | None \<Rightarrow> map_option snd (find (\<lambda>(n, _). equal_fold n k) fs))"

fun store_members :: "(string \<times> 'v decoder) list \<Rightarrow> (string \<times> doc) list \<Rightarrow> 'v \<Rightarrow> decode_error + 'v" where
  "store_members fs [] v = Inr v"
| "store_members fs ((k, d) # ms) v = (case find_field fs k of
     None \<Rightarrow> Inl (UnknownField k)
   | Some dec \<Rightarrow> (case dec d v of Inl e \<Rightarrow> Inl e | Inr v' \<Rightarrow> store_members fs ms v'))"

definition as_struct :: "(string \<times> 'v decoder) list \<Rightarrow> 'v decoder" where
  "as_struct fs d v = (case d of
     DObject ms \<Rightarrow> store_members fs ms v | DNull \<Rightarrow> Inr v | _ \<Rightarrow> Inl (WrongType d))"

text \<open>A field of a struct: how to read it and how to store it back.\<close>

definition field :: "('v \<Rightarrow> 'f) \<Rightarrow> ('f \<Rightarrow> 'v \<Rightarrow> 'v) \<Rightarrow> 'f decoder \<Rightarrow> 'v decoder" where
  "field rd wr dec d v = (case dec d (rd v) of Inl e \<Rightarrow> Inl e | Inr x \<Rightarrow> Inr (wr x v))"

definition decode_json :: "'v decoder \<Rightarrow> 'v \<Rightarrow> body \<Rightarrow> decode_error + 'v" where
  "decode_json dec zero b = (case b of BadText m \<Rightarrow> Inl (Malformed m) | Document d \<Rightarrow> dec d zero)"

end
