(* ===== verification/Service.thy ===== *)
theory Service
  imports Store Parser Dedup GoJson
begin

text \<open>
  \<^verbatim>\<open>internal/service\<close>: the use cases.  The state of the process is the database and the heap of the
  shared error objects.  Each use case takes what it reads from its environment as arguments: the
  clock, the random bytes of a new identifier, the authenticated operator of the context.
\<close>

section \<open>State and errors\<close>

datatype detail = FieldDetail string | ParseDetail parse_error | DecodeDetail decode_error

record world =
  w_db :: database
  w_errors :: "detail error_heap"

definition boot :: "(instant \<Rightarrow> instant) \<Rightarrow> (string \<Rightarrow> nat list) \<Rightarrow> world" where
  "boot stamp collate = \<lparr>w_db = empty_database stamp collate, w_errors = initial_error\<rparr>"

datatype svc_error = Domain err_name | Failed db_error

type_synonym 'a use_case = "(world, svc_error, 'a) action"
type_synonym 'a db_action = "(database, svc_error, 'a) action"

definition on_db :: "'a db_action \<Rightarrow> 'a use_case" where
  "on_db m w = (let (r, db) = m (w_db w) in (r, w\<lparr>w_db := db\<rparr>))"

definition sql :: "'a statement \<Rightarrow> 'a db_action" where
  "sql st = lift_error Failed (exec st)"

text \<open>A composite query runs its own statements under the fault plan.\<close>

definition call :: "'a statement \<Rightarrow> 'a use_case" where
  "call st = on_db (sql st)"

text \<open>\<^verbatim>\<open>return nil, domain.ErrX.WithDetails(...)\<close>, which writes to the shared object.\<close>

definition fail_with :: "err_name \<Rightarrow> detail \<Rightarrow> 'a use_case" where
  "fail_with e d w = (let (e', h) = with_details e d (w_errors w) in (Inl (Domain e'), w\<lparr>w_errors := h\<rparr>))"

text \<open>The message of a database error, as far as \<^verbatim>\<open>isUniqueViolation\<close> looks into it.\<close>

fun db_error_text :: "db_error \<Rightarrow> string" where
  "db_error_text (UniqueViolation c) = ''pq: duplicate key value violates unique constraint '' @ c"
| "db_error_text (ForeignKeyViolation c) = ''pq: insert or update violates foreign key constraint '' @ c"
| "db_error_text IntegerOutOfRange = ''pq: value is out of range for type integer''"
| "db_error_text NegativeOffset = ''pq: OFFSET must not be negative''"
| "db_error_text (Refused m) = m"

fun contains_sub :: "string \<Rightarrow> string \<Rightarrow> bool" where
  "contains_sub [] sub = (sub = [])"
| "contains_sub (c # s) sub = (prefix sub (c # s) \<or> contains_sub s sub)"

definition contains_any :: "string \<Rightarrow> string list \<Rightarrow> bool" where
  "contains_any s subs = list_ex (contains_sub s) subs"

definition is_unique_violation :: "svc_error \<Rightarrow> bool" where
  "is_unique_violation e = (case e of
     Failed d \<Rightarrow> contains_any (db_error_text d) [''duplicate key'', ''unique constraint'', ''SQLSTATE 23505'']
   | Domain n \<Rightarrow> contains_any (err_message (initial_error n :: detail domain_error))
       [''duplicate key'', ''unique constraint'', ''SQLSTATE 23505''])"

text \<open>\<^verbatim>\<open>if err != nil { ... }\<close> around a call: the handler decides what the error becomes.\<close>

definition catch :: "(svc_error \<Rightarrow> 'a use_case) \<Rightarrow> 'a use_case \<Rightarrow> 'a use_case" where
  "catch handler m w = (case m w of (Inl e, w') \<Rightarrow> handler e w' | (Inr x, w') \<Rightarrow> (Inr x, w'))"

definition new_event_id :: "string \<Rightarrow> string" where
  "new_event_id bytes = hex_encode (map (\<lambda>c. int (byte_val c)) bytes)"

definition operator_from :: "string option \<Rightarrow> string" where
  "operator_from ctx = (case ctx of Some v \<Rightarrow> if v \<noteq> [] then v else ''system'' | None \<Rightarrow> ''system'')"

section \<open>Devices\<close>

definition register_device ::
  "instant \<Rightarrow> string \<Rightarrow> string \<Rightarrow> string \<Rightarrow> (string \<times> json) list option \<Rightarrow> device use_case" where
  "register_device now ident name version metadata =
     (if \<not> device_id_re ident then fail_with ErrInvalidField (FieldDetail ''device_id'')
      else if name = [] then fail_with ErrInvalidField (FieldDetail ''name'')
      else (let d = \<lparr>dv_id = ident, dv_name = name,
                  dv_protocol = (if version = [] then ''v1'' else version), dv_status = DeviceActive,
                  dv_metadata = metadata, dv_last_seen = None, dv_created = now, dv_updated = now\<rparr> in
        catch (\<lambda>e. if is_unique_violation e then fail (Domain ErrDeviceConflict) else fail e)
          (andThen (call (insert_device d)) (\<lambda>_. ret d))))"

definition fetch_device :: "string \<Rightarrow> device use_case" where
  "fetch_device ident = andThen (call (get_device ident)) (\<lambda>found.
     case found of None \<Rightarrow> fail (Domain ErrDeviceNotFound) | Some d \<Rightarrow> ret d)"

definition all_devices :: "device list use_case" where
  "all_devices = call list_devices"

definition set_device_status :: "instant \<Rightarrow> string \<Rightarrow> device_status \<Rightarrow> unit use_case" where
  "set_device_status at ident status =
     andThen (fetch_device ident) (\<lambda>_.
       if status \<in> {DeviceActive, DeviceSuspended, DeviceDeleted} then call (set_status ident status at)
       else fail_with ErrInvalidField (FieldDetail ''status''))"

section \<open>Events and statistics\<close>

definition fetch_event :: "string \<Rightarrow> event use_case" where
  "fetch_event ident = andThen (call (get_event_by_id ident)) (\<lambda>found.
     case found of None \<Rightarrow> fail (Domain ErrEventNotFound) | Some e \<Rightarrow> ret e)"

record event_page =
  pg_items :: "event list"
  pg_total :: int
  pg_page :: int
  pg_size :: int

definition search_events :: "event_filter \<Rightarrow> event_page use_case" where
  "search_events f = andThen (on_db (lift_error Failed (query_events f))) (\<lambda>(items, total).
     ret \<lparr>pg_items = items, pg_total = total, pg_page = ef_page f, pg_size = ef_size f\<rparr>)"

record stats =
  st_devices :: int
  st_events :: int
  st_pending :: int

definition get_stats :: "stats use_case" where
  "get_stats = andThen (call device_count) (\<lambda>d. andThen (call event_count) (\<lambda>e.
     andThen (call pending_count) (\<lambda>p. ret \<lparr>st_devices = d, st_events = e, st_pending = p\<rparr>)))"

definition recent_audit :: "int \<Rightarrow> api_key_audit list use_case" where
  "recent_audit limit = call (list_audit limit)"

section \<open>Ingestion\<close>

record telemetry_result =
  tr_event_id :: string
  tr_duplicate :: bool
  tr_matched :: "string list"
  tr_topics :: "string list"

text \<open>Errors while the details are looked up are dropped; the answer is then without them.\<close>

definition duplicate_result :: "raw_message \<Rightarrow> telemetry_result use_case" where
  "duplicate_result existing w =
     (let bare = (\<lambda>ident. \<lparr>tr_event_id = ident, tr_duplicate = True, tr_matched = [], tr_topics = []\<rparr>) in
      case rm_event_id existing of
        None \<Rightarrow> (Inr (bare []), w)
      | Some ident \<Rightarrow>
          (case call (get_event_by_id ident) w of
             (Inr (Some ev), w1) \<Rightarrow>
               (case call (list_rules False) w1 of
                  (Inr rls, w2) \<Rightarrow> (let matched = match_rules ev rls in
                    (Inr ((bare ident)\<lparr>tr_topics := topics matched, tr_matched := map rr_rule_id matched\<rparr>), w2))
                | (Inl _, w2) \<Rightarrow> (Inr (bare ident), w2))
           | (_, w1) \<Rightarrow> (Inr (bare ident), w1)))"

definition new_event :: "telemetry \<Rightarrow> string \<Rightarrow> string \<Rightarrow> instant \<Rightarrow> event" where
  "new_event tel key ident now =
     \<lparr>ev_id = 0, ev_event_id = ident, ev_device = tm_device tel, ev_ts = tm_ts tel,
      ev_metric = tm_metric tel, ev_value = tm_value tel, ev_unit = tm_unit tel,
      ev_dedup_key = key, ev_route_key = tm_metric tel, ev_status = EventCreated, ev_parsed_at = now\<rparr>"

definition new_raw :: "telemetry \<Rightarrow> string \<Rightarrow> string \<Rightarrow> string \<Rightarrow> instant \<Rightarrow> raw_message" where
  "new_raw tel text key ident now =
     \<lparr>rm_id = 0, rm_device = tm_device tel, rm_text = text, rm_checksum_received = tm_checksum tel,
      rm_checksum_expected = tm_checksum tel, rm_received_at = now, rm_dedup_key = key,
      rm_status = RawParsed, rm_parse_error = [], rm_event_id = Some ident\<rparr>"

definition new_delivery :: "string \<Rightarrow> instant \<Rightarrow> route_rule \<Rightarrow> delivery" where
  "new_delivery ident now r =
     \<lparr>dl_id = 0, dl_event_id = ident, dl_rule_id = rr_rule_id r, dl_topic = rr_topic r,
      dl_status = DeliveryPending, dl_attempts = 0, dl_last_error = [],
      dl_next_retry_at = Some now, dl_dispatched_at = None\<rparr>"

text \<open>
  The function given to \<^verbatim>\<open>InTx\<close>.  \<^verbatim>\<open>topics[i]\<close> is the topic of the \<open>i\<close>-th matched rule.
\<close>

definition ingest_tx :: "telemetry \<Rightarrow> string \<Rightarrow> string \<Rightarrow> string \<Rightarrow> instant \<Rightarrow> telemetry_result db_action" where
  "ingest_tx tel text key ident now =
     andThen (sql (find_raw_by_dedup key)) (\<lambda>existing.
     if existing \<noteq> None \<and> rm_status (the existing) = RawParsed then fail (Domain ErrDuplicate)
     else
       andThen (sql (create_event (new_event tel key ident now))) (\<lambda>_.
       andThen (sql (insert_raw (new_raw tel text key ident now))) (\<lambda>_.
       andThen (sql (touch_seen (tm_device tel) now)) (\<lambda>_.
       andThen (sql (list_rules False)) (\<lambda>rls.
       let matched = match_rules (new_event tel key ident now) rls in
       andThen (for_each (\<lambda>r. sql (create_delivery (new_delivery ident now r))) matched) (\<lambda>_.
       ret \<lparr>tr_event_id = ident, tr_duplicate = False, tr_matched = map rr_rule_id matched,
            tr_topics = topics matched\<rparr>))))))"

definition telemetry_key :: "telemetry \<Rightarrow> string" where
  "telemetry_key tel = dedup_key (tm_device tel) (tm_ts tel) (tm_metric tel) (tm_value tel) (tm_unit tel)"

text \<open>After the transaction: only \<^verbatim>\<open>errDuplicate\<close> itself is turned into the earlier result.\<close>

definition after_tx :: "string \<Rightarrow> svc_error \<Rightarrow> telemetry_result use_case" where
  "after_tx key e w =
     (if e = Domain ErrDuplicate then
        (case call (find_raw_by_dedup key) w of
           (Inr (Some existing), w') \<Rightarrow> duplicate_result existing w'
         | (_, w') \<Rightarrow> (Inl e, w'))
      else (Inl e, w))"

definition ingest_telemetry :: "duration \<Rightarrow> instant \<Rightarrow> string \<Rightarrow> string \<Rightarrow> telemetry_result use_case" where
  "ingest_telemetry window now bytes raw =
     (case parse_message raw now of
        Inl e \<Rightarrow> fail_with ErrInvalidField (ParseDetail e)
      | Inr tel \<Rightarrow>
          andThen (call (get_device (tm_device tel))) (\<lambda>found.
          case found of
            None \<Rightarrow> fail (Domain ErrDeviceNotFound)
          | Some d \<Rightarrow>
              if dv_status d \<noteq> DeviceActive then fail (Domain ErrDeviceInactive)
              else (let key = telemetry_key tel in
                andThen (call (find_raw_by_dedup key)) (\<lambda>existing.
                if existing \<noteq> None \<and> rm_status (the existing) = RawParsed
                   \<and> within_window (rm_received_at (the existing)) now window
                then duplicate_result (the existing)
                else catch (after_tx key)
                  (on_db (in_tx Failed (ingest_tx tel raw key (new_event_id bytes) now)))))))"

section \<open>Rules\<close>

record rule_input =
  ri_rule_id :: string
  ri_name :: string
  ri_matcher :: matcher
  ri_topic :: string
  ri_priority :: int
  ri_enabled :: bool

definition change_entry :: "string \<Rightarrow> change_action \<Rightarrow> route_rule option \<Rightarrow> route_rule option
  \<Rightarrow> string option \<Rightarrow> instant \<Rightarrow> change_log" where
  "change_entry ident action before after ctx now =
     \<lparr>cl_id = 0, cl_rule_id = ident, cl_action = action, cl_before = before, cl_after = after,
      cl_operator = operator_from ctx, cl_changed_at = now\<rparr>"

definition add_rule :: "string option \<Rightarrow> instant \<Rightarrow> string \<Rightarrow> rule_input \<Rightarrow> route_rule use_case" where
  "add_rule ctx now bytes inp =
     (if ri_name inp = [] then fail_with ErrInvalidField (FieldDetail ''name'')
      else if ri_topic inp = [] then fail_with ErrInvalidField (FieldDetail ''topic'')
      else (let ident = (if ri_rule_id inp = [] then new_event_id bytes else ri_rule_id inp) in
        andThen (call (get_rule ident)) (\<lambda>existing.
        if existing \<noteq> None then fail (Domain ErrRuleConflict)
        else (let r = \<lparr>rr_id = 0, rr_rule_id = ident, rr_name = ri_name inp, rr_matcher = ri_matcher inp,
                   rr_topic = ri_topic inp, rr_priority = ri_priority inp, rr_enabled = ri_enabled inp,
                   rr_deleted_at = None, rr_created_at = now, rr_updated_at = now\<rparr> in
          catch (\<lambda>e. if is_unique_violation e then fail (Domain ErrRuleConflict) else fail e)
            (andThen (on_db (in_tx Failed
               (andThen (sql (create_rule r)) (\<lambda>_.
                sql (append_change (change_entry ident ActionCreate None (Some r) ctx now))))))
             (\<lambda>_. ret r))))))"

definition merged_rule :: "route_rule \<Rightarrow> rule_input \<Rightarrow> instant \<Rightarrow> route_rule" where
  "merged_rule existing inp now = existing\<lparr>
     rr_name := (if ri_name inp \<noteq> [] then ri_name inp else rr_name existing),
     rr_topic := (if ri_topic inp \<noteq> [] then ri_topic inp else rr_topic existing),
     rr_matcher := (if ri_matcher inp \<noteq> no_matcher then ri_matcher inp else rr_matcher existing),
     rr_priority := ri_priority inp, rr_enabled := ri_enabled inp, rr_updated_at := now\<rparr>"

definition update_action :: "route_rule \<Rightarrow> route_rule \<Rightarrow> change_action" where
  "update_action existing updated =
     (if \<not> rr_enabled existing \<and> rr_enabled updated then ActionEnable
      else if rr_enabled existing \<and> \<not> rr_enabled updated then ActionDisable
      else ActionUpdate)"

definition change_rule :: "string option \<Rightarrow> instant \<Rightarrow> string \<Rightarrow> rule_input \<Rightarrow> route_rule use_case" where
  "change_rule ctx now ident inp =
     andThen (call (get_rule ident)) (\<lambda>found.
     case found of
       None \<Rightarrow> fail (Domain ErrRuleNotFound)
     | Some existing \<Rightarrow>
         if rr_deleted_at existing \<noteq> None then fail (Domain ErrRuleNotFound)
         else (let updated = merged_rule existing inp now in
           andThen (on_db (in_tx Failed
              (andThen (sql (update_rule updated)) (\<lambda>_.
               sql (append_change (change_entry ident (update_action existing updated)
                 (Some existing) (Some updated) ctx now))))))
            (\<lambda>_. ret updated)))"

definition delete_rule :: "string option \<Rightarrow> instant \<Rightarrow> string \<Rightarrow> unit use_case" where
  "delete_rule ctx now ident =
     andThen (call (get_rule ident)) (\<lambda>found.
     case found of
       None \<Rightarrow> fail (Domain ErrRuleNotFound)
     | Some existing \<Rightarrow>
         if rr_deleted_at existing \<noteq> None then fail (Domain ErrRuleNotFound)
         else (let after = existing\<lparr>rr_enabled := False, rr_deleted_at := Some now, rr_updated_at := now\<rparr> in
           on_db (in_tx Failed
              (andThen (sql (soft_delete ident now)) (\<lambda>_.
               sql (append_change (change_entry ident ActionDelete (Some existing) (Some after) ctx now)))))))"

definition current_rules :: "route_rule list use_case" where
  "current_rules = call (list_rules False)"

definition fetch_rule :: "string \<Rightarrow> route_rule use_case" where
  "fetch_rule ident = andThen (call (get_rule ident)) (\<lambda>found.
     case found of None \<Rightarrow> fail (Domain ErrRuleNotFound) | Some r \<Rightarrow> ret r)"

definition rule_changes :: "string \<Rightarrow> change_log list use_case" where
  "rule_changes ident = call (changes_of_rule ident)"

section \<open>Replay\<close>

record replay_result =
  rp_event_id :: string
  rp_matched :: "string list"
  rp_created :: "string list"
  rp_count :: int

definition waiting :: "delivery \<Rightarrow> bool" where
  "waiting d \<longleftrightarrow> dl_status d = DeliveryPending \<or> dl_status d = DeliveryFailed"

text \<open>Every record is inserted by a statement of its own, outside any transaction.\<close>

definition replay_event :: "instant \<Rightarrow> string \<Rightarrow> replay_result use_case" where
  "replay_event now ident =
     andThen (fetch_event ident) (\<lambda>ev.
     andThen (call (list_rules False)) (\<lambda>rls.
     let matched = match_rules ev rls in
     andThen (call (list_deliveries_by_event ident)) (\<lambda>existing.
     let pending = map dl_rule_id (filter waiting existing);
         missing = filter (\<lambda>r. rr_rule_id r \<notin> set pending) matched in
     andThen (for_each (\<lambda>r. call (create_delivery (new_delivery ident now r))) missing) (\<lambda>_.
     ret \<lparr>rp_event_id = ident, rp_matched = map rr_rule_id matched,
          rp_created = map rr_rule_id missing, rp_count = int (length missing)\<rparr>))))"

definition list_deliveries :: "string \<Rightarrow> delivery list use_case" where
  "list_deliveries ident = andThen (fetch_event ident) (\<lambda>_. call (list_deliveries_by_event ident))"

section \<open>Relations kept by every use case\<close>

definition on_w_db :: "(database \<Rightarrow> database \<Rightarrow> bool) \<Rightarrow> world \<Rightarrow> world \<Rightarrow> bool" where
  "on_w_db R s t \<longleftrightarrow> R (w_db s) (w_db t)"

sublocale db_relation \<subseteq> world: step_preorder "on_w_db R"
  by unfold_locales (auto simp: on_w_db_def intro: R_refl R_trans)

context db_relation
begin

lemma keeps_on_db: "keeps R m \<Longrightarrow> keeps (on_w_db R) (on_db m)"
  by (auto simp: keeps_def on_w_db_def on_db_def Let_def split: prod.split) (metis snd_conv)

lemma keeps_sql: "keeps R st \<Longrightarrow> keeps R (sql st)"
  unfolding sql_def by (intro keeps_db_rules)

lemma keeps_call: "keeps R st \<Longrightarrow> keeps (on_w_db R) (call st)"
  unfolding call_def by (intro keeps_on_db keeps_sql)

lemma keeps_fail_with: "keeps (on_w_db R) (fail_with e d)"
  by (simp add: keeps_def on_w_db_def fail_with_def with_details_def R_refl)

lemma keeps_catch:
  assumes "keeps (on_w_db R) m" and "\<And>e. keeps (on_w_db R) (h e)"
  shows "keeps (on_w_db R) (catch h m)"
proof (rule keepsI)
  fix s r t assume run: "catch h m s = (r, t)"
  obtain o' s' where m: "m s = (o', s')" by fastforce
  have st: "on_w_db R s s'" by (rule keepsD[OF assms(1) m])
  show "on_w_db R s t"
  proof (cases o')
    case (Inl e)
    with run m have "h e s' = (r, t)" by (simp add: catch_def)
    with st show ?thesis using keepsD[OF assms(2)] world.R_trans by blast
  next
    case (Inr x)
    with run m st show ?thesis by (simp add: catch_def)
  qed
qed

lemmas keeps_world_rules = world.keeps_rules keeps_call keeps_fail_with keeps_catch keeps_on_db keeps_sql

end

context registry_relation
begin

lemma keeps_duplicate_result: "keeps (on_w_db R) (duplicate_result m)"
proof (rule keepsI)
  fix s r t assume run: "duplicate_result m s = (r, t)"
  have e: "keeps (on_w_db R) (call (get_event_by_id i))" for i
    by (intro keeps_world_rules keeps_registry)
  have l: "keeps (on_w_db R) (call (list_rules False))"
    by (intro keeps_world_rules keeps_registry)
  from run show "on_w_db R s t"
    by (auto simp: duplicate_result_def Let_def world.R_refl
        split: option.splits prod.splits sum.splits dest!: keepsD[OF e] keepsD[OF l]
        intro: world.R_trans)
qed

lemma keeps_register_device: "keeps (on_w_db R) (register_device now i n v md)"
  unfolding register_device_def Let_def
  by (auto intro!: keeps_world_rules keeps_registry simp: device_typed_def)

lemma keeps_fetch_device: "keeps (on_w_db R) (fetch_device i)"
  unfolding fetch_device_def
  by (auto intro!: keeps_world_rules keeps_registry split: option.split)

lemma keeps_set_device_status: "keeps (on_w_db R) (set_device_status at i st)"
  unfolding set_device_status_def
  by (auto intro!: keeps_world_rules keeps_registry keeps_fetch_device)

lemma keeps_fetch_event: "keeps (on_w_db R) (fetch_event i)"
  unfolding fetch_event_def
  by (auto intro!: keeps_world_rules keeps_registry split: option.split)

lemma keeps_search_events: "keeps (on_w_db R) (search_events f)"
  unfolding search_events_def
  by (auto intro!: keeps_world_rules keeps_lift_error keeps_query_events split: prod.split)

lemma keeps_after_tx: "keeps (on_w_db R) (after_tx key e)"
proof (rule keepsI)
  fix s r t assume run: "after_tx key e s = (r, t)"
  have f: "keeps (on_w_db R) (call (find_raw_by_dedup key))"
    by (intro keeps_world_rules keeps_registry)
  from run show "on_w_db R s t"
    by (auto simp: after_tx_def world.R_refl split: if_splits prod.splits sum.splits option.splits
        dest!: keepsD[OF f] keepsD[OF keeps_duplicate_result] intro: world.R_trans)
qed

lemma keeps_list_deliveries: "keeps (on_w_db R) (list_deliveries i)"
  unfolding list_deliveries_def
  by (auto intro!: keeps_world_rules keeps_registry keeps_fetch_event)

lemma keeps_other_queries:
  shows "keeps (on_w_db R) all_devices" and "keeps (on_w_db R) get_stats"
    and "keeps (on_w_db R) (recent_audit l)" and "keeps (on_w_db R) current_rules"
    and "keeps (on_w_db R) (fetch_rule i)" and "keeps (on_w_db R) (rule_changes i)"
  unfolding all_devices_def get_stats_def recent_audit_def current_rules_def fetch_rule_def rule_changes_def
  by (auto intro!: keeps_world_rules keeps_registry split: option.split)

lemmas keeps_registry_cases = keeps_register_device keeps_fetch_device keeps_set_device_status
  keeps_fetch_event keeps_search_events keeps_list_deliveries keeps_other_queries

end

context queue_relation
begin

lemma keeps_new_delivery: "keeps R (create_delivery (new_delivery i now r))"
  by (rule keeps_create_delivery) (simp_all add: new_delivery_def)

lemma keeps_replay_event: "keeps (on_w_db R) (replay_event now i)"
  unfolding replay_event_def Let_def
  by (auto intro!: keeps_world_rules keeps_registry keeps_fetch_event keeps_new_delivery)

end

context intake_relation
begin

lemma keeps_ingest_tx: "keeps R (ingest_tx tel raw key i now)"
  unfolding ingest_tx_def Let_def
  by (auto intro!: keeps_rules keeps_sql keeps_registry keeps_new_delivery keeps_insert_raw keeps_create_event)

lemma keeps_ingest_telemetry: "keeps (on_w_db R) (ingest_telemetry win now bytes raw)"
  unfolding ingest_telemetry_def Let_def
  by (auto intro!: keeps_world_rules keeps_registry keeps_duplicate_result keeps_after_tx
      keeps_in_tx keeps_ingest_tx split: sum.split option.split)

lemmas keeps_traffic_cases = keeps_registry_cases keeps_replay_event keeps_ingest_telemetry

end

context rules_relation
begin

lemma keeps_add_rule: "keeps (on_w_db R) (add_rule ctx now bytes inp)"
  unfolding add_rule_def Let_def
  by (auto intro!: keeps_world_rules keeps_rule_statements keeps_in_tx keeps_rules)

lemma keeps_change_rule: "keeps (on_w_db R) (change_rule ctx now i inp)"
  unfolding change_rule_def Let_def
  by (auto intro!: keeps_world_rules keeps_rule_statements keeps_in_tx keeps_rules split: option.split)

lemma keeps_delete_rule: "keeps (on_w_db R) (delete_rule ctx now i)"
  unfolding delete_rule_def Let_def
  by (auto intro!: keeps_world_rules keeps_rule_statements keeps_in_tx keeps_rules split: option.split)

lemmas keeps_rule_cases = keeps_registry_cases keeps_add_rule keeps_change_rule keeps_delete_rule

end

section \<open>Fault-free runs\<close>

lemma sql_fault_free: "db_plan d = [] \<Longrightarrow> sql st d = (case st d of
    (Inl e, d') \<Rightarrow> (Inl (Failed e), d') | (Inr x, d') \<Rightarrow> (Inr x, d'))"
  by (simp add: sql_def lift_error_def exec_fault_free)

lemma call_fault_free: "db_plan (w_db w) = [] \<Longrightarrow> call st w = (case st (w_db w) of
    (Inl e, d) \<Rightarrow> (Inl (Failed e), w\<lparr>w_db := d\<rparr>) | (Inr x, d) \<Rightarrow> (Inr x, w\<lparr>w_db := d\<rparr>))"
  by (simp add: call_def on_db_def sql_fault_free split: prod.split sum.split)

lemma sql_Inr:
  assumes "sql st d = (Inr x, d')"
  shows "st (d\<lparr>db_plan := tl (db_plan d)\<rparr>) = (Inr x, d')"
  using assms exec_Inr[of st d x d'] by (auto simp: sql_def lift_error_def split: prod.splits sum.splits)

text \<open>The delivery rows an event is given, numbered from the sequence.\<close>

fun queued :: "(instant \<Rightarrow> instant) \<Rightarrow> int \<Rightarrow> string \<Rightarrow> instant \<Rightarrow> route_rule list \<Rightarrow> delivery list" where
  "queued stamp n ident now [] = []"
| "queued stamp n ident now (r # rs) =
     (new_delivery ident now r)\<lparr>dl_id := n, dl_next_retry_at := Some (stamp now)\<rparr>
     # queued stamp (n + 1) ident now rs"

lemma queued_props:
  "map dl_rule_id (queued stamp n ident now rs) = map rr_rule_id rs"
  "d \<in> set (queued stamp n ident now rs) \<Longrightarrow> dl_event_id d = ident \<and> waiting d \<and> dl_attempts d = 0
     \<and> dl_next_retry_at d = Some (stamp now)"
  by (induction rs arbitrary: n) (auto simp: new_delivery_def waiting_def)

lemma create_deliveries_fault_free:
  assumes "db_plan d = []" and "has_key ev_event_id ident (db_events d)"
    and "rr_rule_id ` set rs \<subseteq> rr_rule_id ` set (db_rules d)"
  shows "for_each (\<lambda>r. sql (create_delivery (new_delivery ident now r))) rs d
    = (Inr (), d\<lparr>db_deliveries := db_deliveries d @ queued (db_stamp d) (db_seq_delivery d) ident now rs,
               db_seq_delivery := db_seq_delivery d + int (length rs)\<rparr>)"
  using assms
proof (induction rs arbitrary: d)
  case (Cons r rs)
  let ?row = "(new_delivery ident now r)\<lparr>dl_id := db_seq_delivery d,
      dl_next_retry_at := Some (db_stamp d now)\<rparr>"
  let ?d = "d\<lparr>db_deliveries := db_deliveries d @ [?row], db_seq_delivery := db_seq_delivery d + 1\<rparr>"
  have "create_delivery (new_delivery ident now r) d = (Inr (), ?d)"
    using Cons.prems by (simp add: create_delivery_def new_delivery_def int4_def Let_def has_key_iff)
  then have "sql (create_delivery (new_delivery ident now r)) d = (Inr (), ?d)"
    using Cons.prems by (simp add: sql_fault_free)
  moreover have "for_each (\<lambda>r. sql (create_delivery (new_delivery ident now r))) rs ?d
    = (Inr (), ?d\<lparr>db_deliveries := db_deliveries ?d @ queued (db_stamp ?d) (db_seq_delivery ?d) ident now rs,
               db_seq_delivery := db_seq_delivery ?d + int (length rs)\<rparr>)"
    using Cons.prems by (intro Cons.IH) simp_all
  ultimately show ?case by (simp add: andThen_def)
qed (simp add: ret_def)

text \<open>The rules that route an event, read off the table.\<close>

definition listed_rules :: "database \<Rightarrow> route_rule list" where
  "listed_rules d = sort_key (\<lambda>r. - rr_priority r) (sort_key (\<lambda>r. db_collate d (rr_rule_id r))
     (filter (\<lambda>r. rr_deleted_at r = None) (db_rules d)))"

lemma list_rules_False: "list_rules False d = (Inr (listed_rules d), d)"
  by (simp add: list_rules_def listed_rules_def)

lemma match_listed_rules:
  assumes "distinct (map rr_rule_id (db_rules d))"
  shows "match_rules ev (listed_rules d) = match_rules ev (db_rules d)"
proof -
  have "mset (match_rules ev (listed_rules d)) = filter_mset (rule_matches ev) (mset (db_rules d))"
  proof -
    have "(\<lambda>r. rr_deleted_at r = None \<and> rule_matches ev r) = rule_matches ev"
      by (auto simp: fun_eq_iff rule_matches_def)
    then show ?thesis
      by (simp add: mset_match_rules listed_rules_def filter_filter_mset conj_commute)
  qed
  then show ?thesis
    unfolding match_rules_def[of ev "db_rules d"]
    by (intro sorted_rules_unique distinct_filter_ids assms ordered_match_rules) simp_all
qed

section \<open>What an accepted message does\<close>

text \<open>The database after an accepted message, and the answer.\<close>

definition ingested :: "telemetry \<Rightarrow> string \<Rightarrow> string \<Rightarrow> instant \<Rightarrow> database \<Rightarrow> database" where
  "ingested tel raw ident now d =
     (let key = telemetry_key tel; ev = new_event tel key ident now; stamp = db_stamp d;
          matched = match_rules ev (db_rules d) in
      d\<lparr>db_events := db_events d @ [ev\<lparr>ev_id := db_seq_event d, ev_ts := stamp (tm_ts tel),
            ev_parsed_at := stamp now\<rparr>],
        db_seq_event := db_seq_event d + 1,
        db_raws := db_raws d @ [(new_raw tel raw key ident now)\<lparr>rm_id := db_seq_raw d,
            rm_received_at := stamp now\<rparr>],
        db_seq_raw := db_seq_raw d + 1,
        db_devices := update_rows dv_id (tm_device tel)
            (\<lambda>dv. dv\<lparr>dv_last_seen := Some (stamp now), dv_updated := stamp now\<rparr>) (db_devices d),
        db_deliveries := db_deliveries d @ queued stamp (db_seq_delivery d) ident now matched,
        db_seq_delivery := db_seq_delivery d + int (length matched)\<rparr>)"

definition routed_answer :: "telemetry \<Rightarrow> string \<Rightarrow> instant \<Rightarrow> database \<Rightarrow> telemetry_result" where
  "routed_answer tel ident now d =
     (let matched = match_rules (new_event tel (telemetry_key tel) ident now) (db_rules d) in
      \<lparr>tr_event_id = ident, tr_duplicate = False, tr_matched = map rr_rule_id matched,
       tr_topics = map rr_topic matched\<rparr>)"

lemma ingest_tx_accepts:
  assumes plan: "db_plan d = []" and uniq: "distinct (map rr_rule_id (db_rules d))"
    and dev: "find_row dv_id (tm_device tel) (db_devices d) \<noteq> None"
    and key: "find_row rm_dedup_key (telemetry_key tel) (db_raws d) = None"
    and fresh: "\<not> has_key ev_event_id ident (db_events d)"
  shows "ingest_tx tel raw (telemetry_key tel) ident now d
    = (Inr (routed_answer tel ident now d), ingested tel raw ident now d)"
proof -
  let ?key = "telemetry_key tel" and ?stamp = "db_stamp d"
  let ?ev = "new_event tel ?key ident now"
  let ?d1 = "d\<lparr>db_events := db_events d @ [?ev\<lparr>ev_id := db_seq_event d, ev_ts := ?stamp (tm_ts tel),
            ev_parsed_at := ?stamp now\<rparr>], db_seq_event := db_seq_event d + 1\<rparr>"
  let ?d2 = "?d1\<lparr>db_raws := db_raws d @ [(new_raw tel raw ?key ident now)\<lparr>rm_id := db_seq_raw d,
            rm_received_at := ?stamp now\<rparr>], db_seq_raw := db_seq_raw d + 1\<rparr>"
  let ?d3 = "?d2\<lparr>db_devices := update_rows dv_id (tm_device tel)
            (\<lambda>dv. dv\<lparr>dv_last_seen := Some (?stamp now), dv_updated := ?stamp now\<rparr>) (db_devices d)\<rparr>"
  have devk: "has_key dv_id (tm_device tel) (db_devices d)"
    using dev by (simp add: find_row_None_iff)
  have keyk: "\<not> has_key rm_dedup_key ?key (db_raws d)"
    using key by (simp add: find_row_None_iff)
  have s0: "sql (find_raw_by_dedup ?key) d = (Inr None, d)"
    using plan key by (simp add: sql_fault_free find_raw_by_dedup_def)
  have s1: "sql (create_event ?ev) d = (Inr (db_seq_event d), ?d1)"
    using plan fresh devk by (simp add: sql_fault_free create_event_def new_event_def Let_def)
  have s2: "sql (insert_raw (new_raw tel raw ?key ident now)) ?d1 = (Inr (db_seq_raw d), ?d2)"
    using plan keyk devk by (simp add: sql_fault_free insert_raw_def new_raw_def Let_def)
  have s3: "sql (touch_seen (tm_device tel) now) ?d2 = (Inr (), ?d3)"
    using plan by (simp add: sql_fault_free touch_seen_def)
  have s4: "sql (list_rules False) ?d3 = (Inr (listed_rules ?d3), ?d3)"
    using plan by (simp add: sql_fault_free list_rules_False)
  have m: "match_rules ?ev (listed_rules ?d3) = match_rules ?ev (db_rules d)"
    using match_listed_rules[of ?d3] uniq by simp
  have s5: "for_each (\<lambda>r. sql (create_delivery (new_delivery ident now r))) (match_rules ?ev (db_rules d)) ?d3
    = (Inr (), ?d3\<lparr>db_deliveries := db_deliveries ?d3 @ queued (db_stamp ?d3) (db_seq_delivery ?d3)
          ident now (match_rules ?ev (db_rules d)),
        db_seq_delivery := db_seq_delivery ?d3 + int (length (match_rules ?ev (db_rules d)))\<rparr>)"
    using plan by (intro create_deliveries_fault_free) (auto simp: has_key_def new_event_def)
  show ?thesis
    unfolding ingest_tx_def
    using s0 s1 s2 s3 s4 s5
    by (simp add: andThen_def m Let_def ret_def routed_answer_def topics_def ingested_def)
qed

lemma ingested_plan [simp]: "db_plan (ingested tel raw ident now d) = db_plan d"
  by (simp add: ingested_def Let_def)

lemma ingest_accepts:
  assumes plan: "db_plan (w_db w) = []" and uniq: "distinct (map rr_rule_id (db_rules (w_db w)))"
    and parsed: "parse_message raw now = Inr tel"
    and dev: "find_row dv_id (tm_device tel) (db_devices (w_db w)) = Some dv"
    and active: "dv_status dv = DeviceActive"
    and key: "find_row rm_dedup_key (telemetry_key tel) (db_raws (w_db w)) = None"
    and fresh: "\<not> has_key ev_event_id (new_event_id bytes) (db_events (w_db w))"
  shows "ingest_telemetry window now bytes raw w
    = (Inr (routed_answer tel (new_event_id bytes) now (w_db w)),
       w\<lparr>w_db := ingested tel raw (new_event_id bytes) now (w_db w)\<rparr>)"
proof -
  have tx: "ingest_tx tel raw (telemetry_key tel) (new_event_id bytes) now (w_db w)
    = (Inr (routed_answer tel (new_event_id bytes) now (w_db w)),
       ingested tel raw (new_event_id bytes) now (w_db w))"
    using assms by (intro ingest_tx_accepts) simp_all
  have g: "call (get_device (tm_device tel)) w = (Inr (Some dv), w)"
    using plan dev by (simp add: call_fault_free get_device_def)
  have f: "call (find_raw_by_dedup (telemetry_key tel)) w = (Inr None, w)"
    using plan key by (simp add: call_fault_free find_raw_by_dedup_def)
  have "on_db (in_tx Failed (ingest_tx tel raw (telemetry_key tel) (new_event_id bytes) now)) w
    = (Inr (routed_answer tel (new_event_id bytes) now (w_db w)),
       w\<lparr>w_db := ingested tel raw (new_event_id bytes) now (w_db w)\<rparr>)"
    using plan by (simp add: on_db_def in_tx_fault_free tx)
  then show ?thesis
    using g f active by (simp add: ingest_telemetry_def parsed andThen_def catch_def Let_def)
qed

lemma duplicate_result_fault_free:
  assumes "db_plan (w_db w) = []"
  shows "\<exists>res. duplicate_result m w = (Inr res, w) \<and> tr_duplicate res
    \<and> tr_event_id res = (case rm_event_id m of None \<Rightarrow> [] | Some i \<Rightarrow> i)"
  using assms
  by (auto simp: duplicate_result_def call_fault_free get_event_by_id_def list_rules_False Let_def
      split: option.split)

text \<open>A stored key makes every later message with the key a duplicate, however old the row is.\<close>

lemma ingest_stored_key:
  assumes plan: "db_plan (w_db w) = []"
    and parsed: "parse_message raw now = Inr tel"
    and dev: "find_row dv_id (tm_device tel) (db_devices (w_db w)) = Some dv"
    and active: "dv_status dv = DeviceActive"
    and key: "find_row rm_dedup_key (telemetry_key tel) (db_raws (w_db w)) = Some m"
    and st: "rm_status m = RawParsed"
  shows "\<exists>res. ingest_telemetry window now bytes raw w = (Inr res, w) \<and> tr_duplicate res
    \<and> tr_event_id res = (case rm_event_id m of None \<Rightarrow> [] | Some i \<Rightarrow> i)"
proof -
  have g: "call (get_device (tm_device tel)) w = (Inr (Some dv), w)"
    using plan dev by (simp add: call_fault_free get_device_def)
  have f: "call (find_raw_by_dedup (telemetry_key tel)) w = (Inr (Some m), w)"
    using plan key by (simp add: call_fault_free find_raw_by_dedup_def)
  have tx: "ingest_tx tel raw (telemetry_key tel) (new_event_id bytes) now (w_db w)
    = (Inl (Domain ErrDuplicate), w_db w)"
    using plan key st by (simp add: ingest_tx_def andThen_def sql_fault_free find_raw_by_dedup_def fail_def)
  have "on_db (in_tx Failed (ingest_tx tel raw (telemetry_key tel) (new_event_id bytes) now)) w
    = (Inl (Domain ErrDuplicate), w)"
    using plan by (simp add: on_db_def in_tx_fault_free tx roll_back_def)
  moreover have "after_tx (telemetry_key tel) (Domain ErrDuplicate) w = duplicate_result m w"
    by (simp add: after_tx_def f)
  ultimately show ?thesis
    using duplicate_result_fault_free[OF plan, of m] g f active st
    by (auto simp: ingest_telemetry_def parsed andThen_def catch_def Let_def)
qed

lemma find_row_append_new:
  "find_row key k rows = None \<Longrightarrow> find_row key k (rows @ [r]) = (if key r = k then Some r else None)"
  by (simp add: find_row_def find_append)

section \<open>Atomicity\<close>

lemma same_tables_reads: "reads_only st \<Longrightarrow> keeps same_tables st"
  by (simp add: keeps_def reads_only_def tables.R_refl)

lemma keeps_call_reads: "reads_only st \<Longrightarrow> keeps (on_w_db same_tables) (call st)"
  by (intro tables.keeps_call same_tables_reads)

lemma duplicate_result_tables: "keeps (on_w_db same_tables) (duplicate_result m)"
proof (rule keepsI)
  fix s r t assume run: "duplicate_result m s = (r, t)"
  have e: "keeps (on_w_db same_tables) (call (get_event_by_id i))" for i
    by (intro keeps_call_reads reading_statements)
  have l: "keeps (on_w_db same_tables) (call (list_rules False))"
    by (intro keeps_call_reads reading_statements)
  from run show "on_w_db same_tables s t"
    by (auto simp: duplicate_result_def Let_def tables.world.R_refl
        split: option.splits prod.splits sum.splits dest!: keepsD[OF e] keepsD[OF l]
        intro: tables.world.R_trans)
qed

lemma after_tx_tables: "keeps (on_w_db same_tables) (after_tx key e)"
proof (rule keepsI)
  fix s r t assume run: "after_tx key e s = (r, t)"
  have f: "keeps (on_w_db same_tables) (call (find_raw_by_dedup key))"
    by (intro keeps_call_reads reading_statements)
  from run show "on_w_db same_tables s t"
    by (auto simp: after_tx_def tables.world.R_refl split: if_splits prod.splits sum.splits option.splits
        dest!: keepsD[OF f] keepsD[OF duplicate_result_tables] intro: tables.world.R_trans)
qed

text \<open>An error of a use case leaves every table as it was, as long as no reply is lost.\<close>

definition error_safe :: "'a use_case \<Rightarrow> bool" where
  "error_safe m \<longleftrightarrow> (\<forall>s e t. no_lost_reply (w_db s) \<longrightarrow> m s = (Inl e, t) \<longrightarrow> on_w_db same_tables s t)"

lemma error_safe_kept: "keeps (on_w_db same_tables) m \<Longrightarrow> error_safe m"
  by (auto simp: error_safe_def dest: keepsD)

lemma error_safe_andThen:
  assumes "keeps (on_w_db same_tables) m" and "keeps (on_w_db plan_shrinks) m" and "\<And>x. error_safe (f x)"
  shows "error_safe (andThen m f)"
  unfolding error_safe_def
proof (intro allI impI)
  fix s e t assume n: "no_lost_reply (w_db s)" and run: "andThen m f s = (Inl e, t)"
  obtain r s1 where m: "m s = (r, s1)" by fastforce
  have t1: "on_w_db same_tables s s1" by (rule keepsD[OF assms(1) m])
  have n1: "no_lost_reply (w_db s1)"
    using keepsD[OF assms(2) m] n by (auto simp: on_w_db_def intro: no_lost_reply_kept)
  show "on_w_db same_tables s t"
  proof (cases r)
    case (Inl e')
    with run m t1 show ?thesis by (simp add: andThen_def)
  next
    case (Inr x)
    with run m have "f x s1 = (Inl e, t)" by (simp add: andThen_def)
    with assms(3) n1 have "on_w_db same_tables s1 t" unfolding error_safe_def by blast
    with t1 show ?thesis by (rule tables.world.R_trans)
  qed
qed

lemma error_safe_then_ret: "error_safe m \<Longrightarrow> error_safe (andThen m (\<lambda>x. ret (g x)))"
  by (auto simp: error_safe_def andThen_def ret_def split: prod.splits sum.splits)

lemma error_safe_catch:
  assumes "error_safe m" and "\<And>e. keeps (on_w_db same_tables) (h e)"
  shows "error_safe (catch h m)"
  unfolding error_safe_def
proof (intro allI impI)
  fix s e t assume n: "no_lost_reply (w_db s)" and run: "catch h m s = (Inl e, t)"
  then obtain e' s1 where "m s = (Inl e', s1)" and h: "h e' s1 = (Inl e, t)"
    by (auto simp: catch_def split: prod.splits sum.splits)
  with assms(1) n have "on_w_db same_tables s s1" unfolding error_safe_def by blast
  moreover have "on_w_db same_tables s1 t" by (rule keepsD[OF assms(2) h])
  ultimately show "on_w_db same_tables s t" by (rule tables.world.R_trans)
qed

lemma error_safe_tx:
  assumes "keeps plan_shrinks body"
  shows "error_safe (on_db (in_tx Failed body))"
  unfolding error_safe_def
proof (intro allI impI)
  fix s e t assume n: "no_lost_reply (w_db s)" and run: "on_db (in_tx Failed body) s = (Inl e, t)"
  then obtain d where tx: "in_tx Failed body (w_db s) = (Inl e, d)" and t: "t = s\<lparr>w_db := d\<rparr>"
    by (auto simp: on_db_def Let_def split: prod.splits)
  from in_tx_outcome[OF tx] show "on_w_db same_tables s t"
  proof
    assume "same_tables (w_db s) d" then show ?thesis by (simp add: t on_w_db_def)
  next
    assume "\<exists>x d1 q. body ((w_db s)\<lparr>db_plan := tl (db_plan (w_db s))\<rparr>) = (Inr x, d1)
      \<and> d = d1\<lparr>db_plan := q\<rparr>
      \<and> (Inl e = Inr x \<or> (\<exists>e'. Inl e = (Inl (Failed e') :: svc_error + 'a)
          \<and> Some (FailAfter e') \<in> set (db_plan d1)))"
    then obtain x d1 e' where body: "body ((w_db s)\<lparr>db_plan := tl (db_plan (w_db s))\<rparr>) = (Inr x, d1)"
      and lost: "Some (FailAfter e') \<in> set (db_plan d1)" by auto
    have "plan_shrinks (w_db s) d1"
      using plan.R_plan keepsD[OF assms body] by (rule plan.R_trans)
    with n have "no_lost_reply d1" by (rule no_lost_reply_kept)
    with lost show ?thesis by (auto simp: no_lost_reply_def)
  qed
qed

lemma ingest_error_safe: "error_safe (ingest_telemetry window now bytes raw)"
proof (cases "parse_message raw now")
  case (Inl e)
  then show ?thesis
    unfolding ingest_telemetry_def by (simp add: error_safe_kept tables.keeps_fail_with)
next
  case (Inr tel)
  have reads: "keeps (on_w_db same_tables) (call st)" "keeps (on_w_db plan_shrinks) (call st)"
    if "reads_only st" for st :: "'b statement"
    using that by (auto intro: keeps_call_reads plan.keeps_call plan.keeps_reads)
  show ?thesis
    unfolding ingest_telemetry_def Inr Let_def
    by (auto intro!: error_safe_andThen error_safe_catch error_safe_tx reads reading_statements
        error_safe_kept[OF tables.world.keeps_fail] error_safe_kept[OF duplicate_result_tables]
        after_tx_tables plan.keeps_ingest_tx split: option.split)
qed

lemma fail_with_safe: "error_safe (fail_with e d)"
  by (intro error_safe_kept tables.keeps_fail_with)

lemma fail_safe: "error_safe (fail e)"
  by (intro error_safe_kept tables.world.keeps_fail)

lemma conflict_tables:
  "keeps (on_w_db same_tables) (if is_unique_violation e then fail (Domain n) else fail e)"
  by (simp add: tables.world.keeps_fail)

lemma rule_reads:
  "keeps (on_w_db same_tables) (call (get_rule i))" "keeps (on_w_db plan_shrinks) (call (get_rule i))"
  by (intro keeps_call_reads plan.keeps_call plan.keeps_reads reading_statements)+

lemma add_rule_error_safe: "error_safe (add_rule ctx now bytes inp)"
  unfolding add_rule_def Let_def
  by (auto intro!: error_safe_andThen error_safe_catch error_safe_then_ret error_safe_tx rule_reads
      fail_with_safe fail_safe conflict_tables plan.keeps_rules plan.keeps_sql plan.keeps_rule_statements)

lemma change_rule_error_safe: "error_safe (change_rule ctx now i inp)"
  unfolding change_rule_def Let_def
  by (rule error_safe_andThen[OF rule_reads], simp split: option.split)
     (auto intro!: error_safe_then_ret error_safe_tx fail_safe plan.keeps_rules plan.keeps_sql
      plan.keeps_rule_statements)

lemma delete_rule_error_safe: "error_safe (delete_rule ctx now i)"
  unfolding delete_rule_def Let_def
  by (rule error_safe_andThen[OF rule_reads], simp split: option.split)
     (auto intro!: error_safe_tx fail_safe plan.keeps_rules plan.keeps_sql plan.keeps_rule_statements)

section \<open>A sample state\<close>

text \<open>A device, two rules that match everything, and no traffic yet; and a message of the device.\<close>

definition sample_device :: device where
  "sample_device = \<lparr>dv_id = ''DEVICE01'', dv_name = ''pump'', dv_protocol = ''v1'', dv_status = DeviceActive,
     dv_metadata = None, dv_last_seen = None, dv_created = 0, dv_updated = 0\<rparr>"

definition sample_db :: database where
  "sample_db = (empty_database (\<lambda>t. t) (map byte_val))\<lparr>db_devices := [sample_device],
     db_rules := [sample_rule ''a'' 5, (sample_rule ''b'' 9)\<lparr>rr_id := 2\<rparr>], db_seq_rule := 3\<rparr>"

definition sample_world :: world where
  "sample_world = \<lparr>w_db = sample_db, w_errors = initial_error\<rparr>"

definition sample_text :: string where
  "sample_text = build_message ''DEVICE01'' 0 0 ''temperature'' (FFin False 0) ''CC''"

definition sample_telemetry :: telemetry where
  "sample_telemetry = \<lparr>tm_device = ''DEVICE01'', tm_ts = 0 div second * second, tm_metric = ''temperature'',
     tm_value = FFin False 0, tm_unit = trim_space ''CC'',
     tm_checksum = checksum_hex (message_body ''DEVICE01'' 0 0 ''temperature'' (FFin False 0) ''CC'')\<rparr>"

lemma sample_parsed: "parse_message sample_text 0 = Inr sample_telemetry"
  unfolding sample_text_def sample_telemetry_def by (rule epoch_message_accepted)

lemma sample_facts:
  "db_plan (w_db sample_world) = []" "distinct (map rr_rule_id (db_rules (w_db sample_world)))"
  "find_row dv_id (tm_device sample_telemetry) (db_devices (w_db sample_world)) = Some sample_device"
  "dv_status sample_device = DeviceActive"
  "find_row rm_dedup_key k (db_raws (w_db sample_world)) = None"
  "\<not> has_key ev_event_id i (db_events (w_db sample_world))"
  by (simp_all add: sample_world_def sample_db_def empty_database_def sample_rule_def find_row_def has_key_def
      sample_telemetry_def sample_device_def)

end
