(* ===== verification/Worker.thy ===== *)
theory Worker
  imports Service
begin

text \<open>
  \<^verbatim>\<open>internal/worker\<close>: the background pass over due deliveries, with exponential backoff and dead
  letters.  The sink is a parameter: a function of everything it was handed before, the topic and
  the payload, that answers with the text of an error or with success.  The log of the attempts is
  part of the state, so what was dispatched can be stated.
\<close>

section \<open>State and parameters\<close>

datatype payload_state = StateRouted | StateDispatched | StateDead

record dispatch_payload =
  pl_event_id :: string
  pl_device :: string
  pl_metric :: string
  pl_value :: float64
  pl_unit :: string
  pl_ts :: instant
  pl_rule_id :: string
  pl_topic :: string
  pl_status :: payload_state

type_synonym attempt = "string \<times> dispatch_payload \<times> string option"

type_synonym sink = "attempt list \<Rightarrow> string \<Rightarrow> dispatch_payload \<Rightarrow> string option"

record worker_state =
  ws_db :: database
  ws_log :: "attempt list"

record options =
  op_interval :: duration
  op_batch :: int
  op_max_attempt :: int
  op_base_delay :: duration

definition default_options :: options where
  "default_options = \<lparr>op_interval = 2 * second, op_batch = 100, op_max_attempt = 5,
     op_base_delay = second\<rparr>"

text \<open>The options \<^verbatim>\<open>New\<close> keeps.\<close>

definition worker_options :: "options \<Rightarrow> options" where
  "worker_options o' = \<lparr>
     op_interval = (if op_interval o' \<le> 0 then 2 * second else op_interval o'),
     op_batch = (if op_batch o' \<le> 0 then 100 else op_batch o'),
     op_max_attempt = (if op_max_attempt o' \<le> 0 then 5 else op_max_attempt o'),
     op_base_delay = (if op_base_delay o' \<le> 0 then second else op_base_delay o')\<rparr>"

type_synonym 'a job = "(worker_state, db_error, 'a) action"

definition store_call :: "'a statement \<Rightarrow> 'a job" where
  "store_call st s = (let (r, d) = exec st (ws_db s) in (r, s\<lparr>ws_db := d\<rparr>))"

section \<open>Backoff\<close>

text \<open>The loop of \<^verbatim>\<open>backoff\<close> in 64-bit arithmetic, with its early return.\<close>

fun backoff_loop :: "nat \<Rightarrow> duration \<Rightarrow> duration" where
  "backoff_loop 0 d = d"
| "backoff_loop (Suc k) d = (let d' = wrap64 (d * 2) in
     if minute < d' then minute else backoff_loop k d')"

definition backoff :: "options \<Rightarrow> int \<Rightarrow> duration" where
  "backoff opts attempt = backoff_loop (nat (attempt - 1)) (op_base_delay opts)"

section \<open>Dispatch\<close>

definition payload_of :: "event \<Rightarrow> delivery \<Rightarrow> dispatch_payload" where
  "payload_of ev d = \<lparr>pl_event_id = ev_event_id ev, pl_device = ev_device ev, pl_metric = ev_metric ev,
     pl_value = ev_value ev, pl_unit = ev_unit ev, pl_ts = ev_ts ev, pl_rule_id = dl_rule_id d,
     pl_topic = dl_topic d, pl_status = StateRouted\<rparr>"

definition handle_failure :: "options \<Rightarrow> delivery \<Rightarrow> event \<Rightarrow> instant \<Rightarrow> string \<Rightarrow> unit job" where
  "handle_failure opts d ev now err = (let attempt = dl_attempts d + 1 in
     if op_max_attempt opts \<le> attempt then
       andThen (store_call (mark_dead (dl_id d) err now)) (\<lambda>_.
       store_call (update_event_status (ev_event_id ev) EventDeadLetter))
     else store_call (mark_failed (dl_id d) attempt err (now + backoff opts attempt)))"

definition send :: "sink \<Rightarrow> string \<Rightarrow> dispatch_payload \<Rightarrow> string option job" where
  "send sink topic payload s = (let answer = sink (ws_log s) topic payload in
     (Inr answer, s\<lparr>ws_log := ws_log s @ [(topic, payload, answer)]\<rparr>))"

text \<open>
  \<^verbatim>\<open>json.Marshal\<close> fails on a value that is no finite number and on a timestamp whose year does not
  have four digits; the encoded payload is kept as the record it encodes.
\<close>

definition marshals :: "event \<Rightarrow> bool" where
  "marshals ev \<longleftrightarrow> is_finite (ev_value ev)
     \<and> (case civil_from_days (ev_ts ev div second div 86400) of (y, _, _) \<Rightarrow> 0 \<le> y \<and> y \<le> 9999)"

definition dispatch_one :: "options \<Rightarrow> sink \<Rightarrow> instant \<Rightarrow> delivery \<Rightarrow> unit job" where
  "dispatch_one opts sink now d =
     andThen (store_call (get_event_by_id (dl_event_id d))) (\<lambda>found.
     case found of
       None \<Rightarrow> store_call (mark_dead (dl_id d) ''event not found'' now)
     | Some ev \<Rightarrow>
         if \<not> marshals ev then fail (Refused ''json: unsupported payload'')
         else andThen (send sink (dl_topic d) (payload_of ev d)) (\<lambda>answer.
           case answer of
             Some err \<Rightarrow> handle_failure opts d ev now err
           | None \<Rightarrow>
               andThen (store_call (mark_delivered (dl_id d) now)) (\<lambda>_.
               store_call (update_event_status (ev_event_id ev) EventDispatched))))"

definition process_once :: "options \<Rightarrow> sink \<Rightarrow> instant \<Rightarrow> unit job" where
  "process_once opts sink now =
     andThen (store_call (list_due_deliveries now (op_batch opts))) (\<lambda>due.
     for_each (dispatch_one opts sink now) due)"

text \<open>
  \<^verbatim>\<open>Run\<close> on the ticks that come before the context is cancelled; the error of a pass is logged and
  the loop goes on.
\<close>

fun run_ticks :: "options \<Rightarrow> sink \<Rightarrow> instant list \<Rightarrow> worker_state \<Rightarrow> worker_state" where
  "run_ticks opts sink [] s = s"
| "run_ticks opts sink (now # ticks) s = run_ticks opts sink ticks (snd (process_once opts sink now s))"

definition log_sink :: sink where
  "log_sink sent topic payload = None"

section \<open>Relations kept by the worker\<close>

definition on_ws_db :: "(database \<Rightarrow> database \<Rightarrow> bool) \<Rightarrow> worker_state \<Rightarrow> worker_state \<Rightarrow> bool" where
  "on_ws_db R s t \<longleftrightarrow> R (ws_db s) (ws_db t)"

sublocale db_relation \<subseteq> job: step_preorder "on_ws_db R"
  by unfold_locales (auto simp: on_ws_db_def intro: R_refl R_trans)

context work_relation
begin

lemma keeps_store_call: "keeps R st \<Longrightarrow> keeps (on_ws_db R) (store_call st)"
proof (rule keepsI)
  fix s r t assume "keeps R st" and "store_call st s = (r, t)"
  then show "on_ws_db R s t"
    using keepsD[OF keeps_exec, of st "ws_db s"]
    by (auto simp: store_call_def on_ws_db_def Let_def split: prod.splits)
qed

lemma keeps_send: "keeps (on_ws_db R) (send sink topic p)"
  by (simp add: keeps_def send_def on_ws_db_def Let_def R_refl)

lemma keeps_handle_failure: "keeps (on_ws_db R) (handle_failure opts d ev now err)"
  unfolding handle_failure_def Let_def
  by (auto intro!: job.keeps_rules keeps_store_call keeps_work)

lemma keeps_dispatch_one: "keeps (on_ws_db R) (dispatch_one opts sink now d)"
  unfolding dispatch_one_def
  by (auto intro!: job.keeps_rules keeps_store_call keeps_work keeps_send keeps_handle_failure
      split: option.split)

lemma keeps_process_once: "keeps (on_ws_db R) (process_once opts sink now)"
  unfolding process_once_def
  by (intro job.keeps_rules keeps_store_call keeps_work keeps_dispatch_one)

end

end
