(* ===== verification/Metrics.thy ===== *)
theory Metrics
  imports GoStrconv GoJson "HOL-Library.List_Lexorder"
begin

text \<open>
  \<^verbatim>\<open>internal/metrics\<close>: counters, gauges and histograms, the registry, and the Prometheus text.
  The registry holds the instruments by name; an instrument is updated under its mutex, so each
  operation is one step.
\<close>

section \<open>Counters and gauges\<close>

record counter =
  ct_value :: float64
  ct_help :: string
  ct_labels :: "string list"

record gauge =
  gg_value :: float64
  gg_help :: string
  gg_labels :: "string list"

definition counter_add :: "float64 \<Rightarrow> counter \<Rightarrow> counter" where
  "counter_add n c = c\<lparr>ct_value := fadd (ct_value c) n\<rparr>"

definition counter_inc :: "counter \<Rightarrow> counter" where
  "counter_inc c = counter_add (of_natural 1) c"

definition gauge_set :: "float64 \<Rightarrow> gauge \<Rightarrow> gauge" where
  "gauge_set n g = g\<lparr>gg_value := n\<rparr>"

definition gauge_add :: "float64 \<Rightarrow> gauge \<Rightarrow> gauge" where
  "gauge_add n g = g\<lparr>gg_value := fadd (gg_value g) n\<rparr>"

definition gauge_inc :: "gauge \<Rightarrow> gauge" where
  "gauge_inc g = gauge_add (of_natural 1) g"

section \<open>Histograms\<close>

record histogram =
  hg_help :: string
  hg_labels :: "string list"
  hg_bounds :: "float64 list"
  hg_counts :: "float64 list"
  hg_sum :: float64
  hg_count :: float64

text \<open>The loop over the bounds stops at the first one that is not exceeded.\<close>

fun first_bucket :: "float64 \<Rightarrow> float64 list \<Rightarrow> nat option" where
  "first_bucket x [] = None"
| "first_bucket x (b # bs) = (if fle x b then Some 0 else map_option Suc (first_bucket x bs))"

definition bump :: "nat \<Rightarrow> float64 list \<Rightarrow> float64 list" where
  "bump i cs = cs[i := fadd (cs ! i) (of_natural 1)]"

text \<open>Without bounds the code reads past the slice: \<^term>\<open>None\<close> is the panic.\<close>

definition observe :: "float64 \<Rightarrow> histogram \<Rightarrow> histogram option" where
  "observe x h = (let cs = (case first_bucket x (hg_bounds h) of
         Some i \<Rightarrow> bump i (hg_counts h) | None \<Rightarrow> hg_counts h) in
     if hg_bounds h = [] then None
     else Some (h\<lparr>hg_sum := fadd (hg_sum h) x, hg_count := fadd (hg_count h) (of_natural 1),
       hg_counts := (if flt (last (hg_bounds h)) x then bump (length cs - 1) cs else cs)\<rparr>))"

section \<open>The registry\<close>

record registry =
  rg_counters :: "(string \<times> counter) list"
  rg_gauges :: "(string \<times> gauge) list"
  rg_histograms :: "(string \<times> histogram) list"

definition new_registry :: registry where
  "new_registry = \<lparr>rg_counters = [], rg_gauges = [], rg_histograms = []\<rparr>"

definition new_counter :: "string \<Rightarrow> string \<Rightarrow> string list \<Rightarrow> registry \<Rightarrow> registry" where
  "new_counter name help labels r = r\<lparr>rg_counters :=
     put name \<lparr>ct_value = of_natural 0, ct_help = help, ct_labels = labels\<rparr> (rg_counters r)\<rparr>"

definition new_gauge :: "string \<Rightarrow> string \<Rightarrow> string list \<Rightarrow> registry \<Rightarrow> registry" where
  "new_gauge name help labels r = r\<lparr>rg_gauges :=
     put name \<lparr>gg_value = of_natural 0, gg_help = help, gg_labels = labels\<rparr> (rg_gauges r)\<rparr>"

definition fresh_histogram :: "string \<Rightarrow> string list \<Rightarrow> float64 list \<Rightarrow> histogram" where
  "fresh_histogram help labels bounds = \<lparr>hg_help = help, hg_labels = labels, hg_bounds = bounds,
     hg_counts = replicate (length bounds + 1) (of_natural 0), hg_sum = of_natural 0, hg_count = of_natural 0\<rparr>"

definition new_histogram :: "string \<Rightarrow> string \<Rightarrow> float64 list \<Rightarrow> string list \<Rightarrow> registry \<Rightarrow> registry" where
  "new_histogram name help bounds labels r = r\<lparr>rg_histograms :=
     put name (fresh_histogram help labels bounds) (rg_histograms r)\<rparr>"

definition default_bounds :: "float64 list" where
  "default_bounds = map (\<lambda>n. of_ratio False n 1000) [5, 10, 25, 50, 100, 250, 500, 1000, 2500, 5000, 10000]"

definition new_default_histogram :: "string \<Rightarrow> string \<Rightarrow> registry \<Rightarrow> registry" where
  "new_default_histogram name help r = new_histogram name help default_bounds [] r"

section \<open>The text format\<close>

definition newline :: string where
  "newline = [CHR 0x0A]"

definition header :: "string \<Rightarrow> string \<Rightarrow> string \<Rightarrow> string" where
  "header name help kind = ''# HELP '' @ name @ '' '' @ help @ newline @ ''# TYPE '' @ name @ '' '' @ kind @ newline"

definition render_counter :: "string \<Rightarrow> counter \<Rightarrow> string" where
  "render_counter name c = header name (ct_help c) ''counter'' @ name @ '' '' @ format_f (ct_value c) @ newline"

definition render_gauge :: "string \<Rightarrow> gauge \<Rightarrow> string" where
  "render_gauge name g = header name (gg_help g) ''gauge'' @ name @ '' '' @ format_f (gg_value g) @ newline"

text \<open>The cumulated counts of the buckets, the last of them being that of all observations.\<close>

fun cumulate :: "float64 \<Rightarrow> float64 list \<Rightarrow> float64 list" where
  "cumulate acc [] = []"
| "cumulate acc (c # cs) = fadd acc c # cumulate (fadd acc c) cs"

definition bucket_line :: "string \<Rightarrow> string \<Rightarrow> float64 \<Rightarrow> string" where
  "bucket_line name le v = name @ ''_bucket{le='' @ [CHR 0x22] @ le @ [CHR 0x22] @ ''} '' @ format_f v @ newline"

definition render_histogram :: "string \<Rightarrow> histogram \<Rightarrow> string" where
  "render_histogram name h =
     header name (hg_help h) ''histogram''
     @ concat (map2 (bucket_line name) (map format_f (hg_bounds h) @ [''+Inf'']) (cumulate (of_natural 0) (hg_counts h)))
     @ name @ ''_sum '' @ format_f (hg_sum h) @ newline
     @ name @ ''_count '' @ format_f (hg_count h) @ newline"

definition render_name :: "registry \<Rightarrow> string \<Rightarrow> string" where
  "render_name r n =
     (case map_of (rg_counters r) n of Some c \<Rightarrow> render_counter n c | None \<Rightarrow> [])
     @ (case map_of (rg_gauges r) n of Some g \<Rightarrow> render_gauge n g | None \<Rightarrow> [])
     @ (case map_of (rg_histograms r) n of Some h \<Rightarrow> render_histogram n h | None \<Rightarrow> [])"

text \<open>Names are sorted bytewise; a name of two kinds is listed, and rendered, twice.\<close>

definition render :: "registry \<Rightarrow> string" where
  "render r = concat (map (render_name r) (sort_key (map (of_char :: char \<Rightarrow> nat))
     (map fst (rg_counters r) @ map fst (rg_gauges r) @ map fst (rg_histograms r))))"

section \<open>What a histogram counts\<close>

definition ordered_bounds :: "float64 list \<Rightarrow> bool" where
  "ordered_bounds bs \<longleftrightarrow> bs \<noteq> [] \<and> sorted_wrt fle bs \<and> list_all (\<lambda>b. \<not> is_nan b) bs"

definition bucket_of :: "float64 list \<Rightarrow> float64 \<Rightarrow> nat" where
  "bucket_of bs x = (case first_bucket x bs of Some i \<Rightarrow> i | None \<Rightarrow> length bs)"

fun observe_all :: "float64 list \<Rightarrow> histogram \<Rightarrow> histogram option" where
  "observe_all [] h = Some h"
| "observe_all (x # xs) h = (case observe x h of None \<Rightarrow> None | Some h' \<Rightarrow> observe_all xs h')"

definition in_bucket :: "float64 list \<Rightarrow> float64 list \<Rightarrow> nat \<Rightarrow> nat" where
  "in_bucket bs xs i = length (filter (\<lambda>x. bucket_of bs x = i) xs)"

lemma first_bucket_Some: "first_bucket x bs = Some i \<Longrightarrow> i < length bs \<and> fle x (bs ! i)"
  by (induction bs arbitrary: i) (auto split: if_splits)

lemma first_bucket_None: "first_bucket x bs = None \<longleftrightarrow> (\<forall>b \<in> set bs. \<not> fle x b)"
  by (induction bs) auto

lemma fle_refl: "\<not> is_nan x \<Longrightarrow> fle x x"
  by (cases x) (auto simp: fle_def is_nan_def)

lemma fle_last: "sorted_wrt fle bs \<Longrightarrow> list_all (\<lambda>b. \<not> is_nan b) bs \<Longrightarrow> b \<in> set bs \<Longrightarrow> fle b (last bs)"
  by (induction bs) (auto simp: fle_refl)

lemma observe_bump:
  assumes "ordered_bounds (hg_bounds h)" and "\<not> is_nan x"
    and len: "length (hg_counts h) = length (hg_bounds h) + 1"
  shows "observe x h = Some (h\<lparr>hg_sum := fadd (hg_sum h) x, hg_count := fadd (hg_count h) (of_natural 1),
    hg_counts := bump (bucket_of (hg_bounds h) x) (hg_counts h)\<rparr>)"
proof (cases "first_bucket x (hg_bounds h)")
  case None
  have "last (hg_bounds h) \<in> set (hg_bounds h)" using assms(1) by (simp add: ordered_bounds_def)
  then have "\<not> fle x (last (hg_bounds h))" "\<not> is_nan (last (hg_bounds h))"
    using None assms(1) by (auto simp: first_bucket_None ordered_bounds_def list_all_iff)
  then have "flt (last (hg_bounds h)) x" using fle_or_flt assms(2) by blast
  with None len assms(1) show ?thesis by (simp add: observe_def bucket_of_def ordered_bounds_def)
next
  case (Some i)
  from first_bucket_Some[OF Some] have "fle x (last (hg_bounds h))"
    using assms(1) fle_last nth_mem fle_trans unfolding ordered_bounds_def by metis
  then have "\<not> flt (last (hg_bounds h)) x" using flt_not_fle by blast
  with Some assms(1) show ?thesis by (simp add: observe_def bucket_of_def ordered_bounds_def)
qed

lemma bucket_of_le: "bucket_of bs x \<le> length bs"
  by (auto simp: bucket_of_def dest: first_bucket_Some split: option.split)

lemma length_bump [simp]: "length (bump i cs) = length cs"
  by (simp add: bump_def)

lemma nth_bump: "i < length cs \<Longrightarrow> bump i cs ! j = (if j = i then fadd (cs ! i) (of_natural 1) else cs ! j)"
  by (simp add: bump_def nth_list_update)

text \<open>The counts of a histogram as the numbers of observations they stand for.\<close>

definition counted :: "float64 list \<Rightarrow> float64 list \<Rightarrow> histogram \<Rightarrow> bool" where
  "counted bs xs h \<longleftrightarrow> hg_bounds h = bs \<and> hg_count h = of_natural (length xs)
     \<and> hg_counts h = map (\<lambda>i. of_natural (in_bucket bs xs i)) [0..<length bs + 1]"

lemma in_bucket_Nil [simp]: "in_bucket bs [] i = 0"
  by (simp add: in_bucket_def)

lemma in_bucket_snoc: "in_bucket bs (xs @ [x]) i = in_bucket bs xs i + (if bucket_of bs x = i then 1 else 0)"
  by (simp add: in_bucket_def)

lemma in_bucket_le: "in_bucket bs xs i \<le> length xs"
  by (simp add: in_bucket_def)

lemma counted_fresh: "counted bs [] (fresh_histogram help labels bs)"
  by (auto simp: counted_def fresh_histogram_def map_replicate_const simp del: upt_Suc)

lemma counted_observe:
  assumes "counted bs xs h" and "ordered_bounds bs" and "\<not> is_nan x" and len: "length xs < 2 ^ 53"
  shows "\<exists>h'. observe x h = Some h' \<and> counted bs (xs @ [x]) h'"
proof -
  let ?b = "bucket_of bs x"
  have h: "hg_bounds h = bs" "hg_count h = of_natural (length xs)"
    "hg_counts h = map (\<lambda>i. of_natural (in_bucket bs xs i)) [0..<length bs + 1]"
    using assms(1) by (simp_all add: counted_def)
  have add: "fadd (of_natural k) (of_natural 1) = of_natural (k + 1)" if "k \<le> length xs" for k
    using that len by (intro of_natural_add) simp
  have "bump ?b (hg_counts h) = map (\<lambda>i. of_natural (in_bucket bs (xs @ [x]) i)) [0..<length bs + 1]"
  proof (rule nth_equalityI)
    fix i assume "i < length (bump ?b (hg_counts h))"
    then have "i < length bs + 1" by (simp add: h)
    then show "bump ?b (hg_counts h) ! i = map (\<lambda>i. of_natural (in_bucket bs (xs @ [x]) i)) [0..<length bs + 1] ! i"
      using bucket_of_le[of bs x] add[OF in_bucket_le, of bs ?b]
      by (simp add: h nth_bump in_bucket_snoc del: upt_Suc One_nat_def)
  qed (simp add: h)
  moreover have "observe x h = Some (h\<lparr>hg_sum := fadd (hg_sum h) x,
      hg_count := fadd (hg_count h) (of_natural 1), hg_counts := bump ?b (hg_counts h)\<rparr>)"
    using observe_bump[of h x] assms(2,3) h by simp
  ultimately show ?thesis
    using add[of "length xs"] h by (simp add: counted_def del: upt_Suc)
qed

lemma counted_observe_all:
  assumes "ordered_bounds bs" and "list_all (\<lambda>x. \<not> is_nan x) xs" and "length ys + length xs \<le> 2 ^ 53"
    and "counted bs ys h"
  shows "\<exists>h'. observe_all xs h = Some h' \<and> counted bs (ys @ xs) h'"
  using assms(2-)
proof (induction xs arbitrary: ys h)
  case (Cons x xs)
  then obtain h1 where h1: "observe x h = Some h1" "counted bs (ys @ [x]) h1"
    using counted_observe[OF Cons.prems(3) assms(1), of x] by auto
  with Cons.IH[of "ys @ [x]" h1] Cons.prems show ?case by simp
qed simp

lemma cumulate_upt:
  "a + sum f {i..<i + n} \<le> 2 ^ 53 \<Longrightarrow> cumulate (of_natural a) (map (\<lambda>k. of_natural (f k)) [i..<i + n])
    = map (\<lambda>k. of_natural (a + sum f {i..k})) [i..<i + n]"
proof (induction n arbitrary: a i)
  case (Suc n)
  have split: "sum f {i..<i + Suc n} = f i + sum f {Suc i..<Suc i + n}"
    by (simp add: sum.atLeast_Suc_lessThan)
  then have add: "fadd (of_natural a) (of_natural (f i)) = of_natural (a + f i)"
    using Suc.prems by (intro of_natural_add) simp
  have up: "[i..<i + Suc n] = i # [Suc i..<Suc i + n]" by (simp add: upt_conv_Cons del: upt_Suc)
  have rest: "map (\<lambda>k. of_natural (a + f i + sum f {Suc i..k})) [Suc i..<Suc i + n]
      = map (\<lambda>k. of_natural (a + sum f {i..k})) [Suc i..<Suc i + n]"
  proof (rule map_cong[OF refl])
    fix k assume "k \<in> set [Suc i..<Suc i + n]"
    then have "i \<le> k" by auto
    then have "sum f {i..k} = f i + sum f {Suc i..k}" by (rule sum.atLeast_Suc_atMost)
    then show "of_natural (a + f i + sum f {Suc i..k}) = of_natural (a + sum f {i..k})" by (simp add: add.assoc)
  qed
  show ?case
    using Suc.IH[of "a + f i" "Suc i"] Suc.prems split
    by (simp only: up list.map cumulate.simps add rest[symmetric]) simp
qed simp

lemma below_bucket:
  assumes "ordered_bounds bs" and "\<not> is_nan x" and k: "k < length bs"
  shows "bucket_of bs x \<le> k \<longleftrightarrow> fle x (bs ! k)"
proof
  assume "bucket_of bs x \<le> k"
  then obtain i where i: "first_bucket x bs = Some i" "i \<le> k"
    using k by (auto simp: bucket_of_def split: option.splits)
  then have "fle x (bs ! i)" using first_bucket_Some by blast
  moreover have "i = k \<or> fle (bs ! i) (bs ! k)"
    using assms(1) i(2) k sorted_wrt_nth_less[of fle bs i k] by (fastforce simp: ordered_bounds_def)
  ultimately show "fle x (bs ! k)" using fle_trans by metis
next
  have "i \<le> k" if "first_bucket x bs' = Some i" "fle x (bs' ! k)" "k < length bs'" for i bs'
    using that by (induction bs' arbitrary: i k) (auto simp: nth_Cons split: if_splits nat.splits)
  moreover assume "fle x (bs ! k)"
  ultimately show "bucket_of bs x \<le> k"
    using k by (auto simp: bucket_of_def first_bucket_None split: option.split)
qed

lemma sum_in_bucket: "sum (in_bucket bs xs) {0..k} = length (filter (\<lambda>x. bucket_of bs x \<le> k) xs)"
proof (induction xs rule: rev_induct)
  case (snoc x xs)
  then show ?case by (simp add: in_bucket_snoc sum.distrib)
qed simp

text \<open>C38. What a histogram reports: after any observations that are numbers, up to 2^53 of them, on
  ordered bounds, no update has panicked; the cumulated count shown for a bound is the number of
  observations that do not exceed it, and the one shown for +Inf is the total count.\<close>

theorem histogram_counts:
  assumes "ordered_bounds bs" and "list_all (\<lambda>x. \<not> is_nan x) xs" and "length xs \<le> 2 ^ 53"
  shows "\<exists>h. observe_all xs (fresh_histogram help labels bs) = Some h
    \<and> hg_count h = of_natural (length xs)
    \<and> cumulate (of_natural 0) (hg_counts h)
        = map (\<lambda>b. of_natural (length (filter (\<lambda>x. fle x b) xs))) bs @ [hg_count h]"
proof -
  obtain h where run: "observe_all xs (fresh_histogram help labels bs) = Some h" and h: "counted bs xs h"
    using counted_observe_all[OF assms(1,2), of "[]"] assms(3) counted_fresh by fastforce
  let ?n = "length bs"
  have num: "\<not> is_nan x" if "x \<in> set xs" for x using assms(2) that by (simp add: list_all_iff)
  have total: "length (filter (\<lambda>x. bucket_of bs x \<le> ?n) xs) = length xs"
    by (simp add: bucket_of_le)
  have below: "filter (\<lambda>x. bucket_of bs x \<le> k) xs = filter (\<lambda>x. fle x (bs ! k)) xs" if "k < ?n" for k
    using below_bucket[OF assms(1) num that] by (auto intro: filter_cong)
  have "sum (in_bucket bs xs) {0..<0 + (?n + 1)} \<le> 2 ^ 53"
    using assms(3) total by (simp add: sum_in_bucket atLeastLessThanSuc_atLeastAtMost)
  then have "cumulate (of_natural 0) (hg_counts h)
      = map (\<lambda>k. of_natural (sum (in_bucket bs xs) {0..k})) [0..<?n + 1]"
    using cumulate_upt[of 0 "in_bucket bs xs" 0 "?n + 1"] h by (simp add: counted_def del: upt_Suc)
  also have "\<dots> = map (\<lambda>b. of_natural (length (filter (\<lambda>x. fle x b) xs))) bs @ [of_natural (length xs)]"
    by (rule nth_equalityI) (auto simp: sum_in_bucket total below nth_append less_Suc_eq simp del: upt_Suc)
  finally show ?thesis using run h by (auto simp: counted_def)
qed

theorem histogram_counts_witness:
  "\<exists>h. observe_all (map of_natural [1, 2, 6, 20]) (fresh_histogram ''Latency.'' [] (map of_natural [1, 5, 10])) = Some h
    \<and> hg_count h = of_natural 4
    \<and> cumulate (of_natural 0) (hg_counts h) = map of_natural [1, 2, 3, 4]"
proof -
  let ?bs = "map of_natural [1, 5, 10]" and ?xs = "map of_natural [1, 2, 6, 20]"
  have bs: "ordered_bounds ?bs" and xs: "list_all (\<lambda>x. \<not> is_nan x) ?xs"
    by (simp_all add: ordered_bounds_def of_natural_le of_natural_num del: One_nat_def)
  have below: "map (\<lambda>b. of_natural (length (filter (\<lambda>x. fle x b) ?xs))) ?bs = map of_natural [1, 2, 3]"
    by (simp add: of_natural_le del: One_nat_def) (simp add: eval_nat_numeral)
  have len: "length ?xs = 4" by simp
  then have "length ?xs \<le> 2 ^ 53" by simp
  from histogram_counts[OF bs xs this, of "''Latency.''" "[]"] obtain h where
    "observe_all ?xs (fresh_histogram ''Latency.'' [] ?bs) = Some h" "hg_count h = of_natural 4"
    "cumulate (of_natural 0) (hg_counts h) = map of_natural [1, 2, 3] @ [of_natural 4]"
    unfolding below len by metis
  moreover have "map of_natural [1, 2, 3] @ [of_natural 4] = map of_natural [1, 2, 3, 4]"
    by (simp only: list.map append.simps)
  ultimately show ?thesis by metis
qed

end
