(* ===== verification/ServiceFacts.thy ===== *)
theory ServiceFacts
  imports Service
begin

text \<open>
  The properties of the use cases: what an accepted message does to the database, that sending it
  again changes nothing, that errors leave no trace, that rules never change without an entry in
  their change log, and that a replay only adds what is missing.
\<close>

section \<open>Ingestion\<close>

lemma call_get_device:
  "db_plan (w_db w) = [] \<Longrightarrow> call (get_device i) w = (Inr (find_row dv_id i (db_devices (w_db w))), w)"
  by (simp add: call_fault_free get_device_def)

lemma call_find_raw:
  "db_plan (w_db w) = [] \<Longrightarrow>
     call (find_raw_by_dedup k) w = (Inr (find_row rm_dedup_key k (db_raws (w_db w))), w)"
  by (simp add: call_fault_free find_raw_by_dedup_def)

text \<open>Without faults a transaction either succeeds as its body does or leaves the tables alone.\<close>

lemma ingest_tx_needs_new_key:
  assumes "db_plan d = []" and "find_row rm_dedup_key key (db_raws d) = Some m"
    and "ingest_tx tel raw key ident now d = (Inr res, d')" and "key = telemetry_key tel"
  shows False
  using assms
  by (auto simp: ingest_tx_def andThen_def sql_fault_free find_raw_by_dedup_def fail_def
      create_event_def insert_raw_def new_raw_def Let_def find_row_None_iff[symmetric]
      split: if_splits)

lemma ingest_tx_needs_new_event:
  assumes "db_plan d = []" and "has_key ev_event_id ident (db_events d)"
    and "ingest_tx tel raw key ident now d = (Inr res, d')"
  shows False
  using assms
  by (auto simp: ingest_tx_def andThen_def sql_fault_free find_raw_by_dedup_def fail_def
      create_event_def new_event_def Let_def split: if_splits)

lemma ingest_tx_plan:
  "db_plan d = [] \<Longrightarrow> ingest_tx tel raw key ident now d = (r, d') \<Longrightarrow> db_plan d' = []"
  using keepsD[OF plan.keeps_ingest_tx, of tel raw key ident now d r d']
  by (auto simp: plan_shrinks_def)

lemma after_tx_duplicate:
  assumes "db_plan (w_db w) = []" and "after_tx key e w = (Inr res, w')"
  shows "tr_duplicate res"
proof -
  from assms obtain m where "duplicate_result m w = (Inr res, w')"
    by (auto simp: after_tx_def call_find_raw split: if_splits option.splits)
  with duplicate_result_fault_free[OF assms(1), of m] show ?thesis by auto
qed

lemma ingest_success:
  assumes plan: "db_plan (w_db w) = []"
    and run: "ingest_telemetry window now bytes raw w = (Inr res, w')" and new: "\<not> tr_duplicate res"
  obtains tel dv where "parse_message raw now = Inr tel"
    and "find_row dv_id (tm_device tel) (db_devices (w_db w)) = Some dv" and "dv_status dv = DeviceActive"
    and "find_row rm_dedup_key (telemetry_key tel) (db_raws (w_db w)) = None"
    and "\<not> has_key ev_event_id (new_event_id bytes) (db_events (w_db w))"
proof -
  obtain tel where parsed: "parse_message raw now = Inr tel"
    using run by (cases "parse_message raw now")
      (auto simp: ingest_telemetry_def fail_with_def with_details_def)
  obtain dv where dev: "find_row dv_id (tm_device tel) (db_devices (w_db w)) = Some dv"
    and active: "dv_status dv = DeviceActive"
    using run plan
    by (auto simp: ingest_telemetry_def parsed andThen_def call_get_device fail_def
        split: option.splits if_splits)
  let ?key = "telemetry_key tel" and ?i = "new_event_id bytes"
  let ?body = "ingest_tx tel raw ?key ?i now"
  have tx: "catch (after_tx ?key) (on_db (in_tx Failed ?body)) w = (Inr res, w')"
  proof (rule ccontr)
    let ?ex = "find_row rm_dedup_key ?key (db_raws (w_db w))"
    assume "catch (after_tx ?key) (on_db (in_tx Failed ?body)) w \<noteq> (Inr res, w')"
    then have "duplicate_result (the ?ex) w = (Inr res, w')"
      using run plan
      by (simp add: ingest_telemetry_def parsed andThen_def call_get_device call_find_raw dev active
          Let_def split: if_splits)
    with duplicate_result_fault_free[OF plan, of "the ?ex"] new show False by auto
  qed
  obtain r d where body: "?body (w_db w) = (r, d)" by fastforce
  have pd: "db_plan d = []" using ingest_tx_plan[OF plan body] .
  have "\<exists>x. r = Inr x"
  proof (cases r)
    case (Inl e)
    let ?w = "w\<lparr>w_db := roll_back (w_db w) d\<rparr>"
    have "after_tx ?key e ?w = (Inr res, w')"
      using tx by (simp add: catch_def on_db_def in_tx_fault_free plan body pd Inl)
    moreover have "db_plan (w_db ?w) = []" by (simp add: roll_back_def pd)
    ultimately show ?thesis using new after_tx_duplicate by blast
  qed simp
  then obtain x where ok: "?body (w_db w) = (Inr x, d)" using body by auto
  have "find_row rm_dedup_key ?key (db_raws (w_db w)) = None"
    using ingest_tx_needs_new_key[OF plan _ ok refl] by (cases "find_row rm_dedup_key ?key (db_raws (w_db w))") auto
  moreover have "\<not> has_key ev_event_id ?i (db_events (w_db w))"
    using ingest_tx_needs_new_event[OF plan _ ok] by blast
  ultimately show ?thesis using that parsed dev active by blast
qed

text \<open>C8. Routing of an accepted message.  On a database that runs without faults and whose rule ids are
  unique, a message that parses, of an active device, with a key not stored yet and a fresh event
  id, is answered with the matching rules and their topics in routing order; exactly one event, one
  raw message and one pending delivery per matching rule are added, and the device is marked as
  seen; nothing else changes.\<close>

theorem ingest_routes_message:
  assumes "db_plan (w_db w) = []" and "distinct (map rr_rule_id (db_rules (w_db w)))"
    and "parse_message raw now = Inr tel"
    and "find_row dv_id (tm_device tel) (db_devices (w_db w)) = Some dv" and "dv_status dv = DeviceActive"
    and "find_row rm_dedup_key (telemetry_key tel) (db_raws (w_db w)) = None"
    and "\<not> has_key ev_event_id (new_event_id bytes) (db_events (w_db w))"
  shows "ingest_telemetry window now bytes raw w
    = (Inr (routed_answer tel (new_event_id bytes) now (w_db w)),
       w\<lparr>w_db := ingested tel raw (new_event_id bytes) now (w_db w)\<rparr>)"
  using assms by (rule ingest_accepts)

theorem ingest_routes_message_witness:
  "ingest_telemetry hour 0 [] sample_text sample_world
    = (Inr (routed_answer sample_telemetry (new_event_id []) 0 (w_db sample_world)),
       sample_world\<lparr>w_db := ingested sample_telemetry sample_text (new_event_id []) 0 (w_db sample_world)\<rparr>)"
  by (rule ingest_routes_message[OF sample_facts(1,2) sample_parsed sample_facts(3-6)])

text \<open>C9. Idempotence: once a message has been accepted, any later message of the same measurement is a
  duplicate that names the event of the first and changes nothing, whatever the time that has
  passed and whatever the window: the window of the fast path has no effect on the outcome.\<close>

theorem ingest_again_is_duplicate:
  assumes plan: "db_plan (w_db w) = []" and uniq: "distinct (map rr_rule_id (db_rules (w_db w)))"
    and first: "ingest_telemetry window now bytes raw w = (Inr res, w1)" "\<not> tr_duplicate res"
    and parsed: "parse_message raw now = Inr tel" "parse_message raw2 now2 = Inr tel2"
    and same: "telemetry_key tel2 = telemetry_key tel" "tm_device tel2 = tm_device tel"
  shows "\<exists>res2. ingest_telemetry window2 now2 bytes2 raw2 w1 = (Inr res2, w1) \<and> tr_duplicate res2
    \<and> tr_event_id res2 = tr_event_id res"
proof -
  obtain tel' dv where "parse_message raw now = Inr tel'"
    and dev: "find_row dv_id (tm_device tel) (db_devices (w_db w)) = Some dv" "dv_status dv = DeviceActive"
    and key: "find_row rm_dedup_key (telemetry_key tel) (db_raws (w_db w)) = None"
    and fresh: "\<not> has_key ev_event_id (new_event_id bytes) (db_events (w_db w))"
    using ingest_success[OF plan first] parsed(1) by auto
  note acc = ingest_accepts[OF plan uniq parsed(1) dev key fresh, of window]
  then have res: "res = routed_answer tel (new_event_id bytes) now (w_db w)"
    and w1: "w1 = w\<lparr>w_db := ingested tel raw (new_event_id bytes) now (w_db w)\<rparr>"
    using first(1) by simp_all
  let ?m = "(new_raw tel raw (telemetry_key tel) (new_event_id bytes) now)
      \<lparr>rm_id := db_seq_raw (w_db w), rm_received_at := db_stamp (w_db w) now\<rparr>"
  have "find_row rm_dedup_key (telemetry_key tel2) (db_raws (w_db w1)) = Some ?m"
    using key by (simp add: w1 ingested_def Let_def find_row_append_new same new_raw_def)
  moreover obtain dv' where "find_row dv_id (tm_device tel2) (db_devices (w_db w1)) = Some dv'"
    "dv_status dv' = DeviceActive"
    using dev by (simp add: w1 ingested_def Let_def find_row_update same)
  moreover have "db_plan (w_db w1) = []" using plan by (simp add: w1)
  ultimately show ?thesis
    using ingest_stored_key[OF _ parsed(2), of w1 dv' ?m window2 bytes2]
    by (simp add: new_raw_def res routed_answer_def Let_def)
qed

theorem ingest_again_is_duplicate_witness:
  "\<exists>res w1. ingest_telemetry hour 0 [] sample_text sample_world = (Inr res, w1) \<and> \<not> tr_duplicate res
    \<and> (\<exists>res2. ingest_telemetry 0 0 ''x'' sample_text w1 = (Inr res2, w1) \<and> tr_duplicate res2
         \<and> tr_event_id res2 = tr_event_id res)"
proof -
  note run = ingest_accepts[OF sample_facts(1,2) sample_parsed sample_facts(3-6), of hour "[]"]
  have new: "\<not> tr_duplicate (routed_answer sample_telemetry i 0 d)" for i d
    by (simp add: routed_answer_def Let_def)
  show ?thesis
    using ingest_again_is_duplicate[OF sample_facts(1,2) run new sample_parsed sample_parsed refl refl]
      run new by blast
qed

text \<open>C10. Atomicity: when ingestion reports an error, whichever statements failed on the way, every table
  is as it was before, provided that no statement took effect and lost its reply.\<close>

theorem ingest_error_leaves_tables:
  assumes "ingest_telemetry window now bytes raw w = (Inl e, w')"
    and "no_lost_reply (w_db w)"
  shows "same_tables (w_db w) (w_db w')"
  using ingest_error_safe[of window now bytes raw] assms
  unfolding error_safe_def on_w_db_def by blast

theorem ingest_error_leaves_tables_witness:
  "\<exists>w'. ingest_telemetry hour 0 [] sample_text
      (sample_world\<lparr>w_db := sample_db\<lparr>db_plan := [None, Some (FailBefore (Refused ''connection lost''))]\<rparr>\<rparr>)
      = (Inl (Failed (Refused ''connection lost'')), w') \<and> same_tables sample_db (w_db w')"
proof -
  let ?d = "sample_db\<lparr>db_plan := [None, Some (FailBefore (Refused ''connection lost''))]\<rparr>"
  let ?w = "sample_world\<lparr>w_db := ?d\<rparr>"
  have dev: "find_row dv_id (tm_device sample_telemetry) (db_devices sample_db) = Some sample_device"
    using sample_facts(3) by (simp add: sample_world_def)
  obtain w' where run: "ingest_telemetry hour 0 [] sample_text ?w = (Inl (Failed (Refused ''connection lost'')), w')"
    using dev sample_facts(4)
    by (simp add: ingest_telemetry_def sample_parsed andThen_def call_def on_db_def sql_def lift_error_def
        exec_def get_device_def Let_def)
  have "no_lost_reply (w_db ?w)" by (simp add: no_lost_reply_def)
  from ingest_error_leaves_tables[OF run this] run show ?thesis
    by (auto simp: same_tables_def)
qed

section \<open>Rules and their change log\<close>

text \<open>
  \<open>logged op s t\<close>: between \<open>s\<close> and \<open>t\<close> either the rules stayed as they were, or exactly one entry
  by the operator \<open>op\<close> was appended to the change log and only the rule it names changed.
\<close>

definition logged :: "string \<Rightarrow> database \<Rightarrow> database \<Rightarrow> bool" where
  "logged op s t \<longleftrightarrow> same_rules s t
     \<or> (\<exists>c. db_changes t = db_changes s @ [c] \<and> cl_operator c = op
         \<and> filter (\<lambda>r. rr_rule_id r \<noteq> cl_rule_id c) (db_rules t)
           = filter (\<lambda>r. rr_rule_id r \<noteq> cl_rule_id c) (db_rules s))"

lemma same_rules_tables: "same_tables s t \<Longrightarrow> same_rules s t"
  by (simp add: same_tables_def same_rules_def)

lemma same_rules_plan [simp]:
  "same_rules (s\<lparr>db_plan := p\<rparr>) t = same_rules s t" "same_rules s (t\<lparr>db_plan := p\<rparr>) = same_rules s t"
  by (simp_all add: same_rules_def)

lemma logged_plan [simp]:
  "logged op (s\<lparr>db_plan := p\<rparr>) t = logged op s t" "logged op s (t\<lparr>db_plan := p\<rparr>) = logged op s t"
  by (simp_all add: logged_def)

text \<open>A transaction of two statements either leaves no trace or has run them both.\<close>

lemma two_statement_tx:
  assumes "on_db (in_tx Failed (andThen (sql A) (\<lambda>_. sql B))) w = (r, w')"
  shows "same_tables (w_db w) (w_db w') \<or>
    (\<exists>p p' q x d1 y d2. A ((w_db w)\<lparr>db_plan := p\<rparr>) = (Inr x, d1)
      \<and> B (d1\<lparr>db_plan := p'\<rparr>) = (Inr y, d2) \<and> w_db w' = d2\<lparr>db_plan := q\<rparr>)"
proof -
  obtain d where tx: "in_tx Failed (andThen (sql A) (\<lambda>_. sql B)) (w_db w) = (r, d)"
    and w': "w' = w\<lparr>w_db := d\<rparr>"
    using assms by (auto simp: on_db_def Let_def split: prod.splits)
  from in_tx_outcome[OF tx] show ?thesis
  proof
    assume "same_tables (w_db w) d" then show ?thesis by (simp add: w')
  next
    assume "\<exists>x d1 q. andThen (sql A) (\<lambda>_. sql B) ((w_db w)\<lparr>db_plan := tl (db_plan (w_db w))\<rparr>) = (Inr x, d1)
        \<and> d = d1\<lparr>db_plan := q\<rparr>
        \<and> (r = Inr x \<or> (\<exists>e. r = Inl (Failed e) \<and> Some (FailAfter e) \<in> set (db_plan d1)))"
    then obtain y d2 q where "andThen (sql A) (\<lambda>_. sql B) ((w_db w)\<lparr>db_plan := tl (db_plan (w_db w))\<rparr>) = (Inr y, d2)"
      and d: "d = d2\<lparr>db_plan := q\<rparr>" by blast
    then obtain x d1 where "sql A ((w_db w)\<lparr>db_plan := tl (db_plan (w_db w))\<rparr>) = (Inr x, d1)"
      and "sql B d1 = (Inr y, d2)" by (elim andThen_Inr_elim)
    from sql_Inr[OF this(1)] sql_Inr[OF this(2)]
    have "A ((w_db w)\<lparr>db_plan := tl (tl (db_plan (w_db w)))\<rparr>) = (Inr x, d1)"
      and "B (d1\<lparr>db_plan := tl (db_plan d1)\<rparr>) = (Inr y, d2)" by simp_all
    moreover have "w_db w' = d2\<lparr>db_plan := q\<rparr>" by (simp add: w' d)
    ultimately show ?thesis by blast
  qed
qed

lemma append_change_Inr:
  "append_change c d = (Inr u, d') \<Longrightarrow> db_rules d' = db_rules d
     \<and> (\<exists>c'. db_changes d' = db_changes d @ [c'] \<and> cl_operator c' = cl_operator c
         \<and> cl_rule_id c' = cl_rule_id c)"
  by (auto simp: append_change_def Let_def split: if_splits)

lemma filter_update_rows:
  "(\<And>r. key (f r) = key r) \<Longrightarrow>
     filter (\<lambda>r. key r \<noteq> k) (update_rows key k f rows) = filter (\<lambda>r. key r \<noteq> k) rows"
  by (induction rows) (auto simp: update_rows_def)

lemma change_tx_logged:
  assumes run: "on_db (in_tx Failed (andThen (sql A) (\<lambda>_. sql (append_change c)))) w = (r, w')"
    and A: "\<And>d x d'. A d = (Inr x, d') \<Longrightarrow> db_changes d' = db_changes d
      \<and> filter (\<lambda>r. rr_rule_id r \<noteq> cl_rule_id c) (db_rules d')
        = filter (\<lambda>r. rr_rule_id r \<noteq> cl_rule_id c) (db_rules d)"
  shows "logged (cl_operator c) (w_db w) (w_db w')"
proof -
  have "logged (cl_operator c) (w_db w) d2"
    if "A ((w_db w)\<lparr>db_plan := p\<rparr>) = (Inr x, d1)" "append_change c (d1\<lparr>db_plan := p'\<rparr>) = (Inr y, d2)"
    for p p' x y d1 d2
    using A[OF that(1)] append_change_Inr[OF that(2)] by (auto simp: logged_def)
  moreover have "logged (cl_operator c) (w_db w) (w_db w')" if "same_tables (w_db w) (w_db w')"
    using that by (simp add: logged_def same_rules_tables)
  ultimately show ?thesis using two_statement_tx[OF run] by (metis logged_plan(2))
qed

lemma create_rule_frame:
  assumes "create_rule r d = (Inr x, d')"
  shows "db_changes d' = db_changes d
    \<and> filter (\<lambda>q. rr_rule_id q \<noteq> rr_rule_id r) (db_rules d') = filter (\<lambda>q. rr_rule_id q \<noteq> rr_rule_id r) (db_rules d)"
  using assms by (auto simp: create_rule_def Let_def split: if_splits)

lemma update_rule_frame:
  assumes "update_rule r d = (Inr x, d')"
  shows "db_changes d' = db_changes d
    \<and> filter (\<lambda>q. rr_rule_id q \<noteq> rr_rule_id r) (db_rules d') = filter (\<lambda>q. rr_rule_id q \<noteq> rr_rule_id r) (db_rules d)"
  using assms by (auto simp: update_rule_def filter_update_rows split: if_splits)

lemma soft_delete_frame:
  assumes "soft_delete i at d = (Inr x, d')"
  shows "db_changes d' = db_changes d
    \<and> filter (\<lambda>q. rr_rule_id q \<noteq> i) (db_rules d') = filter (\<lambda>q. rr_rule_id q \<noteq> i) (db_rules d)"
  using assms by (auto simp: soft_delete_def filter_update_rows)

lemma logged_same: "same_rules s t \<Longrightarrow> logged op s t"
  by (simp add: logged_def)

lemma logged_call: "reads_only st \<Longrightarrow> call st w = (r, w') \<Longrightarrow> same_rules (w_db w) (w_db w')"
  using keepsD[OF keeps_call_reads] unfolding on_w_db_def by (blast intro: same_rules_tables)

lemma logged_after_same: "same_rules s t \<Longrightarrow> logged op t u \<Longrightarrow> logged op s u"
  by (auto simp: logged_def same_rules_def)

lemma call_get_rule_frame: "call (get_rule i) w = (r, w') \<Longrightarrow> same_rules (w_db w) (w_db w')"
  using reading_statements(7) by (rule logged_call)

lemma logged_rule_op:
  assumes run: "andThen (call (get_rule i)) f w = (r, w')"
    and f: "\<And>x s t r. f x s = (r, t) \<Longrightarrow> logged op (w_db s) (w_db t)"
  shows "logged op (w_db w) (w_db w')"
proof -
  obtain o' s where g: "call (get_rule i) w = (o', s)" by fastforce
  then have same: "same_rules (w_db w) (w_db s)" by (rule call_get_rule_frame)
  show ?thesis
  proof (cases o')
    case (Inl e)
    with run g same show ?thesis by (simp add: andThen_def logged_same)
  next
    case (Inr x)
    with run g have "f x s = (r, w')" by (simp add: andThen_def)
    from f[OF this] same show ?thesis by (blast intro: logged_after_same)
  qed
qed

lemma logged_refl: "logged op s s"
  by (simp add: logged_def same_rules_def)

lemma logged_then_ret:
  "andThen m (\<lambda>_. ret y) w = (r, w') \<Longrightarrow> (\<And>r' v. m w = (r', v) \<Longrightarrow> logged op (w_db w) (w_db v))
    \<Longrightarrow> logged op (w_db w) (w_db w')"
  by (auto simp: andThen_def ret_def split: prod.splits sum.splits)

lemma logged_catch_fail:
  "catch (\<lambda>e. if P e then fail n else fail e) m w = (r, w')
    \<Longrightarrow> (\<And>r' v. m w = (r', v) \<Longrightarrow> logged op (w_db w) (w_db v)) \<Longrightarrow> logged op (w_db w) (w_db w')"
  by (auto simp: catch_def fail_def split: prod.splits sum.splits if_splits)

lemma change_entry_parts [simp]:
  "cl_rule_id (change_entry i a b c ctx now) = i"
  "cl_operator (change_entry i a b c ctx now) = operator_from ctx"
  by (simp_all add: change_entry_def)

lemma fail_with_frame: "fail_with e d w = (r, w') \<Longrightarrow> w_db w' = w_db w"
  by (auto simp: fail_with_def with_details_def)

lemma add_rule_logged:
  assumes "add_rule ctx now bytes inp w = (r, w')"
  shows "logged (operator_from ctx) (w_db w) (w_db w')"
proof (cases "ri_name inp = [] \<or> ri_topic inp = []")
  case True
  with assms show ?thesis
    by (auto simp: add_rule_def logged_refl dest: fail_with_frame split: if_splits)
next
  case False
  let ?i = "if ri_rule_id inp = [] then new_event_id bytes else ri_rule_id inp"
  have run: "andThen (call (get_rule ?i)) (\<lambda>existing.
        if existing \<noteq> None then fail (Domain ErrRuleConflict)
        else (let r = \<lparr>rr_id = 0, rr_rule_id = ?i, rr_name = ri_name inp, rr_matcher = ri_matcher inp,
                   rr_topic = ri_topic inp, rr_priority = ri_priority inp, rr_enabled = ri_enabled inp,
                   rr_deleted_at = None, rr_created_at = now, rr_updated_at = now\<rparr> in
          catch (\<lambda>e. if is_unique_violation e then fail (Domain ErrRuleConflict) else fail e)
            (andThen (on_db (in_tx Failed
               (andThen (sql (create_rule r)) (\<lambda>_.
                sql (append_change (change_entry ?i ActionCreate None (Some r) ctx now))))))
             (\<lambda>_. ret r)))) w = (r, w')"
    using assms False by (simp add: add_rule_def Let_def)
  show ?thesis
  proof (rule logged_rule_op[OF run])
    fix x s t r'
    assume f: "(if x \<noteq> None then fail (Domain ErrRuleConflict)
        else (let r = \<lparr>rr_id = 0, rr_rule_id = ?i, rr_name = ri_name inp, rr_matcher = ri_matcher inp,
                   rr_topic = ri_topic inp, rr_priority = ri_priority inp, rr_enabled = ri_enabled inp,
                   rr_deleted_at = None, rr_created_at = now, rr_updated_at = now\<rparr> in
          catch (\<lambda>e. if is_unique_violation e then fail (Domain ErrRuleConflict) else fail e)
            (andThen (on_db (in_tx Failed
               (andThen (sql (create_rule r)) (\<lambda>_.
                sql (append_change (change_entry ?i ActionCreate None (Some r) ctx now))))))
             (\<lambda>_. ret r)))) s = (r', t)"
    show "logged (operator_from ctx) (w_db s) (w_db t)"
    proof (cases "x = None")
      case False
      with f show ?thesis by (auto simp: fail_def logged_refl)
    next
      case True
      show ?thesis
        using f True
        by (auto simp: Let_def elim!: logged_catch_fail logged_then_ret
            dest!: change_tx_logged dest: create_rule_frame)
    qed
  qed
qed

lemma merged_rule_id [simp]: "rr_rule_id (merged_rule r inp now) = rr_rule_id r"
  by (simp add: merged_rule_def)

lemma get_rule_id:
  assumes "call (get_rule i) w = (Inr (Some x), s)"
  shows "rr_rule_id x = i"
proof -
  obtain d where "sql (get_rule i) (w_db w) = (Inr (Some x), d)"
    using assms by (auto simp: call_def on_db_def Let_def split: prod.splits)
  from sql_Inr[OF this] show ?thesis
    by (auto simp: get_rule_def dest: rules.lookup_SomeD)
qed

lemma existing_rule_op:
  assumes run: "andThen (call (get_rule i)) (\<lambda>found. case found of None \<Rightarrow> fail e
      | Some x \<Rightarrow> if rr_deleted_at x \<noteq> None then fail e else f x) w = (r, w')"
    and f: "\<And>x s t r. rr_rule_id x = i \<Longrightarrow> f x s = (r, t) \<Longrightarrow> logged op (w_db s) (w_db t)"
  shows "logged op (w_db w) (w_db w')"
proof -
  obtain o' s where g: "call (get_rule i) w = (o', s)" by fastforce
  then have same: "same_rules (w_db w) (w_db s)" by (rule call_get_rule_frame)
  consider "w_db w' = w_db s" | x where "o' = Inr (Some x)" "f x s = (r, w')"
    using run g by (auto simp: andThen_def fail_def split: sum.splits option.splits if_splits)
  then show ?thesis
  proof cases
    case 1
    with same show ?thesis by (simp add: logged_same)
  next
    case 2
    with g f[of x s r w'] same show ?thesis by (auto dest: get_rule_id intro: logged_after_same)
  qed
qed

lemma change_rule_logged:
  assumes "change_rule ctx now i inp w = (r, w')"
  shows "logged (operator_from ctx) (w_db w) (w_db w')"
  using assms unfolding change_rule_def
proof (rule existing_rule_op)
  fix x s t r'
  assume "rr_rule_id x = i"
    and "(let updated = merged_rule x inp now in
           andThen (on_db (in_tx Failed
              (andThen (sql (update_rule updated)) (\<lambda>_.
               sql (append_change (change_entry i (update_action x updated)
                 (Some x) (Some updated) ctx now))))))
            (\<lambda>_. ret updated)) s = (r', t)"
  then show "logged (operator_from ctx) (w_db s) (w_db t)"
    by (auto simp: Let_def elim!: logged_then_ret dest!: change_tx_logged dest: update_rule_frame)
qed

lemma delete_rule_logged:
  assumes "delete_rule ctx now i w = (r, w')"
  shows "logged (operator_from ctx) (w_db w) (w_db w')"
  using assms unfolding delete_rule_def
proof (rule existing_rule_op)
  fix x s t r'
  assume "(let after = x\<lparr>rr_enabled := False, rr_deleted_at := Some now, rr_updated_at := now\<rparr> in
           on_db (in_tx Failed
              (andThen (sql (soft_delete i now)) (\<lambda>_.
               sql (append_change (change_entry i ActionDelete (Some x) (Some after) ctx now)))))) s = (r', t)"
  then show "logged (operator_from ctx) (w_db s) (w_db t)"
    by (auto simp: Let_def dest!: change_tx_logged dest: soft_delete_frame)
qed

section \<open>Replay\<close>

lemma call_fetch_event:
  "db_plan (w_db w) = [] \<Longrightarrow> fetch_event i w = (case find_row ev_event_id i (db_events (w_db w)) of
     None \<Rightarrow> (Inl (Domain ErrEventNotFound), w) | Some e \<Rightarrow> (Inr e, w))"
  by (simp add: fetch_event_def andThen_def call_fault_free get_event_by_id_def fail_def ret_def
      split: option.split)

lemma call_list_rules:
  "db_plan (w_db w) = [] \<Longrightarrow> call (list_rules False) w = (Inr (listed_rules (w_db w)), w)"
  by (simp add: call_fault_free list_rules_False)

lemma call_list_deliveries:
  "db_plan (w_db w) = [] \<Longrightarrow> call (list_deliveries_by_event i) w
    = (Inr (sort_key dl_id (filter (\<lambda>d. dl_event_id d = i) (db_deliveries (w_db w)))), w)"
  by (simp add: call_fault_free list_deliveries_by_event_def)

text \<open>The rules an event still has to be given a delivery for.\<close>

definition unserved_rules :: "database \<Rightarrow> event \<Rightarrow> route_rule list" where
  "unserved_rules d ev = filter (\<lambda>r. \<not> (\<exists>dl \<in> set (db_deliveries d).
     dl_event_id dl = ev_event_id ev \<and> dl_rule_id dl = rr_rule_id r \<and> waiting dl))
     (match_rules ev (db_rules d))"

lemma world_for_each:
  "for_each (\<lambda>x. on_db (f x)) xs w
    = (let (r, d) = for_each f xs (w_db w) in (r, w\<lparr>w_db := d\<rparr>))"
proof (induction xs arbitrary: w)
  case (Cons x xs)
  then show ?case
    by (auto simp: andThen_def on_db_def Let_def split: prod.split sum.split)
qed (simp add: ret_def)

lemma replay_fault_free:
  assumes plan: "db_plan (w_db w) = []" and uniq: "distinct (map rr_rule_id (db_rules (w_db w)))"
    and ev: "find_row ev_event_id ident (db_events (w_db w)) = Some ev"
  shows "replay_event now ident w =
    (Inr \<lparr>rp_event_id = ident, rp_matched = map rr_rule_id (match_rules ev (db_rules (w_db w))),
          rp_created = map rr_rule_id (unserved_rules (w_db w) ev),
          rp_count = int (length (unserved_rules (w_db w) ev))\<rparr>,
     w\<lparr>w_db := (w_db w)\<lparr>db_deliveries := db_deliveries (w_db w)
            @ queued (db_stamp (w_db w)) (db_seq_delivery (w_db w)) ident now (unserved_rules (w_db w) ev),
          db_seq_delivery := db_seq_delivery (w_db w) + int (length (unserved_rules (w_db w) ev))\<rparr>\<rparr>)"
proof -
  let ?d = "w_db w"
  have ident: "ev_event_id ev = ident" and mem: "ev \<in> set (db_events ?d)"
    using events.lookup_SomeD[OF ev] by auto
  let ?dls = "sort_key dl_id (filter (\<lambda>d. dl_event_id d = ident) (db_deliveries ?d))"
  have missing: "filter (\<lambda>r. rr_rule_id r \<notin> set (map dl_rule_id (filter waiting ?dls)))
      (match_rules ev (db_rules ?d)) = unserved_rules ?d ev"
    unfolding unserved_rules_def by (rule filter_cong) (auto simp: ident image_iff)
  have each: "for_each (\<lambda>r. call (create_delivery (new_delivery ident now r))) (unserved_rules ?d ev) w
    = (Inr (), w\<lparr>w_db := ?d\<lparr>db_deliveries := db_deliveries ?d
            @ queued (db_stamp ?d) (db_seq_delivery ?d) ident now (unserved_rules ?d ev),
          db_seq_delivery := db_seq_delivery ?d + int (length (unserved_rules ?d ev))\<rparr>\<rparr>)"
    unfolding call_def world_for_each
    using plan ident mem
    by (subst create_deliveries_fault_free) (auto simp: has_key_iff unserved_rules_def)
  show ?thesis
    unfolding replay_event_def
    using missing each
    by (simp add: andThen_def call_fetch_event call_list_rules call_list_deliveries plan ev Let_def
        match_listed_rules uniq ret_def)
qed

lemma unserved_after_replay:
  assumes "ev_event_id ev = ident"
  shows "unserved_rules (d\<lparr>db_deliveries := db_deliveries d @ queued stamp n ident now (unserved_rules d ev),
      db_seq_delivery := k\<rparr>) ev = []"
proof -
  have "\<exists>dl \<in> set (db_deliveries d @ queued stamp n ident now (unserved_rules d ev)).
      dl_event_id dl = ev_event_id ev \<and> dl_rule_id dl = rr_rule_id r \<and> waiting dl"
    if r: "r \<in> set (match_rules ev (db_rules d))" for r
  proof (cases "r \<in> set (unserved_rules d ev)")
    case True
    then have "rr_rule_id r \<in> set (map dl_rule_id (queued stamp n ident now (unserved_rules d ev)))"
      unfolding queued_props(1) by simp
    then show ?thesis using queued_props(2) assms by fastforce
  next
    case False
    with r show ?thesis by (auto simp: unserved_rules_def)
  qed
  then show ?thesis by (auto simp: unserved_rules_def filter_empty_conv)
qed

text \<open>C22. A replay gives an event exactly the deliveries it is missing: one fresh pending record for
  every rule that matches now and has no pending or failed record for the event, in routing order,
  and nothing else; matched and created rules are reported.\<close>

theorem replay_adds_missing:
  assumes "db_plan (w_db w) = []" and "distinct (map rr_rule_id (db_rules (w_db w)))"
    and "find_row ev_event_id ident (db_events (w_db w)) = Some ev"
  shows "replay_event now ident w =
    (Inr \<lparr>rp_event_id = ident, rp_matched = map rr_rule_id (match_rules ev (db_rules (w_db w))),
          rp_created = map rr_rule_id (unserved_rules (w_db w) ev),
          rp_count = int (length (unserved_rules (w_db w) ev))\<rparr>,
     w\<lparr>w_db := (w_db w)\<lparr>db_deliveries := db_deliveries (w_db w)
            @ queued (db_stamp (w_db w)) (db_seq_delivery (w_db w)) ident now (unserved_rules (w_db w) ev),
          db_seq_delivery := db_seq_delivery (w_db w) + int (length (unserved_rules (w_db w) ev))\<rparr>\<rparr>)"
  using assms by (rule replay_fault_free)

theorem replay_adds_missing_witness:
  "let w = sample_world\<lparr>w_db := sample_db\<lparr>db_events := [sample_event]\<rparr>\<rparr> in
     rp_count (projr (fst (replay_event 7 ''e'' w))) = int (length (unserved_rules (w_db w) sample_event))"
proof -
  let ?w = "sample_world\<lparr>w_db := sample_db\<lparr>db_events := [sample_event]\<rparr>\<rparr>"
  have "db_plan (w_db ?w) = []" "distinct (map rr_rule_id (db_rules (w_db ?w)))"
    using sample_facts(1,2) by (simp_all add: sample_world_def)
  moreover have "find_row ev_event_id ''e'' (db_events (w_db ?w)) = Some sample_event"
    by (simp add: find_row_def sample_event_def)
  ultimately show ?thesis using replay_adds_missing[of ?w "''e''" sample_event 7] by (simp add: Let_def)
qed

text \<open>Replay is idempotent: replaying an event again before any of its deliveries has been worked off
  creates no record and leaves the whole state alone.\<close>

theorem replay_again_adds_nothing:
  assumes plan: "db_plan (w_db w) = []" and uniq: "distinct (map rr_rule_id (db_rules (w_db w)))"
    and first: "replay_event now ident w = (Inr res, w1)"
  shows "replay_event now2 ident w1 =
    (Inr \<lparr>rp_event_id = ident, rp_matched = rp_matched res, rp_created = [], rp_count = 0\<rparr>, w1)"
proof -
  obtain ev where ev: "find_row ev_event_id ident (db_events (w_db w)) = Some ev"
    using first plan
    by (cases "find_row ev_event_id ident (db_events (w_db w))")
       (auto simp: replay_event_def andThen_def call_fetch_event)
  then have ident: "ev_event_id ev = ident" by (auto dest: events.lookup_SomeD)
  note run = replay_fault_free[OF plan uniq ev, of now]
  have w1: "w1 = w\<lparr>w_db := (w_db w)\<lparr>db_deliveries := db_deliveries (w_db w)
            @ queued (db_stamp (w_db w)) (db_seq_delivery (w_db w)) ident now (unserved_rules (w_db w) ev),
          db_seq_delivery := db_seq_delivery (w_db w) + int (length (unserved_rules (w_db w) ev))\<rparr>\<rparr>"
    and m: "rp_matched res = map rr_rule_id (match_rules ev (db_rules (w_db w)))"
    using first run by auto
  have "unserved_rules (w_db w1) ev = []"
    using unserved_after_replay[OF ident] by (simp add: w1)
  moreover have "db_plan (w_db w1) = []" "distinct (map rr_rule_id (db_rules (w_db w1)))"
    "find_row ev_event_id ident (db_events (w_db w1)) = Some ev"
    "db_rules (w_db w1) = db_rules (w_db w)"
    using plan uniq ev by (simp_all add: w1)
  ultimately show ?thesis
    using replay_fault_free[of w1 ident ev now2] by (simp add: m)
qed

theorem replay_again_adds_nothing_witness:
  "let w = sample_world\<lparr>w_db := sample_db\<lparr>db_events := [sample_event]\<rparr>\<rparr>; w1 = snd (replay_event 7 ''e'' w) in
     snd (replay_event 9 ''e'' w1) = w1"
proof -
  let ?w = "sample_world\<lparr>w_db := sample_db\<lparr>db_events := [sample_event]\<rparr>\<rparr>"
  have "db_plan (w_db ?w) = []" "distinct (map rr_rule_id (db_rules (w_db ?w)))"
    using sample_facts(1,2) by (simp_all add: sample_world_def)
  moreover from this have "\<exists>res w1. replay_event 7 ''e'' ?w = (Inr res, w1)"
    using replay_fault_free[of ?w "''e''" sample_event 7] by (simp add: find_row_def sample_event_def)
  ultimately show ?thesis using replay_again_adds_nothing[of ?w 7 "''e''"] by (auto simp: Let_def)
qed

section \<open>Device status\<close>

text \<open>Errors of a status change, and its effect: an unknown device and a status other than active,
  suspended and deleted are refused (the device is looked up first, so an unknown device wins)
  without touching a table; otherwise the row of this device, and no other, gets the status.  There
  is no check of the transition: a deleted device becomes active again.\<close>

theorem set_device_status_outcome:
  assumes "db_plan (w_db w) = []"
  shows "set_device_status at ident status w =
    (if find_row dv_id ident (db_devices (w_db w)) = None then (Inl (Domain ErrDeviceNotFound), w)
     else if status \<notin> {DeviceActive, DeviceSuspended, DeviceDeleted} then
       (Inl (Domain ErrInvalidField), w\<lparr>w_errors := (w_errors w)(ErrInvalidField :=
          (w_errors w ErrInvalidField)\<lparr>err_details := Some (FieldDetail ''status'')\<rparr>)\<rparr>)
     else (Inr (), w\<lparr>w_db := (w_db w)\<lparr>db_devices := update_rows dv_id ident
       (\<lambda>d. d\<lparr>dv_status := status, dv_updated := db_stamp (w_db w) at\<rparr>) (db_devices (w_db w))\<rparr>\<rparr>))"
  using assms
  by (auto simp: set_device_status_def fetch_device_def andThen_def get_device_def ret_def fail_def
      fail_with_def with_details_def call_fault_free set_status_def split: option.split)

theorem set_device_status_outcome_witness:
  "set_device_status 3 ''DEVICE01'' DeviceSuspended sample_world
    = (Inr (), sample_world\<lparr>w_db := sample_db\<lparr>db_devices :=
        [sample_device\<lparr>dv_status := DeviceSuspended, dv_updated := 3\<rparr>]\<rparr>\<rparr>)"
proof -
  have d: "db_devices sample_db = [sample_device]" "db_stamp sample_db = (\<lambda>t. t)"
    "dv_id sample_device = ''DEVICE01''"
    by (simp_all add: sample_db_def empty_database_def sample_device_def)
  show ?thesis
    using set_device_status_outcome[OF sample_facts(1), of 3 "''DEVICE01''" DeviceSuspended]
    by (simp add: sample_world_def d find_row_def update_rows_def)
qed

end
