(* ===== verification/Auth.thy ===== *)
theory Auth
  imports Service
begin

text \<open>
  \<^verbatim>\<open>internal/auth\<close>: the keys from the configuration, the check of a presented key with its audit
  entry, and the operator it is attributed to.  A Go map that is filled once is an association
  list, in the order of its iteration; the map of hashes is a partial function.
\<close>

section \<open>Configuration of the keys\<close>

record key_entry =
  ke_operator :: string
  ke_enabled :: bool

datatype pair_error = InvalidPair string | DuplicateKey string

fun parse_pairs :: "string list \<Rightarrow> (string \<times> key_entry) list \<Rightarrow> pair_error + (string \<times> key_entry) list" where
  "parse_pairs [] out = Inr out"
| "parse_pairs (raw # parts) out = (let part = trim_space raw in
     if part = [] then parse_pairs parts out
     else (case index_of CHR '':'' part of
         None \<Rightarrow> Inl (InvalidPair part)
       | Some i \<Rightarrow>
           if i = 0 \<or> i = length part - 1 then Inl (InvalidPair part)
           else (let operator = trim_space (take i part); secret = trim_space (drop (i + 1) part) in
             if secret \<in> fst ` set out then Inl (DuplicateKey operator)
             else parse_pairs parts (out @ [(secret, \<lparr>ke_operator = operator, ke_enabled = True\<rparr>)]))))"

definition parse_key_pairs :: "string \<Rightarrow> pair_error + (string \<times> key_entry) list" where
  "parse_key_pairs spec = (if trim_space spec = [] then Inr []
     else parse_pairs (split_on CHR '','' spec) [])"

text \<open>A text without a comma that begins and ends with a byte no white space has.\<close>

definition plain_text :: "string \<Rightarrow> bool" where
  "plain_text s \<longleftrightarrow> s \<noteq> [] \<and> \<not> ws_byte (hd s) \<and> \<not> ws_byte (last s) \<and> CHR '','' \<notin> set s"

definition print_pair :: "string \<times> string \<Rightarrow> string" where
  "print_pair = (\<lambda>(operator, secret). operator @ CHR '':'' # secret)"

lemma parse_pair_step:
  assumes "plain_text operator" and "CHR '':'' \<notin> set operator" and "plain_text secret"
  shows "parse_pairs (print_pair (operator, secret) # parts) out
    = (if secret \<in> fst ` set out then Inl (DuplicateKey operator)
       else parse_pairs parts (out @ [(secret, \<lparr>ke_operator = operator, ke_enabled = True\<rparr>)]))"
proof -
  let ?part = "operator @ CHR '':'' # secret"
  have ends: "hd ?part = hd operator" "last ?part = last secret"
    using assms by (simp_all add: plain_text_def)
  have trims: "trim_space ?part = ?part" "trim_space operator = operator" "trim_space secret = secret"
    using assms ends by (auto simp: plain_text_def intro!: trim_space_id)
  have "index_of CHR '':'' ?part = Some (length operator)"
    using assms(2) by (rule index_of_append)
  then show ?thesis
    using trims assms by (simp add: print_pair_def Let_def plain_text_def)
qed

lemma parse_printed_pairs:
  assumes "\<forall>(operator, secret) \<in> set ps. plain_text operator \<and> CHR '':'' \<notin> set operator \<and> plain_text secret"
    and "distinct (map fst out @ map snd ps)"
  shows "parse_pairs (map print_pair ps) out
    = Inr (out @ map (\<lambda>(operator, secret). (secret, \<lparr>ke_operator = operator, ke_enabled = True\<rparr>)) ps)"
  using assms
proof (induction ps arbitrary: out)
  case (Cons p ps)
  obtain operator secret where p: "p = (operator, secret)" by fastforce
  have "secret \<notin> fst ` set out" using Cons.prems(2) by (auto simp: p)
  moreover have "parse_pairs (print_pair (operator, secret) # map print_pair ps) out
    = (if secret \<in> fst ` set out then Inl (DuplicateKey operator)
       else parse_pairs (map print_pair ps) (out @ [(secret, \<lparr>ke_operator = operator, ke_enabled = True\<rparr>)]))"
    using Cons.prems(1) by (intro parse_pair_step) (auto simp: p)
  ultimately show ?case using Cons by (simp add: p)
qed simp

text \<open>The key configuration reads back: a list of operators and secrets, with different secrets and no
  separators or surrounding white space inside, printed as comma-separated pairs is parsed into
  exactly these secrets, each enabled for its operator.\<close>

theorem key_pairs_roundtrip:
  assumes "list_all (\<lambda>(operator, secret). plain_text operator \<and> CHR '':'' \<notin> set operator \<and> plain_text secret) ps"
    and "distinct (map snd ps)"
  shows "parse_key_pairs (join_with '','' (map print_pair ps))
    = Inr (map (\<lambda>(operator, secret). (secret, \<lparr>ke_operator = operator, ke_enabled = True\<rparr>)) ps)"
proof (cases ps)
  case Nil
  then show ?thesis by (simp add: parse_key_pairs_def)
next
  case (Cons p rest)
  have ok: "\<forall>(operator, secret) \<in> set ps. plain_text operator \<and> CHR '':'' \<notin> set operator \<and> plain_text secret"
    using assms(1) by (simp add: list_all_iff)
  have clean: "\<forall>x \<in> set (map print_pair ps). CHR '','' \<notin> set x"
    using ok by (auto simp: print_pair_def plain_text_def)
  have "CHR '':'' \<in> set (join_with '','' (map print_pair ps))"
    by (cases p; cases rest) (auto simp: Cons print_pair_def)
  moreover have "\<not> ws_byte (CHR '':'')" by code_simp
  ultimately have "trim_space (join_with '','' (map print_pair ps)) \<noteq> []" by (rule trim_space_nonempty)
  then show ?thesis
    using split_on_join_with[OF _ clean] parse_printed_pairs[OF ok, of "[]"] assms(2)
    by (simp add: parse_key_pairs_def Cons)
qed

theorem key_pairs_roundtrip_witness:
  "parse_key_pairs ''ops:k1,dev:k2'' = Inr
     [(''k1'', \<lparr>ke_operator = ''ops'', ke_enabled = True\<rparr>), (''k2'', \<lparr>ke_operator = ''dev'', ke_enabled = True\<rparr>)]"
proof -
  have "list_all (\<lambda>(operator, secret). plain_text operator \<and> CHR '':'' \<notin> set operator \<and> plain_text secret)
    [(''ops'', ''k1''), (''dev'', ''k2'')]" by code_simp
  from key_pairs_roundtrip[OF this] show ?thesis by (simp add: print_pair_def)
qed

section \<open>Authentication\<close>

definition key_hash :: "string \<Rightarrow> string" where
  "key_hash s = sha256_hex s"

record auth =
  at_keys :: "string \<Rightarrow> key_entry option"
  at_audited :: bool

text \<open>Without an auditor the entries are discarded.\<close>

definition new_auth :: "(string \<times> key_entry) list \<Rightarrow> bool \<Rightarrow> auth" where
  "new_auth keys audited = \<lparr>at_keys = foldl (\<lambda>m (ident, e). m(key_hash ident \<mapsto> e)) Map.empty keys,
     at_audited = audited\<rparr>"

text \<open>The error of the audit is dropped.\<close>

definition note_attempt ::
  "auth \<Rightarrow> string \<Rightarrow> audit_action \<Rightarrow> string \<Rightarrow> string \<Rightarrow> string \<Rightarrow> instant \<Rightarrow> world \<Rightarrow> world" where
  "note_attempt a h action operator remote path at w =
     (if at_audited a then snd (call (record_audit h action operator remote path at) w) else w)"

definition authenticate :: "auth \<Rightarrow> instant \<Rightarrow> string \<Rightarrow> string \<Rightarrow> string \<Rightarrow> world \<Rightarrow> string option \<times> world" where
  "authenticate a at presented remote path w = (let h = key_hash presented in
     case at_keys a h of
       None \<Rightarrow> (None, note_attempt a h AuditRejected [] remote path at w)
     | Some e \<Rightarrow>
         if \<not> ke_enabled e then (None, note_attempt a h AuditRejected (ke_operator e) remote path at w)
         else (Some (ke_operator e), note_attempt a h AuditAuthenticated (ke_operator e) remote path at w))"

context registry_relation
begin

lemma keeps_note: "on_w_db R w (note_attempt a h act oper rm p at w)"
proof -
  have "keeps (on_w_db R) (call (record_audit h act oper rm p at))"
    by (intro keeps_world_rules keeps_registry)
  then show ?thesis by (simp add: note_attempt_def keeps_def world.R_refl)
qed

lemma keeps_authenticate: "authenticate a at k rm p w = (r, w') \<Longrightarrow> on_w_db R w w'"
  using keeps_note by (auto simp: authenticate_def Let_def split: option.splits if_splits)

end

text \<open>An authentication adds at most an audit entry.\<close>

definition only_audit :: "database \<Rightarrow> database \<Rightarrow> bool" where
  "only_audit s t \<longleftrightarrow> db_devices t = db_devices s \<and> db_raws t = db_raws s \<and> db_events t = db_events s
     \<and> db_rules t = db_rules s \<and> db_changes t = db_changes s \<and> db_deliveries t = db_deliveries s"

interpretation only_audit: db_relation only_audit
  by unfold_locales (auto simp: only_audit_def roll_back_def)

lemma audit_frame: "keeps only_audit (record_audit h act oper rm p at)"
  by (rule keepsI) (auto simp: record_audit_def only_audit_def Let_def)

lemma authenticate_frame: "authenticate a at k rm p w = (r, w') \<Longrightarrow> on_w_db only_audit w w'"
proof -
  have "on_w_db only_audit w (note_attempt a h act oper rm p at w)" for h act oper
    using only_audit.keeps_call[OF audit_frame] only_audit.world.R_refl
    by (simp add: note_attempt_def keeps_def)
  then show "authenticate a at k rm p w = (r, w') \<Longrightarrow> on_w_db only_audit w w'"
    by (auto simp: authenticate_def Let_def split: option.splits if_splits)
qed

section \<open>Which keys are accepted\<close>

lemma at_keys_foldl:
  assumes "\<forall>(k, e) \<in> set keys. key_hash k = h \<longrightarrow> k = p" and "key_hash p = h" and "distinct (map fst keys)"
  shows "foldl (\<lambda>m (ident, e). m(key_hash ident \<mapsto> e)) m keys h
    = (case map_of keys p of Some e \<Rightarrow> Some e | None \<Rightarrow> m h)"
  using assms
proof (induction keys arbitrary: m)
  case (Cons ke keys)
  obtain k e where ke: "ke = (k, e)" by fastforce
  have IH: "foldl (\<lambda>m (ident, e). m(key_hash ident \<mapsto> e)) m' keys h
    = (case map_of keys p of Some e \<Rightarrow> Some e | None \<Rightarrow> m' h)" for m'
    using Cons.prems by (intro Cons.IH) auto
  have step: "foldl (\<lambda>m (ident, e). m(key_hash ident \<mapsto> e)) m (ke # keys) h
    = (case map_of keys p of Some e' \<Rightarrow> Some e' | None \<Rightarrow> (m(key_hash k \<mapsto> e)) h)"
    unfolding foldl_Cons ke prod.case by (rule IH)
  show ?case
  proof (cases "k = p")
    case True
    then have "map_of keys p = None"
      using Cons.prems(3) by (auto simp: ke map_of_eq_None_iff)
    with True show ?thesis using Cons.prems(2) unfolding step by (simp add: ke)
  next
    case False
    then have "h \<noteq> key_hash k" using Cons.prems(1) by (auto simp: ke)
    with False show ?thesis unfolding step by (simp add: ke split: option.split)
  qed
qed simp

text \<open>C31. Authentication: on keys with different secrets, and for a presented key that does not collide
  under SHA-256 with another secret, the operator of the secret is returned if the key is known
  and enabled, and nobody otherwise; without faults exactly one audit entry is added, which
  carries the hash of the key and never the key, and no other table changes.\<close>

theorem authenticate_outcome:
  assumes "distinct (map fst keys)"
    and "list_all (\<lambda>k. key_hash k = key_hash presented \<longrightarrow> k = presented) (map fst keys)"
    and "db_plan (w_db w) = []"
  shows "authenticate (new_auth keys True) at presented remote path w
    = (let found = map_of keys presented; ok = (case found of None \<Rightarrow> False | Some e \<Rightarrow> ke_enabled e) in
       (if ok then map_option ke_operator found else None,
        w\<lparr>w_db := (w_db w)\<lparr>db_seq_audit := db_seq_audit (w_db w) + 1, db_audits := db_audits (w_db w) @
          [\<lparr>au_id = db_seq_audit (w_db w), au_key_hash = key_hash presented,
            au_action = (if ok then AuditAuthenticated else AuditRejected),
            au_operator = (case found of None \<Rightarrow> [] | Some e \<Rightarrow> ke_operator e),
            au_remote = remote, au_path = path, au_at = db_stamp (w_db w) at\<rparr>]\<rparr>\<rparr>))"
proof -
  have "at_keys (new_auth keys True) (key_hash presented) = map_of keys presented"
  proof -
    have "\<forall>(k, e) \<in> set keys. key_hash k = key_hash presented \<longrightarrow> k = presented"
      using assms(2) by (auto simp: list_all_iff)
    from at_keys_foldl[OF this refl assms(1), of Map.empty] show ?thesis
      by (simp add: new_auth_def del: foldl_map split: option.splits)
  qed
  moreover have "note_attempt (new_auth keys True) h act oper remote path at w
      = w\<lparr>w_db := snd (record_audit h act oper remote path at (w_db w))\<rparr>" for h act oper
    using assms(3) by (simp add: note_attempt_def new_auth_def call_fault_free record_audit_def Let_def)
  ultimately show ?thesis
    by (auto simp: authenticate_def record_audit_def Let_def split: option.split)
qed

theorem authenticate_outcome_witness:
  "fst (authenticate (new_auth [(''s3cret'', \<lparr>ke_operator = ''ops'', ke_enabled = True\<rparr>)] True)
      0 ''s3cret'' ''10.0.0.1'' ''/api/v1/rules'' sample_world) = Some ''ops''"
  using authenticate_outcome[of "[(''s3cret'', \<lparr>ke_operator = ''ops'', ke_enabled = True\<rparr>)]" "''s3cret''"
      sample_world 0 "''10.0.0.1''" "''/api/v1/rules''"] sample_facts(1)
  by (simp add: Let_def)

end
