(* ===== verification/HttpApi.thy ===== *)
theory HttpApi
  imports ServiceFacts Auth
begin

text \<open>
  \<^verbatim>\<open>internal/httpapi\<close>: the route table and its lookup, authentication of the mutating routes, the
  decoding of the requests, the handlers, and the answers to errors.  A handler is a function on the
  state; the clock, the random bytes and the metrics text are arguments.  A request is what
  \<^verbatim>\<open>net/http\<close> hands over: the method, the escaped path, the parsed query, the key header, the remote
  address and the body.  Of a served file only its path is modelled.
\<close>

section \<open>Paths\<close>

fun unescape :: "string \<Rightarrow> string" where
  "unescape (c # h # l # s) =
     (if c = CHR ''%'' \<and> is_hex h \<and> is_hex l then char_of (hex_val h * 16 + hex_val l) # unescape s
      else c # unescape (h # l # s))"
| "unescape (c # s) = c # unescape s"
| "unescape [] = []"

text \<open>\<^verbatim>\<open>path.Clean\<close>, which \<^verbatim>\<open>filepath.Clean\<close> is on Unix; the kept elements are on a stack.\<close>

fun clean_parts :: "bool \<Rightarrow> string list \<Rightarrow> string list \<Rightarrow> string list" where
  "clean_parts rooted out [] = rev out"
| "clean_parts rooted out (p # ps) =
     (if p = [] \<or> p = ''.'' then clean_parts rooted out ps
      else if p = ''..'' then
        (if out \<noteq> [] \<and> hd out \<noteq> ''..'' then clean_parts rooted (tl out) ps
         else if rooted then clean_parts rooted out ps
         else clean_parts rooted (''..'' # out) ps)
      else clean_parts rooted (p # out) ps)"

definition clean :: "string \<Rightarrow> string" where
  "clean s = (let rooted = (s \<noteq> [] \<and> hd s = CHR ''/'');
       parts = clean_parts rooted [] (split_on CHR ''/'' s) in
     if rooted then CHR ''/'' # join_with ''/'' parts
     else if parts = [] then ''.'' else join_with ''/'' parts)"

definition join_paths :: "string \<Rightarrow> string \<Rightarrow> string" where
  "join_paths a b = (if a \<noteq> [] then clean (a @ CHR ''/'' # b) else if b \<noteq> [] then clean b else [])"

definition ends_slash :: "string \<Rightarrow> bool" where
  "ends_slash p \<longleftrightarrow> p \<noteq> [] \<and> last p = CHR ''/''"

text \<open>\<^verbatim>\<open>cleanPath\<close> of the request multiplexer keeps a trailing slash.\<close>

definition clean_path :: "string \<Rightarrow> string" where
  "clean_path p = (if p = [] then ''/''
     else (let q = (if hd p = CHR ''/'' then p else CHR ''/'' # p); np = clean q in
       if ends_slash q \<and> np \<noteq> ''/'' then np @ ''/'' else np))"

section \<open>Requests\<close>

record request =
  rq_method :: string
  rq_target :: string
  rq_query :: "(string \<times> string) list"
  rq_api_key :: string
  rq_remote :: string
  rq_body :: body

definition url_path :: "request \<Rightarrow> string" where
  "url_path rq = unescape (rq_target rq)"

definition query_get :: "request \<Rightarrow> string \<Rightarrow> string" where
  "query_get rq k = (case map_of (rq_query rq) k of None \<Rightarrow> [] | Some v \<Rightarrow> v)"

text \<open>Only these three methods change anything below \<^verbatim>\<open>/api/v1/\<close>.\<close>

definition requires_auth :: "request \<Rightarrow> bool" where
  "requires_auth rq = (if rq_method rq \<noteq> ''POST'' \<and> rq_method rq \<noteq> ''PUT'' \<and> rq_method rq \<noteq> ''DELETE''
     then False else 8 \<le> length (url_path rq) \<and> take 8 (url_path rq) = ''/api/v1/'')"

section \<open>The route table\<close>

datatype endpoint = Healthz | Metrics | CreateDevice | ListDevices | GetDevice | DeviceStatus | Telemetry
  | CreateRule | ListRules | GetRule | UpdateRule | DeleteRule | RuleChanges | ListEvents | GetEvent
  | ListDeliveries | ReplayEvent | GetStats | ListAudit | Assets | Index

datatype segment = Lit string | Wild

record route =
  rt_method :: string
  rt_segments :: "segment list"
  rt_multi :: bool
  rt_endpoint :: endpoint

definition api :: "segment list \<Rightarrow> segment list" where
  "api segs = Lit ''api'' # Lit ''v1'' # segs"

definition exact :: "string \<Rightarrow> segment list \<Rightarrow> endpoint \<Rightarrow> route" where
  "exact m segs e = \<lparr>rt_method = m, rt_segments = segs, rt_multi = False, rt_endpoint = e\<rparr>"

definition below :: "string \<Rightarrow> segment list \<Rightarrow> endpoint \<Rightarrow> route" where
  "below m segs e = \<lparr>rt_method = m, rt_segments = segs, rt_multi = True, rt_endpoint = e\<rparr>"

text \<open>The more specific patterns come first; the order of the others does not matter.\<close>

definition routes :: "bool \<Rightarrow> route list" where
  "routes with_metrics =
     [exact ''GET'' [Lit ''healthz''] Healthz]
     @ (if with_metrics then [exact ''GET'' [Lit ''metrics''] Metrics] else [])
     @ [exact ''POST'' (api [Lit ''devices'']) CreateDevice,
        exact ''GET'' (api [Lit ''devices'']) ListDevices,
        exact ''GET'' (api [Lit ''devices'', Wild]) GetDevice,
        exact ''POST'' (api [Lit ''devices'', Wild, Lit ''status'']) DeviceStatus,
        exact ''POST'' (api [Lit ''telemetry'']) Telemetry,
        exact ''POST'' (api [Lit ''rules'']) CreateRule,
        exact ''GET'' (api [Lit ''rules'']) ListRules,
        exact ''GET'' (api [Lit ''rules'', Wild]) GetRule,
        exact ''PUT'' (api [Lit ''rules'', Wild]) UpdateRule,
        exact ''DELETE'' (api [Lit ''rules'', Wild]) DeleteRule,
        exact ''GET'' (api [Lit ''rules'', Wild, Lit ''changes'']) RuleChanges,
        exact ''GET'' (api [Lit ''events'']) ListEvents,
        exact ''GET'' (api [Lit ''events'', Wild]) GetEvent,
        exact ''GET'' (api [Lit ''events'', Wild, Lit ''deliveries'']) ListDeliveries,
        exact ''POST'' (api [Lit ''events'', Wild, Lit ''replay'']) ReplayEvent,
        exact ''GET'' (api [Lit ''stats'']) GetStats,
        exact ''GET'' (api [Lit ''audit'']) ListAudit,
        below ''GET'' [Lit ''assets''] Assets,
        below ''GET'' [] Index]"

text \<open>The values of the wildcards and the segments left over; an empty last segment is a trailing slash.\<close>

fun match_segments :: "segment list \<Rightarrow> string list \<Rightarrow> (string list \<times> string list) option" where
  "match_segments [] rest = Some ([], rest)"
| "match_segments (p # ps) [] = None"
| "match_segments (Lit l # ps) (s # ss) = (if unescape s = l then match_segments ps ss else None)"
| "match_segments (Wild # ps) (s # ss) = (if s = [] then None
     else map_option (\<lambda>(vs, rest). (unescape s # vs, rest)) (match_segments ps ss))"

definition path_segments :: "string \<Rightarrow> string list" where
  "path_segments path = split_on CHR ''/'' (tl path)"

definition match_route :: "route \<Rightarrow> string \<Rightarrow> string list option" where
  "match_route r path = (case match_segments (rt_segments r) (path_segments path) of
     None \<Rightarrow> None | Some (vs, rest) \<Rightarrow> if (rest \<noteq> []) = rt_multi r then Some vs else None)"

text \<open>A pattern for GET also serves HEAD.\<close>

definition serves :: "route \<Rightarrow> string \<Rightarrow> bool" where
  "serves r m \<longleftrightarrow> rt_method r = m \<or> (rt_method r = ''GET'' \<and> m = ''HEAD'')"

fun find_route :: "route list \<Rightarrow> string \<Rightarrow> string \<Rightarrow> (route \<times> string list) option" where
  "find_route [] m path = None"
| "find_route (r # rs) m path = (if serves r m \<and> match_route r path \<noteq> None
     then Some (r, the (match_route r path)) else find_route rs m path)"

definition exact_match :: "(route \<times> string list) option \<Rightarrow> string \<Rightarrow> bool" where
  "exact_match found path = (case found of None \<Rightarrow> False
     | Some (r, _) \<Rightarrow> \<not> rt_multi r
        \<or> (ends_slash path \<and> length (rt_segments r) + 1 = count_list path CHR ''/''))"

datatype routing = Found endpoint "string list" | RedirectTo string | NotAllowed | NoRoute

definition find_handler :: "bool \<Rightarrow> request \<Rightarrow> routing" where
  "find_handler with_metrics rq = (let table = routes with_metrics; path = clean_path (rq_target rq);
       m = rq_method rq; n = find_route table m path in
     if \<not> exact_match n path \<and> \<not> ends_slash path
        \<and> exact_match (find_route table m (path @ ''/'')) (path @ ''/'')
     then RedirectTo (clean_path (url_path rq) @ ''/'')
     else if path \<noteq> rq_target rq then RedirectTo path
     else (case n of
         Some (r, vs) \<Rightarrow> Found (rt_endpoint r) vs
       | None \<Rightarrow> if list_ex (\<lambda>r. match_route r path \<noteq> None) table then NotAllowed else NoRoute))"

section \<open>Responses\<close>

datatype reply =
    Alive
  | OneDevice device | Devices "device list" | StatusSet string string
  | Ingestion telemetry_result
  | OneRule route_rule | Rules "route_rule list" | RuleDeleted string | Changes "change_log list"
  | Events event_page | OneEvent event | Statistics stats
  | Deliveries "delivery list" | Replayed replay_result | Audits "api_key_audit list"
  | ErrorReply string string "detail option" | InternalError | Unauthorized
  | MetricsText string | FileAt string | InvalidPath | NotFoundPage | MethodNotAllowed | Redirected string

record response =
  rs_status :: int
  rs_reply :: reply

type_synonym handler = "world \<Rightarrow> response \<times> world"

definition write_json :: "int \<Rightarrow> reply \<Rightarrow> handler" where
  "write_json status body w = (\<lparr>rs_status = status, rs_reply = body\<rparr>, w)"

text \<open>A status of 200 in an error object is overwritten, in the shared object itself.\<close>

definition write_error :: "svc_error \<Rightarrow> handler" where
  "write_error e w = (case e of
     Failed _ \<Rightarrow> write_json 500 InternalError w
   | Domain n \<Rightarrow>
       (let de = w_errors w n; de' = (if err_status de = 200 then de\<lparr>err_status := 500\<rparr> else de) in
        write_json (err_status de') (ErrorReply (err_code de') (err_message de') (err_details de'))
          (w\<lparr>w_errors := (w_errors w)(n := de')\<rparr>)))"

definition respond :: "('a \<Rightarrow> int) \<Rightarrow> ('a \<Rightarrow> reply) \<Rightarrow> 'a use_case \<Rightarrow> handler" where
  "respond status body m w = (case m w of
     (Inl e, w') \<Rightarrow> write_error e w' | (Inr x, w') \<Rightarrow> write_json (status x) (body x) w')"

abbreviation ok :: "'a \<Rightarrow> int" where "ok \<equiv> \<lambda>_. 200"
abbreviation created :: "'a \<Rightarrow> int" where "created \<equiv> \<lambda>_. 201"

definition with_body :: "'v decoder \<Rightarrow> 'v \<Rightarrow> request \<Rightarrow> ('v \<Rightarrow> 'a use_case) \<Rightarrow> 'a use_case" where
  "with_body dec zero rq f = (case decode_json dec zero (rq_body rq) of
     Inl e \<Rightarrow> fail_with ErrInvalidField (DecodeDetail e) | Inr v \<Rightarrow> f v)"

section \<open>Environment of a request\<close>

text \<open>The readings of the clock and of the random source that a request makes.\<close>

record env =
  en_auth_now :: instant
  en_now :: instant
  en_bytes :: string
  en_draws :: "nat \<Rightarrow> nat option"

record server =
  sv_window :: duration
  sv_auth :: "auth option"
  sv_metrics :: "string option"
  sv_static :: "string option"

text \<open>The operator the middleware put into the context of the request, passed on to the service.\<close>

definition operator_context :: "string option \<Rightarrow> string option" where
  "operator_context authenticated = (case authenticated of Some v \<Rightarrow> Some v | None \<Rightarrow> None)"

lemma operator_context_id [simp]: "operator_context ctx = ctx"
  by (simp add: operator_context_def split: option.split)

section \<open>Handlers\<close>

definition write_unauthorized :: handler where
  [simp]: "write_unauthorized = write_json 401 Unauthorized"

definition handle_healthz :: handler where
  [simp]: "handle_healthz = write_json 200 Alive"

record create_device_req =
  cd_device_id :: string
  cd_name :: string
  cd_protocol :: string
  cd_metadata :: "(string \<times> json) list option"

definition create_device_fields :: "(string \<times> create_device_req decoder) list" where
  "create_device_fields =
     [(''device_id'', field cd_device_id (\<lambda>x. cd_device_id_update (\<lambda>_. x)) as_string),
      (''name'', field cd_name (\<lambda>x. cd_name_update (\<lambda>_. x)) as_string),
      (''protocol_version'', field cd_protocol (\<lambda>x. cd_protocol_update (\<lambda>_. x)) as_string),
      (''metadata'', field cd_metadata (\<lambda>x. cd_metadata_update (\<lambda>_. x)) as_map)]"

definition alphabet :: string where
  "alphabet = ''ABCDEFGHIJKLMNOPQRSTUVWXYZ0123456789''"

text \<open>A failing draw gives the letter A.\<close>

definition new_device_id :: "(nat \<Rightarrow> nat option) \<Rightarrow> string" where
  "new_device_id draws = map (\<lambda>i. case draws i of None \<Rightarrow> CHR ''A'' | Some n \<Rightarrow> alphabet ! n) [0..<12]"

definition handle_create_device :: "env \<Rightarrow> request \<Rightarrow> handler" where
  "handle_create_device env rq = respond created OneDevice
     (with_body (as_struct create_device_fields)
        \<lparr>cd_device_id = [], cd_name = [], cd_protocol = [], cd_metadata = None\<rparr> rq (\<lambda>req.
      let ident = (if cd_device_id req = [] then new_device_id (en_draws env) else cd_device_id req) in
      register_device (en_now env) ident (cd_name req) (cd_protocol req) (cd_metadata req)))"

definition handle_list_devices :: handler where
  "handle_list_devices = respond ok Devices all_devices"

definition handle_get_device :: "string \<Rightarrow> handler" where
  "handle_get_device ident = respond ok OneDevice (fetch_device ident)"

text \<open>The body is a struct of one string, kept as the string.\<close>

definition one_field :: "string \<Rightarrow> (string \<times> string decoder) list" where
  "one_field name = [(name, field (\<lambda>s. s) (\<lambda>x _. x) as_string)]"

definition handle_device_status :: "env \<Rightarrow> string \<Rightarrow> request \<Rightarrow> handler" where
  "handle_device_status env ident rq = respond ok (\<lambda>status. StatusSet ident status)
     (with_body (as_struct (one_field ''status'')) [] rq (\<lambda>status.
      andThen (set_device_status (en_now env) ident (device_status_of status)) (\<lambda>_. ret status)))"

definition handle_telemetry :: "server \<Rightarrow> env \<Rightarrow> request \<Rightarrow> handler" where
  "handle_telemetry sv env rq = respond (\<lambda>res. if tr_duplicate res then 200 else 201) Ingestion
     (with_body (as_struct (one_field ''raw_text'')) [] rq (\<lambda>raw.
      if raw = [] then fail_with ErrInvalidField (FieldDetail ''raw_text'')
      else ingest_telemetry (sv_window sv) (en_now env) (en_bytes env) raw))"

definition matcher_fields :: "(string \<times> matcher decoder) list" where
  "matcher_fields =
     [(''device_pattern'', field mt_device_pattern (\<lambda>x. mt_device_pattern_update (\<lambda>_. x)) as_string),
      (''metrics'', field mt_metrics (\<lambda>x. mt_metrics_update (\<lambda>_. x)) as_strings),
      (''expr'', field mt_expr (\<lambda>x. mt_expr_update (\<lambda>_. x)) as_string)]"

definition rule_fields :: "(string \<times> rule_input decoder) list" where
  "rule_fields =
     [(''rule_id'', field ri_rule_id (\<lambda>x. ri_rule_id_update (\<lambda>_. x)) as_string),
      (''name'', field ri_name (\<lambda>x. ri_name_update (\<lambda>_. x)) as_string),
      (''matcher'', field ri_matcher (\<lambda>x. ri_matcher_update (\<lambda>_. x)) (as_struct matcher_fields)),
      (''topic'', field ri_topic (\<lambda>x. ri_topic_update (\<lambda>_. x)) as_string),
      (''priority'', field ri_priority (\<lambda>x. ri_priority_update (\<lambda>_. x)) as_int),
      (''enabled'', field ri_enabled (\<lambda>x. ri_enabled_update (\<lambda>_. x)) as_bool)]"

definition empty_rule_input :: rule_input where
  "empty_rule_input = \<lparr>ri_rule_id = [], ri_name = [], ri_matcher = no_matcher, ri_topic = [],
     ri_priority = 0, ri_enabled = False\<rparr>"

definition handle_create_rule :: "env \<Rightarrow> string option \<Rightarrow> request \<Rightarrow> handler" where
  "handle_create_rule env ctx rq = respond created OneRule
     (with_body (as_struct rule_fields) empty_rule_input rq (add_rule (operator_context ctx) (en_now env) (en_bytes env)))"

definition handle_list_rules :: handler where
  "handle_list_rules = respond ok Rules current_rules"

definition handle_get_rule :: "string \<Rightarrow> handler" where
  "handle_get_rule ident = respond ok OneRule (fetch_rule ident)"

definition handle_update_rule :: "env \<Rightarrow> string option \<Rightarrow> string \<Rightarrow> request \<Rightarrow> handler" where
  "handle_update_rule env ctx ident rq = respond ok OneRule
     (with_body (as_struct rule_fields) empty_rule_input rq (change_rule (operator_context ctx) (en_now env) ident))"

definition handle_delete_rule :: "env \<Rightarrow> string option \<Rightarrow> string \<Rightarrow> handler" where
  "handle_delete_rule env ctx ident = respond ok (\<lambda>_. RuleDeleted ident) (delete_rule (operator_context ctx) (en_now env) ident)"

definition handle_rule_changes :: "string \<Rightarrow> handler" where
  "handle_rule_changes ident = respond ok Changes (rule_changes ident)"

definition query_time :: "string \<Rightarrow> instant option" where
  "query_time v = (if v = [] then None else map_option fst (parse_rfc3339 v))"

definition event_query :: "request \<Rightarrow> event_filter" where
  "event_query rq = \<lparr>ef_device = query_get rq ''device_id'', ef_metric = query_get rq ''metric'',
     ef_from = query_time (query_get rq ''from''), ef_to = query_time (query_get rq ''to''),
     ef_status = query_get rq ''status'', ef_page = atoi_or_bound (query_get rq ''page''),
     ef_size = atoi_or_bound (query_get rq ''size'')\<rparr>"

definition handle_list_events :: "request \<Rightarrow> handler" where
  "handle_list_events rq = respond ok Events (search_events (event_query rq))"

definition handle_get_event :: "string \<Rightarrow> handler" where
  "handle_get_event ident = respond ok OneEvent (fetch_event ident)"

definition handle_stats :: handler where
  "handle_stats = respond ok Statistics get_stats"

definition handle_list_deliveries :: "string \<Rightarrow> handler" where
  "handle_list_deliveries ident = respond ok Deliveries (list_deliveries ident)"

definition handle_replay_event :: "env \<Rightarrow> string \<Rightarrow> handler" where
  "handle_replay_event env ident = respond ok Replayed (replay_event (en_now env) ident)"

definition handle_list_audit :: "request \<Rightarrow> handler" where
  "handle_list_audit rq = respond ok Audits (recent_audit (atoi_or_bound (query_get rq ''limit'')))"

section \<open>Static files\<close>

definition static_dir :: "server \<Rightarrow> string" where
  "static_dir sv = (case sv_static sv of
     Some d \<Rightarrow> if d \<noteq> [] then d else ''internal/httpapi/assets'' | None \<Rightarrow> ''internal/httpapi/assets'')"

text \<open>\<^verbatim>\<open>http.ServeFile\<close> refuses a path with a dot-dot element and redirects \<^verbatim>\<open>/index.html\<close>.\<close>

definition slashes :: "string \<Rightarrow> string" where
  "slashes s = map (\<lambda>c. if c = CHR 0x5C then CHR ''/'' else c) s"

definition contains_dot_dot :: "string \<Rightarrow> bool" where
  "contains_dot_dot s \<longleftrightarrow> ''..'' \<in> set (split_on CHR ''/'' (slashes s))"

definition serve_file :: "request \<Rightarrow> string \<Rightarrow> handler" where
  "serve_file rq p = (if contains_dot_dot (url_path rq) then write_json 400 InvalidPath
     else if suffix ''/index.html'' (url_path rq) then write_json 301 (Redirected ''./'')
     else write_json 200 (FileAt p))"

definition handle_assets :: "server \<Rightarrow> request \<Rightarrow> handler" where
  "handle_assets sv rq = (let name = drop 8 (url_path rq) in
     serve_file rq (join_paths (static_dir sv) (clean name)))"

definition handle_index :: "server \<Rightarrow> request \<Rightarrow> handler" where
  "handle_index sv rq =
     (if url_path rq \<noteq> ''/'' \<and> url_path rq \<noteq> ''/devices'' \<and> url_path rq \<noteq> ''/telemetry''
         \<and> url_path rq \<noteq> ''/rules'' \<and> url_path rq \<noteq> ''/events''
      then write_json 404 NotFoundPage
      else serve_file rq (join_paths (static_dir sv) ''index.html''))"

section \<open>The handler tree\<close>

definition handle :: "server \<Rightarrow> env \<Rightarrow> string option \<Rightarrow> request \<Rightarrow> endpoint \<Rightarrow> string \<Rightarrow> handler" where
  "handle sv env ctx rq e arg = (case e of
     Healthz \<Rightarrow> handle_healthz
   | Metrics \<Rightarrow> write_json 200 (MetricsText (case sv_metrics sv of Some t \<Rightarrow> t | None \<Rightarrow> []))
   | CreateDevice \<Rightarrow> handle_create_device env rq
   | ListDevices \<Rightarrow> handle_list_devices
   | GetDevice \<Rightarrow> handle_get_device arg
   | DeviceStatus \<Rightarrow> handle_device_status env arg rq
   | Telemetry \<Rightarrow> handle_telemetry sv env rq
   | CreateRule \<Rightarrow> handle_create_rule env ctx rq
   | ListRules \<Rightarrow> handle_list_rules
   | GetRule \<Rightarrow> handle_get_rule arg
   | UpdateRule \<Rightarrow> handle_update_rule env ctx arg rq
   | DeleteRule \<Rightarrow> handle_delete_rule env ctx arg
   | RuleChanges \<Rightarrow> handle_rule_changes arg
   | ListEvents \<Rightarrow> handle_list_events rq
   | GetEvent \<Rightarrow> handle_get_event arg
   | ListDeliveries \<Rightarrow> handle_list_deliveries arg
   | ReplayEvent \<Rightarrow> handle_replay_event env arg
   | GetStats \<Rightarrow> handle_stats
   | ListAudit \<Rightarrow> handle_list_audit rq
   | Assets \<Rightarrow> handle_assets sv rq
   | Index \<Rightarrow> handle_index sv rq)"

definition dispatch :: "server \<Rightarrow> env \<Rightarrow> string option \<Rightarrow> request \<Rightarrow> handler" where
  "dispatch sv env ctx rq = (case find_handler (sv_metrics sv \<noteq> None) rq of
     Found e vs \<Rightarrow> handle sv env ctx rq e (case vs of v # _ \<Rightarrow> v | [] \<Rightarrow> [])
   | RedirectTo p \<Rightarrow> write_json 301 (Redirected p)
   | NotAllowed \<Rightarrow> write_json 405 MethodNotAllowed
   | NoRoute \<Rightarrow> write_json 404 NotFoundPage)"

definition middleware :: "auth \<Rightarrow> env \<Rightarrow> request \<Rightarrow> (string option \<Rightarrow> handler) \<Rightarrow> handler" where
  "middleware a env rq next w =
     (case authenticate a (en_auth_now env) (rq_api_key rq) (rq_remote rq) (url_path rq) w of
        (None, w') \<Rightarrow> write_unauthorized w'
      | (Some operator, w') \<Rightarrow> next (Some operator) w')"

definition serve :: "server \<Rightarrow> env \<Rightarrow> request \<Rightarrow> handler" where
  "serve sv env rq = (case sv_auth sv of
     None \<Rightarrow> dispatch sv env None rq
   | Some a \<Rightarrow> if requires_auth rq then middleware a env rq (\<lambda>ctx. dispatch sv env ctx rq)
      else dispatch sv env None rq)"

end
