(* ===== verification/HttpErrors.thy ===== *)
theory HttpErrors
  imports HttpFacts
begin

text \<open>
  The shared error objects over the life of the process: which parts of them requests overwrite, and
  what that means for the error replies.
\<close>

section \<open>Relations between states that the database does not matter for\<close>

locale process_relation = step_preorder R for R :: "world \<Rightarrow> world \<Rightarrow> bool" +
  assumes db_free: "R w (w\<lparr>w_db := d\<rparr>)"
    and errors_kept: "R w (w\<lparr>w_errors := snd (with_details e x (w_errors w))\<rparr>)"
begin

lemma fail_with_kept: "keeps R (fail_with e x)"
  using errors_kept by (simp add: keeps_def fail_with_def with_details_def)

lemma keeps_on_db: "keeps R (on_db m)"
  by (rule keepsI) (auto simp: on_db_def Let_def db_free split: prod.splits)

lemma keeps_call: "keeps R (call st)"
  unfolding call_def by (rule keeps_on_db)

lemma keeps_catch:
  assumes "keeps R m" and "\<And>e. keeps R (h e)"
  shows "keeps R (catch h m)"
proof (rule keepsI)
  fix s r t assume run: "catch h m s = (r, t)"
  obtain o' s' where m: "m s = (o', s')" by fastforce
  have "s' = t \<or> (\<exists>e. h e s' = (r, t))" using run m by (auto simp: catch_def split: sum.splits)
  then have "R s' t" using keepsD[OF assms(2)] R_refl by blast
  with keepsD[OF assms(1) m] show "R s t" by (rule R_trans)
qed

lemma keeps_duplicate_result: "keeps R (duplicate_result m)"
  by (rule keepsI)
     (auto simp: duplicate_result_def Let_def R_refl dest!: keepsD[OF keeps_call] intro: R_trans
       split: option.splits prod.splits sum.splits)

lemma keeps_after_tx: "keeps R (after_tx key e)"
  by (rule keepsI)
     (auto simp: after_tx_def R_refl dest!: keepsD[OF keeps_call] keepsD[OF keeps_duplicate_result]
       intro: R_trans split: if_splits prod.splits sum.splits option.splits)

lemmas use_case_rules = keeps_rules keeps_on_db keeps_call keeps_catch fail_with_kept
  keeps_duplicate_result keeps_after_tx

lemma use_cases:
  "keeps R (register_device now i n v md)" "keeps R (fetch_device i)" "keeps R all_devices"
  "keeps R (fetch_event i)" "keeps R (search_events f)" "keeps R get_stats" "keeps R (recent_audit l)"
  "keeps R (ingest_telemetry win now bytes raw)" "keeps R (add_rule ctx now bytes inp)"
  "keeps R (change_rule ctx now i inp)" "keeps R (delete_rule ctx now i)" "keeps R current_rules"
  "keeps R (fetch_rule i)" "keeps R (rule_changes i)"
  unfolding register_device_def fetch_device_def all_devices_def fetch_event_def search_events_def
    get_stats_def recent_audit_def ingest_telemetry_def add_rule_def change_rule_def delete_rule_def
    current_rules_def fetch_rule_def rule_changes_def Let_def
  by (auto intro!: use_case_rules split: option.split sum.split prod.split)

lemma composed_use_cases:
  "keeps R (set_device_status at i st)" "keeps R (replay_event now i)" "keeps R (list_deliveries i)"
  unfolding set_device_status_def replay_event_def list_deliveries_def Let_def
  by (auto intro!: use_case_rules use_cases)

lemma keeps_with_body: "(\<And>v. keeps R (f v)) \<Longrightarrow> keeps R (with_body dec z rq f)"
  by (simp add: with_body_def fail_with_kept split: sum.split)

lemmas request_rules = keeps_with_body use_cases composed_use_cases use_case_rules

lemma authenticate_kept: "authenticate a at k rm p w = (op, w') \<Longrightarrow> R w w'"
proof -
  have "R w (note_attempt a h act oper rm p at w)" for h act oper
    using keeps_call[of "record_audit h act oper rm p at"] R_refl by (simp add: note_attempt_def keeps_def)
  then show "authenticate a at k rm p w = (op, w') \<Longrightarrow> R w w'"
    by (auto simp: authenticate_def Let_def split: option.splits if_splits)
qed

end

section \<open>The error objects\<close>

text \<open>
  Code and message of an error object never change; its status changes only from 200 to 500.
\<close>

definition final_status :: "err_name \<Rightarrow> int" where
  "final_status n = (let st = err_status (initial_error n :: detail domain_error) in if st = 200 then 500 else st)"

definition heap_ok :: "detail error_heap \<Rightarrow> bool" where
  "heap_ok h \<longleftrightarrow> (\<forall>n. err_code (h n) = err_code (initial_error n :: detail domain_error)
     \<and> err_message (h n) = err_message (initial_error n :: detail domain_error)
     \<and> err_status (h n) \<in> {err_status (initial_error n :: detail domain_error), final_status n})"

definition heap_step :: "world \<Rightarrow> world \<Rightarrow> bool" where
  "heap_step s t \<longleftrightarrow> (heap_ok (w_errors s) \<longrightarrow> heap_ok (w_errors t))"

interpretation heap: process_relation heap_step
  by unfold_locales (auto simp: heap_step_def with_details_def heap_ok_def)

text \<open>A reply that tells an error, and the object it was made from.\<close>

definition error_reply_ok :: "response \<Rightarrow> bool" where
  "error_reply_ok rs \<longleftrightarrow> (case rs_reply rs of
     ErrorReply code msg d \<Rightarrow> \<exists>n. code = err_code (initial_error n :: detail domain_error)
        \<and> msg = err_message (initial_error n :: detail domain_error) \<and> rs_status rs = final_status n
   | InternalError \<Rightarrow> rs_status rs = 500
   | _ \<Rightarrow> True)"

definition plain_reply :: "reply \<Rightarrow> bool" where
  "plain_reply r \<longleftrightarrow> (case r of ErrorReply _ _ _ \<Rightarrow> False | InternalError \<Rightarrow> False | _ \<Rightarrow> True)"

lemma final_status_cases: "err_status (initial_error n :: detail domain_error) = 200 \<Longrightarrow> final_status n = 500"
  "err_status (initial_error n :: detail domain_error) \<noteq> 200 \<Longrightarrow>
     final_status n = err_status (initial_error n :: detail domain_error)"
  by (simp_all add: final_status_def Let_def)

lemma write_error_ok:
  assumes "heap_ok (w_errors w)" and "write_error e w = (rs, w')"
  shows "heap_ok (w_errors w') \<and> error_reply_ok rs"
proof (cases e)
  case (Failed d)
  with assms show ?thesis by (simp add: write_error_def error_reply_ok_def)
next
  case (Domain n)
  let ?st = "err_status (initial_error n :: detail domain_error)"
  have st: "err_status (w_errors w n) = ?st \<or> err_status (w_errors w n) = final_status n"
    and cm: "err_code (w_errors w n) = err_code (initial_error n :: detail domain_error)"
      "err_message (w_errors w n) = err_message (initial_error n :: detail domain_error)"
    using assms(1) by (auto simp: heap_ok_def)
  have fs: "(if err_status (w_errors w n) = 200 then 500 else err_status (w_errors w n)) = final_status n"
    using st final_status_cases[of n] by (cases "?st = 200") auto
  show ?thesis
    using assms cm fs
    by (auto simp: Domain write_error_def Let_def error_reply_ok_def heap_ok_def split: if_splits)
qed

lemma respond_ok:
  assumes "heap_ok (w_errors w)" and "keeps heap_step m" and "\<And>x. plain_reply (body x)"
    and "respond st body m w = (rs, w')"
  shows "heap_ok (w_errors w') \<and> error_reply_ok rs"
proof -
  obtain r w1 where m: "m w = (r, w1)" by fastforce
  then have w1: "heap_ok (w_errors w1)" using keepsD[OF assms(2)] assms(1) by (auto simp: heap_step_def)
  show ?thesis
  proof (cases r)
    case (Inl e)
    with assms(4) m have "write_error e w1 = (rs, w')" by (simp add: respond_def)
    with w1 show ?thesis by (rule write_error_ok)
  next
    case (Inr x)
    with assms(3)[of x] assms(4) m w1 show ?thesis
      by (auto simp: respond_def error_reply_ok_def plain_reply_def split: reply.splits)
  qed
qed

lemma write_json_ok: "plain_reply body \<Longrightarrow> error_reply_ok \<lparr>rs_status = st, rs_reply = body\<rparr>"
  by (auto simp: error_reply_ok_def plain_reply_def split: reply.splits)

lemma static_ok:
  "serve_file rq p w = (rs, w') \<Longrightarrow> error_reply_ok rs" "handle_index sv rq w = (rs, w') \<Longrightarrow> error_reply_ok rs"
  "handle_assets sv rq w = (rs, w') \<Longrightarrow> error_reply_ok rs"
  by (auto simp: serve_file_def handle_index_def handle_assets_def Let_def error_reply_ok_def split: if_splits)

lemma handle_ok:
  assumes heap: "heap_ok (w_errors w)" and run: "handle sv env ctx rq e arg w = (rs, w')"
  shows "heap_ok (w_errors w') \<and> error_reply_ok rs"
proof (cases "e \<in> {Healthz, Metrics, Assets, Index}")
  case True
  with run heap show ?thesis
    by (auto simp: handle_def plain_reply_def intro!: write_json_ok intro: static_ok dest: static_frame)
next
  case False
  from False run show ?thesis
    by (cases e)
       (auto simp: handle_def handle_create_device_def handle_list_devices_def handle_get_device_def
         handle_device_status_def handle_telemetry_def handle_create_rule_def handle_list_rules_def
         handle_get_rule_def handle_update_rule_def handle_delete_rule_def handle_rule_changes_def
         handle_list_events_def handle_get_event_def handle_stats_def handle_list_deliveries_def
         handle_replay_event_def handle_list_audit_def Let_def
         elim!: respond_ok[OF heap, rotated 2] intro!: heap.request_rules simp: plain_reply_def)
qed

lemma dispatch_ok:
  assumes "heap_ok (w_errors w)" and "dispatch sv env ctx rq w = (rs, w')"
  shows "heap_ok (w_errors w') \<and> error_reply_ok rs"
  using assms
  by (auto simp: dispatch_def plain_reply_def intro: write_json_ok dest: handle_ok split: routing.splits)

text \<open>Error replies: whatever requests came before (they overwrite the details, and one status, of the
  shared error objects), an error reply carries a code with its own message and its own status:
  404, 409 or 422 as declared, 500 for the two codes declared with 200, and 500 for every other
  error; the objects stay fit for the next request.\<close>

theorem error_replies_are_canonical:
  assumes "heap_ok (w_errors w)" and "serve sv env rq w = (rs, w')"
  shows "heap_ok (w_errors w') \<and> error_reply_ok rs"
proof (cases "sv_auth sv")
  case None
  with assms show ?thesis by (auto simp: serve_def dest: dispatch_ok)
next
  case (Some a)
  show ?thesis
  proof (cases "requires_auth rq")
    case True
    obtain op w1 where au: "authenticate a (en_auth_now env) (rq_api_key rq) (rq_remote rq) (url_path rq) w = (op, w1)"
      by fastforce
    have w1: "heap_ok (w_errors w1)" using heap.authenticate_kept[OF au] assms(1) by (simp add: heap_step_def)
    have "(rs = \<lparr>rs_status = 401, rs_reply = Unauthorized\<rparr> \<and> w' = w1) \<or> dispatch sv env op rq w1 = (rs, w')"
      using assms Some True au by (auto simp: serve_def middleware_def split: option.splits)
    with w1 show ?thesis by (auto simp: plain_reply_def intro: write_json_ok dest: dispatch_ok)
  next
    case False
    with assms Some show ?thesis by (auto simp: serve_def dest: dispatch_ok)
  qed
qed

theorem error_replies_are_canonical_witness:
  "\<exists>rs w'. serve sample_server sample_env (sample_request ''GET'' ''/api/v1/devices/NOWHERE99'' DNull) sample_world
      = (rs, w') \<and> error_reply_ok rs"
proof -
  let ?rq = "sample_request ''GET'' ''/api/v1/devices/NOWHERE99'' DNull"
  obtain rs w' where run: "serve sample_server sample_env ?rq sample_world = (rs, w')" by fastforce
  have "heap_ok (w_errors sample_world)" by (simp add: sample_world_def heap_ok_def)
  from error_replies_are_canonical[OF this run] run show ?thesis by blast
qed

section \<open>Static files\<close>

lemma split_on_append: "split_on c (x @ c # y) = split_on c x @ split_on c y"
  by (induction x) (auto split: list.splits simp: append_eq_Cons_conv)

lemma clean_parts_from: "p \<in> set (clean_parts rooted out ps) \<Longrightarrow> p \<in> set out \<union> set ps"
  by (induction rooted out ps rule: clean_parts.induct) (auto split: if_splits dest: in_set_tl)

lemma split_join_parts:
  assumes "\<forall>p \<in> set ps. CHR ''/'' \<notin> set p"
  shows "set (split_on CHR ''/'' (join_with ''/'' ps)) \<subseteq> set ps \<union> {[]}"
  using assms split_on_join_with[of ps "CHR ''/''"] by (cases "ps = []") auto

lemma clean_no_dot_dot:
  assumes "''..'' \<notin> set (split_on CHR ''/'' s)"
  shows "''..'' \<notin> set (split_on CHR ''/'' (clean s))"
proof -
  let ?parts = "clean_parts (s \<noteq> [] \<and> hd s = CHR ''/'') [] (split_on CHR ''/'' s)"
  have no: "''..'' \<notin> set ?parts" using assms by (auto dest: clean_parts_from)
  have "\<forall>p \<in> set ?parts. CHR ''/'' \<notin> set p"
    by (auto dest!: clean_parts_from dest: split_on_parts_clean)
  from split_join_parts[OF this] no have j: "''..'' \<notin> set (split_on CHR ''/'' (join_with ''/'' ?parts))" by auto
  show ?thesis
  proof (cases "s \<noteq> [] \<and> hd s = CHR ''/''")
    case True
    with j show ?thesis by (simp add: clean_def Let_def)
  next
    case False
    with j show ?thesis by (auto simp: clean_def Let_def)
  qed
qed

lemma split_slashes:
  "ps \<noteq> [] \<Longrightarrow> split_on CHR ''/'' (slashes (join_with ''/'' ps))
    = concat (map (\<lambda>p. split_on CHR ''/'' (slashes p)) ps)"
proof (induction ps rule: induct_list012)
  case (3 x y ys)
  have "slashes (x @ CHR ''/'' # s) = slashes x @ CHR ''/'' # slashes s" for s by (simp add: slashes_def)
  with 3 show ?case by (simp add: split_on_append)
qed (simp_all add: slashes_def)

lemma slashes_keeps_dots:
  assumes "''..'' \<in> set (split_on CHR ''/'' s)"
  shows "''..'' \<in> set (split_on CHR ''/'' (slashes s))"
proof -
  let ?ps = "split_on CHR ''/'' s"
  have "s = join_with ''/'' ?ps" using split_on_join[of "CHR ''/''" s] by simp
  then have "split_on CHR ''/'' (slashes s) = concat (map (\<lambda>p. split_on CHR ''/'' (slashes p)) ?ps)"
    using split_slashes[of ?ps] by simp
  moreover have "split_on CHR ''/'' (slashes ''..'') = [''..'']" by (simp add: slashes_def)
  ultimately show ?thesis using assms by force
qed

lemma join_paths_parts:
  assumes "d \<noteq> []"
  shows "join_paths d x = clean (join_with ''/'' (d # split_on CHR ''/'' x))"
proof -
  have "join_with ''/'' (d # split_on CHR ''/'' x) = d @ CHR ''/'' # x"
    using split_on_join[of "CHR ''/''" x "split_on CHR ''/'' x"] by (cases "split_on CHR ''/'' x") auto
  with assms show ?thesis by (simp add: join_paths_def)
qed

lemma static_dir_nonempty: "static_dir sv \<noteq> []"
  by (simp add: static_dir_def split: option.split)

lemma assets_path:
  assumes "find_handler b rq = Found Assets vs"
  shows "\<exists>name. url_path rq = ''/assets'' @ CHR ''/'' # name"
proof -
  obtain r t where r: "r \<in> set (routes b)" "rt_endpoint r = Assets"
    and t: "rq_target rq = CHR ''/'' # t" and m: "match_route r (CHR ''/'' # t) = Some vs"
    using found_route[OF assms] .
  from r have "r = below ''GET'' [Lit ''assets''] Assets"
    by (auto simp: routes_def exact_def below_def split: if_splits)
  with m obtain a rest where parts: "split_on CHR ''/'' t = a # rest" and "unescape a = ''assets''" "rest \<noteq> []"
    by (auto simp: match_route_def below_def path_segments_def neq_Nil_conv split: option.splits if_splits
        elim!: match_segments.elims)
  moreover have "t = a @ CHR ''/'' # join_with ''/'' rest"
    using split_on_join[OF parts] \<open>rest \<noteq> []\<close> by (cases rest) simp_all
  ultimately show ?thesis by (simp add: url_path_def t unescape_slash)
qed

lemma respond_no_file:
  assumes "respond st body m w = (rs, w')" and "\<And>x. body x \<noteq> FileAt p"
  shows "rs_reply rs \<noteq> FileAt p"
  using assms
  by (auto simp: respond_def write_error_def Let_def split: prod.splits sum.splits svc_error.splits)

lemma file_endpoint:
  assumes "handle sv env ctx rq e arg w = (rs, w')" and "rs_reply rs = FileAt p"
  shows "e \<in> {Assets, Index}"
  using assms
  by (cases e)
     (auto simp: handle_def handle_create_device_def handle_list_devices_def handle_get_device_def
       handle_device_status_def handle_telemetry_def handle_create_rule_def handle_list_rules_def
       handle_get_rule_def handle_update_rule_def handle_delete_rule_def handle_rule_changes_def
       handle_list_events_def handle_get_event_def handle_stats_def handle_list_deliveries_def
       handle_replay_event_def handle_list_audit_def dest: respond_no_file[where p = p])

lemma file_served:
  assumes "serve sv env rq w = (rs, w')" and "rs_reply rs = FileAt p"
  obtains e vs op w1 where "find_handler (sv_metrics sv \<noteq> None) rq = Found e vs" and "e \<in> {Assets, Index}"
    and "handle sv env op rq e (case vs of v # _ \<Rightarrow> v | [] \<Rightarrow> []) w1 = (rs, w')"
proof -
  obtain op w1 where "dispatch sv env op rq w1 = (rs, w')"
    using assms by (auto simp: serve_def middleware_def split: option.splits if_splits prod.splits)
  with assms(2) that file_endpoint show ?thesis
    by (fastforce simp: dispatch_def split: routing.splits)
qed

text \<open>C40. No path traversal: a file that is served lies below the static directory: its path is that of the
  directory followed by elements none of which is dot-dot, also when the request escapes dots and
  slashes.\<close>

theorem served_files_inside:
  assumes "serve sv env rq w = (rs, w')" and "rs_reply rs = FileAt p"
  shows "\<exists>rel. p = clean (join_with ''/'' (static_dir sv # rel)) \<and> rel \<noteq> [] \<and> ''..'' \<notin> set rel"
proof -
  obtain e vs op w1 where f: "find_handler (sv_metrics sv \<noteq> None) rq = Found e vs" and e: "e \<in> {Assets, Index}"
    and h: "handle sv env op rq e (case vs of v # _ \<Rightarrow> v | [] \<Rightarrow> []) w1 = (rs, w')"
    using file_served[OF assms] .
  note parts = join_paths_parts[OF static_dir_nonempty[of sv]]
  show ?thesis
  proof (cases "e = Assets")
    case True
    obtain name where u: "url_path rq = ''/assets'' @ CHR ''/'' # name"
      using assets_path f True by blast
    have asked: "handle_assets sv rq w1 = (rs, w')" using h True by (simp add: handle_def)
    have p: "p = join_paths (static_dir sv) (clean name)" and safe: "\<not> contains_dot_dot (url_path rq)"
      using asked assms(2) by (auto simp: handle_assets_def serve_file_def u split: if_splits)
    have "slashes (x @ CHR ''/'' # y) = slashes x @ CHR ''/'' # slashes y" for x y by (simp add: slashes_def)
    then have "''..'' \<notin> set (split_on CHR ''/'' (slashes name))"
      using safe by (simp add: contains_dot_dot_def u split_on_append del: append.simps)
    then have "''..'' \<notin> set (split_on CHR ''/'' (clean name))"
      using slashes_keeps_dots clean_no_dot_dot by blast
    then show ?thesis using p parts[of "clean name"] by (intro exI[of _ "split_on CHR ''/'' (clean name)"]) simp
  next
    case False
    with e h assms(2) have "p = join_paths (static_dir sv) ''index.html''"
      by (auto simp: handle_def handle_index_def serve_file_def split: if_splits)
    then show ?thesis using parts[of "''index.html''"] by (intro exI[of _ "[''index.html'']"]) simp
  qed
qed

theorem served_files_inside_witness:
  "\<exists>w'. serve sample_server sample_env (sample_request ''GET'' ''/assets/css%2Fapp.css'' DNull) sample_world
      = (\<lparr>rs_status = 200, rs_reply = FileAt ''internal/httpapi/assets/css/app.css''\<rparr>, w')
    \<and> (\<exists>rel. ''internal/httpapi/assets/css/app.css''
        = clean (join_with ''/'' (static_dir sample_server # rel)) \<and> rel \<noteq> [] \<and> ''..'' \<notin> set rel)"
proof -
  let ?rq = "sample_request ''GET'' ''/assets/css%2Fapp.css'' DNull"
  have "serve sample_server sample_env ?rq sample_world
    = (\<lparr>rs_status = 200, rs_reply = FileAt ''internal/httpapi/assets/css/app.css''\<rparr>, sample_world)"
  proof -
    have "find_handler False ?rq = Found Assets []" "\<not> requires_auth ?rq"
      "url_path ?rq = ''/assets/css/app.css''" "\<not> contains_dot_dot ''/assets/css/app.css''"
      "\<not> suffix ''/index.html'' ''/assets/css/app.css''"
      "join_paths ''internal/httpapi/assets'' (clean ''css/app.css'') = ''internal/httpapi/assets/css/app.css''"
      by code_simp+
    moreover have "sv_static sample_server = None" "sv_metrics sample_server = None"
      by (simp_all add: sample_server_def)
    ultimately show ?thesis
      by (auto simp: serve_def dispatch_def handle_def handle_assets_def serve_file_def static_dir_def
          write_json_def split: option.split)
  qed
  from this served_files_inside[OF this] show ?thesis by (auto simp del: join_with.simps)
qed

end
