(* ===== verification/WorkerFacts.thy ===== *)
theory WorkerFacts
  imports Worker
begin

text \<open>
  The properties of the delivery worker: its backoff in closed form, what a pass does to every
  delivery it was given, a bound on the number of attempts, and that every delivery is settled.
\<close>

section \<open>Backoff\<close>

lemma backoff_loop_doubles:
  assumes "0 < d" and "2 * d \<le> max_int64"
  shows "backoff_loop k d = (if k = 0 then d else min minute (d * 2 ^ k))"
  using assms
proof (induction k arbitrary: d)
  case (Suc k)
  have w: "wrap64 (d * 2) = d * 2"
    using Suc.prems by (intro wrap64_id) (auto simp: min_int64_def)
  show ?case
  proof (cases "minute < d * 2")
    case True
    have "d * 2 * 1 \<le> d * 2 * 2 ^ k" using Suc.prems(1) by (intro mult_left_mono) auto
    with True show ?thesis by (simp add: w Let_def min_def)
  next
    case False
    then have "2 * (d * 2) \<le> max_int64" by (simp add: minute_def second_def max_int64_def)
    then have "backoff_loop k (d * 2) = (if k = 0 then d * 2 else min minute (d * 2 * 2 ^ k))"
      using Suc.prems(1) by (intro Suc.IH) auto
    with False show ?thesis by (auto simp: w Let_def min_def)
  qed
qed simp

text \<open>C25. The retry delay: the first retry waits for the base delay, every later one twice as long as the
  one before, up to the ceiling of one minute.  The first delay is not capped, and the doubling is
  free of overflow for every base delay up to half the range of a duration.\<close>

theorem backoff_closed_form:
  assumes "0 < op_base_delay opts" and "2 * op_base_delay opts \<le> max_int64"
  shows "backoff opts attempt = (if attempt \<le> 1 then op_base_delay opts
    else min minute (op_base_delay opts * 2 ^ nat (attempt - 1)))"
  using assms by (simp add: backoff_def backoff_loop_doubles)

theorem backoff_closed_form_witness:
  "map (backoff default_options) [1, 2, 3, 6, 7, 100]
    = [second, 2 * second, 4 * second, 32 * second, minute, minute]"
proof -
  have "0 < op_base_delay default_options" "2 * op_base_delay default_options \<le> max_int64"
    by (simp_all add: default_options_def second_def max_int64_def)
  note b = backoff_closed_form[OF this]
  show ?thesis by (simp add: b) (simp add: default_options_def duration_defs min_def)
qed

lemma backoff_bounds:
  assumes "0 < op_base_delay opts" and "2 * op_base_delay opts \<le> max_int64"
  shows "0 < backoff opts attempt \<and> backoff opts attempt \<le> max minute (op_base_delay opts)"
proof -
  have "0 < op_base_delay opts * 2 ^ k" for k :: nat using assms(1) by simp
  then show ?thesis
    using assms by (auto simp: backoff_def backoff_loop_doubles minute_def second_def)
qed

section \<open>One attempt\<close>

text \<open>What an attempt makes of the delivery and of the event, from the answer of the sink.\<close>

definition settle :: "options \<Rightarrow> (instant \<Rightarrow> instant) \<Rightarrow> instant \<Rightarrow> string option \<Rightarrow> delivery \<Rightarrow> delivery" where
  "settle opts stamp now answer d = (case answer of
     None \<Rightarrow> d\<lparr>dl_status := DeliveryDispatched, dl_attempts := dl_attempts d + 1, dl_last_error := [],
        dl_next_retry_at := None, dl_dispatched_at := Some (stamp now)\<rparr>
   | Some err \<Rightarrow>
       if op_max_attempt opts \<le> dl_attempts d + 1 then
         d\<lparr>dl_status := DeliveryDead, dl_last_error := err, dl_next_retry_at := None,
           dl_dispatched_at := Some (stamp now)\<rparr>
       else d\<lparr>dl_status := DeliveryFailed, dl_attempts := dl_attempts d + 1, dl_last_error := err,
           dl_next_retry_at := Some (stamp (now + backoff opts (dl_attempts d + 1)))\<rparr>)"

definition verdict :: "options \<Rightarrow> delivery \<Rightarrow> string option \<Rightarrow> event \<Rightarrow> event" where
  "verdict opts d answer ev = (case answer of
     None \<Rightarrow> ev\<lparr>ev_status := EventDispatched\<rparr>
   | Some _ \<Rightarrow> if op_max_attempt opts \<le> dl_attempts d + 1 then ev\<lparr>ev_status := EventDeadLetter\<rparr> else ev)"

definition attempted :: "options \<Rightarrow> sink \<Rightarrow> instant \<Rightarrow> delivery \<Rightarrow> event \<Rightarrow> worker_state \<Rightarrow> worker_state" where
  "attempted opts sink now d ev s = (let db = ws_db s; p = payload_of ev d;
       answer = sink (ws_log s) (dl_topic d) p in
     s\<lparr>ws_db := db\<lparr>
         db_deliveries := update_rows dl_id (dl_id d) (settle opts (db_stamp db) now answer) (db_deliveries db),
         db_events := update_rows ev_event_id (ev_event_id ev) (verdict opts d answer) (db_events db)\<rparr>,
       ws_log := ws_log s @ [(dl_topic d, p, answer)]\<rparr>)"

lemma settle_core [simp]:
  "dl_id (settle opts st now a d) = dl_id d" "dl_event_id (settle opts st now a d) = dl_event_id d"
  "dl_rule_id (settle opts st now a d) = dl_rule_id d" "dl_topic (settle opts st now a d) = dl_topic d"
  by (simp_all add: settle_def split: option.split)

lemma verdict_core [simp]:
  "ev_event_id (verdict opts d a e) = ev_event_id e" "marshals (verdict opts d a e) = marshals e"
  "payload_of (verdict opts d a e) d' = payload_of e d'"
  by (simp_all add: verdict_def marshals_def payload_of_def split: option.split)

lemma verdict_cases:
  "verdict opts d None = ev_status_update (\<lambda>_. EventDispatched)"
  "op_max_attempt opts \<le> dl_attempts d + 1 \<Longrightarrow>
     verdict opts d (Some e) = ev_status_update (\<lambda>_. EventDeadLetter)"
  "\<not> op_max_attempt opts \<le> dl_attempts d + 1 \<Longrightarrow> verdict opts d (Some e) = (\<lambda>ev. ev)"
  by (simp_all add: verdict_def fun_eq_iff)

lemma update_rows_cong:
  "(\<And>r. r \<in> set rows \<Longrightarrow> key r = k \<Longrightarrow> f r = g r) \<Longrightarrow> update_rows key k f rows = update_rows key k g rows"
  by (auto simp: update_rows_def)

lemma update_rows_id: "update_rows key k (\<lambda>r. r) rows = rows"
  by (simp add: update_rows_def)

lemma store_call_fault_free: "db_plan (ws_db s) = [] \<Longrightarrow>
    store_call st s = (let (r, d) = st (ws_db s) in (r, s\<lparr>ws_db := d\<rparr>))"
  by (simp add: store_call_def exec_fault_free)

lemma dispatch_one_run:
  assumes plan: "db_plan (ws_db s) = []"
    and d: "d \<in> set (db_deliveries (ws_db s))" and uniq: "distinct (map dl_id (db_deliveries (ws_db s)))"
    and ev: "find_row ev_event_id (dl_event_id d) (db_events (ws_db s)) = Some ev"
    and ok: "marshals ev" and small: "int4 (dl_attempts d + 1)"
  shows "dispatch_one opts sink now d s = (Inr (), attempted opts sink now d ev s)"
proof -
  let ?rows = "db_deliveries (ws_db s)" and ?st = "db_stamp (ws_db s)"
  have only: "r = d" if "r \<in> set ?rows" "dl_id r = dl_id d" for r
    using distinct_map_unique[OF uniq that(1) d that(2)] .
  have upd: "update_rows dl_id (dl_id d) f ?rows = update_rows dl_id (dl_id d) (settle opts ?st now a) ?rows"
    if "f d = settle opts ?st now a d" for f a
    using that only by (intro update_rows_cong) metis
  have range: "\<not> list_ex (\<lambda>r. dl_id r = dl_id d \<and> \<not> int4 (dl_attempts r + 1)) ?rows"
    using only small by (auto simp: list_ex_iff)
  have g: "store_call (get_event_by_id (dl_event_id d)) s = (Inr (Some ev), s)"
    using plan ev by (simp add: store_call_fault_free get_event_by_id_def)
  let ?a = "sink (ws_log s) (dl_topic d) (payload_of ev d)"
  let ?s = "s\<lparr>ws_log := ws_log s @ [(dl_topic d, payload_of ev d, ?a)]\<rparr>"
  have start: "dispatch_one opts sink now d s = (case ?a of
       Some err \<Rightarrow> handle_failure opts d ev now err ?s
     | None \<Rightarrow> andThen (store_call (mark_delivered (dl_id d) now)) (\<lambda>_.
         store_call (update_event_status (ev_event_id ev) EventDispatched)) ?s)"
    by (simp add: dispatch_one_def andThen_def g ok send_def Let_def split: option.split)
  show ?thesis
  proof (cases ?a)
    case None
    have "mark_delivered (dl_id d) now (ws_db s)
      = (Inr (), (ws_db s)\<lparr>db_deliveries := update_rows dl_id (dl_id d) (settle opts ?st now None) ?rows\<rparr>)"
      using range by (simp add: mark_delivered_def settle_def cong: update_rows_cong)
    then show ?thesis
      using plan
      by (simp add: start None andThen_def store_call_fault_free update_event_status_def attempted_def
          Let_def verdict_cases)
  next
    case (Some err)
    show ?thesis
    proof (cases "op_max_attempt opts \<le> dl_attempts d + 1")
      case True
      have "update_rows dl_id (dl_id d) (\<lambda>r. r\<lparr>dl_status := DeliveryDead, dl_last_error := err,
          dl_next_retry_at := None, dl_dispatched_at := Some (?st now)\<rparr>) ?rows
        = update_rows dl_id (dl_id d) (settle opts ?st now (Some err)) ?rows"
        by (rule upd) (simp add: settle_def True)
      then show ?thesis
        using plan True
        by (simp add: start Some handle_failure_def andThen_def store_call_fault_free mark_dead_def
            update_event_status_def attempted_def Let_def verdict_cases)
    next
      case False
      have "update_rows dl_id (dl_id d) (\<lambda>r. r\<lparr>dl_status := DeliveryFailed, dl_attempts := dl_attempts d + 1,
          dl_last_error := err, dl_next_retry_at := Some (?st (now + backoff opts (dl_attempts d + 1)))\<rparr>) ?rows
        = update_rows dl_id (dl_id d) (settle opts ?st now (Some err)) ?rows"
        by (rule upd) (simp add: settle_def False)
      then show ?thesis
        using plan False small
        by (simp add: start Some handle_failure_def store_call_fault_free mark_failed_def
            attempted_def Let_def verdict_cases update_rows_id)
    qed
  qed
qed

section \<open>A pass\<close>

text \<open>The answers of the sink to a list of payloads, each asked after the ones before.\<close>

fun attempts_of :: "sink \<Rightarrow> attempt list \<Rightarrow> (string \<times> dispatch_payload) list \<Rightarrow> attempt list" where
  "attempts_of sink log [] = []"
| "attempts_of sink log ((topic, p) # rest) = (let a = (topic, p, sink log topic p) in
     a # attempts_of sink (log @ [a]) rest)"

definition event_of :: "database \<Rightarrow> delivery \<Rightarrow> event" where
  "event_of db d = the (find_row ev_event_id (dl_event_id d) (db_events db))"

definition asked :: "database \<Rightarrow> delivery list \<Rightarrow> (string \<times> dispatch_payload) list" where
  "asked db batch = map (\<lambda>d. (dl_topic d, payload_of (event_of db d) d)) batch"

definition settle_by :: "options \<Rightarrow> (instant \<Rightarrow> instant) \<Rightarrow> instant \<Rightarrow> (int \<times> string option) list
  \<Rightarrow> delivery \<Rightarrow> delivery" where
  "settle_by opts stamp now answers d = (case map_of answers (dl_id d) of
     None \<Rightarrow> d | Some a \<Rightarrow> settle opts stamp now a d)"

definition answers_of :: "delivery list \<Rightarrow> attempt list \<Rightarrow> (int \<times> string option) list" where
  "answers_of batch atts = zip (map dl_id batch) (map (\<lambda>(_, _, a). a) atts)"

lemma answers_of_simps [simp]:
  "answers_of [] as = []" "answers_of (d # ds) ((t, p, a) # as) = (dl_id d, a) # answers_of ds as"
  by (simp_all add: answers_of_def)

lemma length_attempts_of [simp]: "length (attempts_of sink log ps) = length ps"
  by (induction sink log ps rule: attempts_of.induct) (auto simp: Let_def)

lemma attempts_of_nth:
  "i < length ps \<Longrightarrow> attempts_of sink log ps ! i
    = (fst (ps ! i), snd (ps ! i), sink (log @ take i (attempts_of sink log ps)) (fst (ps ! i)) (snd (ps ! i)))"
proof (induction sink log ps arbitrary: i rule: attempts_of.induct)
  case (2 sink log topic p rest)
  then show ?case by (cases i) (auto simp: Let_def)
qed simp

lemma settle_by_id [simp]: "dl_id (settle_by opts st now as d) = dl_id d"
  by (simp add: settle_by_def split: option.split)

lemma settle_by_Cons:
  assumes "k \<notin> fst ` set as"
  shows "map (settle_by opts st now as) (update_rows dl_id k (settle opts st now a) rows)
    = map (settle_by opts st now ((k, a) # as)) rows"
proof -
  have "map_of as k = None" using assms by (simp add: map_of_eq_None_iff)
  then show ?thesis by (auto simp: update_rows_def settle_by_def)
qed

definition ready :: "database \<Rightarrow> delivery list \<Rightarrow> bool" where
  "ready db batch \<longleftrightarrow> db_plan db = [] \<and> distinct (map dl_id (db_deliveries db))
     \<and> distinct (map dl_id batch) \<and> set batch \<subseteq> set (db_deliveries db)
     \<and> (\<forall>d \<in> set batch. int4 (dl_attempts d + 1)
          \<and> (\<exists>ev. find_row ev_event_id (dl_event_id d) (db_events db) = Some ev \<and> marshals ev))"

lemma attempted_event:
  "find_row ev_event_id k (db_events (ws_db (attempted opts sink now d ev s)))
    = map_option (\<lambda>e. if ev_event_id e = ev_event_id ev
        then verdict opts d (sink (ws_log s) (dl_topic d) (payload_of ev d)) e else e)
      (find_row ev_event_id k (db_events (ws_db s)))"
  by (simp add: attempted_def Let_def find_row_update)

lemma ready_attempted:
  assumes "ready (ws_db s) (d # batch)"
  shows "ready (ws_db (attempted opts sink now d ev s)) batch"
proof -
  let ?t = "ws_db (attempted opts sink now d ev s)"
  have stay: "d' \<in> set (db_deliveries ?t)" if "d' \<in> set batch" for d'
  proof -
    have "dl_id d \<notin> dl_id ` set batch" "d' \<in> set (db_deliveries (ws_db s))"
      using assms that by (auto simp: ready_def)
    moreover from this(1) that have "dl_id d' \<noteq> dl_id d" by (metis imageI)
    ultimately have "d' \<in> set (db_deliveries (ws_db s))" "dl_id d' \<noteq> dl_id d" by simp_all
    then show ?thesis by (force simp: attempted_def Let_def update_rows_def)
  qed
  have "\<exists>ev'. find_row ev_event_id (dl_event_id d') (db_events ?t) = Some ev' \<and> marshals ev'"
    if mem: "d' \<in> set batch" for d'
  proof -
    obtain e where "find_row ev_event_id (dl_event_id d') (db_events (ws_db s)) = Some e" "marshals e"
      using assms mem by (auto simp: ready_def)
    then show ?thesis by (simp add: attempted_event)
  qed
  then show ?thesis
    using assms stay by (auto simp: ready_def attempted_def Let_def map_update_rows)
qed

lemma asked_attempted: "asked (ws_db (attempted opts sink now d ev s)) batch = asked (ws_db s) batch"
  if "ready (ws_db s) (d # batch)"
proof -
  have "payload_of (event_of (ws_db (attempted opts sink now d ev s)) d') d'
      = payload_of (event_of (ws_db s) d') d'" if mem: "d' \<in> set batch" for d'
  proof -
    obtain e where "find_row ev_event_id (dl_event_id d') (db_events (ws_db s)) = Some e"
      using \<open>ready (ws_db s) (d # batch)\<close> mem by (auto simp: ready_def)
    then show ?thesis by (simp add: event_of_def attempted_event)
  qed
  then show ?thesis by (simp add: asked_def)
qed

lemma batch_run:
  assumes "ready (ws_db s) batch"
  shows "\<exists>s'. for_each (dispatch_one opts sink now) batch s = (Inr (), s')
    \<and> ws_log s' = ws_log s @ attempts_of sink (ws_log s) (asked (ws_db s) batch)
    \<and> db_deliveries (ws_db s') = map (settle_by opts (db_stamp (ws_db s)) now
        (answers_of batch (attempts_of sink (ws_log s) (asked (ws_db s) batch)))) (db_deliveries (ws_db s))
    \<and> map event_core (db_events (ws_db s')) = map event_core (db_events (ws_db s))
    \<and> db_stamp (ws_db s') = db_stamp (ws_db s) \<and> db_plan (ws_db s') = []"
  using assms
proof (induction batch arbitrary: s)
  case Nil
  have "map (settle_by opts st now []) rows = rows" for st rows
    by (simp add: settle_by_def map_idI)
  with Nil show ?case by (simp add: ret_def ready_def asked_def answers_of_def)
next
  case (Cons d batch)
  obtain ev where ev: "find_row ev_event_id (dl_event_id d) (db_events (ws_db s)) = Some ev" "marshals ev"
    using Cons.prems by (auto simp: ready_def)
  let ?s = "attempted opts sink now d ev s"
  let ?a = "sink (ws_log s) (dl_topic d) (payload_of ev d)"
  have run: "dispatch_one opts sink now d s = (Inr (), ?s)"
    using Cons.prems ev by (intro dispatch_one_run) (auto simp: ready_def)
  obtain s' where s': "for_each (dispatch_one opts sink now) batch ?s = (Inr (), s')"
    "ws_log s' = ws_log ?s @ attempts_of sink (ws_log ?s) (asked (ws_db ?s) batch)"
    "db_deliveries (ws_db s') = map (settle_by opts (db_stamp (ws_db ?s)) now
        (answers_of batch (attempts_of sink (ws_log ?s) (asked (ws_db ?s) batch)))) (db_deliveries (ws_db ?s))"
    "map event_core (db_events (ws_db s')) = map event_core (db_events (ws_db ?s))"
    "db_stamp (ws_db s') = db_stamp (ws_db ?s)" "db_plan (ws_db s') = []"
    using Cons.IH[OF ready_attempted[OF Cons.prems]] by blast
  have e: "event_of (ws_db s) d = ev" by (simp add: event_of_def ev)
  have log: "attempts_of sink (ws_log s) (asked (ws_db s) (d # batch))
      = (dl_topic d, payload_of ev d, ?a) # attempts_of sink (ws_log ?s) (asked (ws_db ?s) batch)"
    by (simp add: asked_attempted[OF Cons.prems]) (simp add: asked_def e Let_def attempted_def)
  have fresh: "dl_id d \<notin> fst ` set (answers_of batch as)" for as
    using Cons.prems by (force simp: ready_def answers_of_def dest: set_zip_leftD)
  have st: "db_stamp (ws_db ?s) = db_stamp (ws_db s)"
    "db_deliveries (ws_db ?s) = update_rows dl_id (dl_id d) (settle opts (db_stamp (ws_db s)) now ?a)
       (db_deliveries (ws_db s))"
    "map event_core (db_events (ws_db ?s)) = map event_core (db_events (ws_db s))"
    "ws_log ?s = ws_log s @ [(dl_topic d, payload_of ev d, ?a)]"
    by (simp_all add: attempted_def Let_def map_update_rows event_core_def verdict_def split: option.split)
  have "for_each (dispatch_one opts sink now) (d # batch) s = (Inr (), s')"
    by (simp add: andThen_def run s'(1))
  then show ?case
    using s'(2-6) by (simp add: log st settle_by_Cons[OF fresh])
qed

text \<open>A database the worker can work on: no faults, and every waiting delivery fit for an attempt.\<close>

definition workable :: "database \<Rightarrow> bool" where
  "workable db \<longleftrightarrow> db_plan db = [] \<and> distinct (map dl_id (db_deliveries db))
     \<and> dl_event_id ` set (db_deliveries db) \<subseteq> ev_event_id ` set (db_events db)
     \<and> (\<forall>e \<in> set (db_events db). marshals e)
     \<and> (\<forall>d \<in> set (db_deliveries db). waiting d \<longrightarrow>
          dl_next_retry_at d \<noteq> None \<and> int4 (dl_attempts d + 1))"

definition due_batch :: "options \<Rightarrow> instant \<Rightarrow> database \<Rightarrow> delivery list" where
  "due_batch opts now db = take (nat (if op_batch opts \<le> 0 then 100 else op_batch opts))
     (sort_key (\<lambda>d. the (dl_next_retry_at d)) (sort_key dl_id
        (filter (is_due (db_stamp db) now) (db_deliveries db))))"

lemma list_due: "list_due_deliveries now (op_batch opts) db = (Inr (due_batch opts now db), db)"
  by (simp add: list_due_deliveries_def due_batch_def)

lemma due_batch_mem:
  "d \<in> set (due_batch opts now db) \<Longrightarrow> d \<in> set (db_deliveries db) \<and> is_due (db_stamp db) now d"
  by (auto simp: due_batch_def dest: in_set_takeD)

lemma is_due_waiting: "is_due stamp now d \<longleftrightarrow>
    waiting d \<and> (case dl_next_retry_at d of None \<Rightarrow> False | Some t \<Rightarrow> t \<le> stamp now)"
  by (auto simp: is_due_def waiting_def)

lemma due_batch_distinct:
  assumes "distinct (map dl_id (db_deliveries db))"
  shows "distinct (map dl_id (due_batch opts now db))"
proof -
  let ?due = "filter (is_due (db_stamp db) now) (db_deliveries db)"
  let ?sorted = "sort_key (\<lambda>d. the (dl_next_retry_at d)) (sort_key dl_id ?due)"
  have "mset (map dl_id ?sorted) = mset (map dl_id ?due)" by simp
  moreover have "distinct (map dl_id ?due)" using assms by (rule distinct_map_filter)
  ultimately have "distinct (map dl_id ?sorted)" using mset_eq_imp_distinct_iff by blast
  then show ?thesis unfolding due_batch_def take_map[symmetric] by (rule distinct_take)
qed

lemma due_batch_nonempty:
  "d \<in> set (db_deliveries db) \<Longrightarrow> is_due (db_stamp db) now d \<Longrightarrow> due_batch opts now db \<noteq> []"
  by (auto simp: due_batch_def filter_empty_conv simp flip: length_greater_0_conv)

lemma workable_ready:
  assumes "workable db"
  shows "ready db (due_batch opts now db)"
proof -
  have "\<exists>ev. find_row ev_event_id (dl_event_id d) (db_events db) = Some ev \<and> marshals ev"
    if "d \<in> set (due_batch opts now db)" for d
  proof -
    have "dl_event_id d \<in> ev_event_id ` set (db_events db)"
      using assms due_batch_mem[OF that] by (auto simp: workable_def)
    then obtain ev where ev: "find_row ev_event_id (dl_event_id d) (db_events db) = Some ev"
      by (metis events.lookup_None_iff not_None_eq)
    then show ?thesis using assms events.lookup_SomeD[OF ev] by (auto simp: workable_def)
  qed
  then show ?thesis
    using assms by (auto simp: ready_def workable_def is_due_waiting due_batch_distinct dest: due_batch_mem)
qed

lemma pass_run:
  assumes "workable (ws_db s)"
  shows "let db = ws_db s; batch = due_batch opts now db;
        atts = attempts_of sink (ws_log s) (asked db batch) in
    \<exists>s'. process_once opts sink now s = (Inr (), s') \<and> ws_log s' = ws_log s @ atts
      \<and> db_deliveries (ws_db s') = map (settle_by opts (db_stamp db) now (answers_of batch atts)) (db_deliveries db)
      \<and> map event_core (db_events (ws_db s')) = map event_core (db_events db)
      \<and> db_stamp (ws_db s') = db_stamp db \<and> db_plan (ws_db s') = []"
  using batch_run[OF workable_ready[OF assms, of opts now], of opts sink now] assms
  by (simp add: process_once_def andThen_def store_call_fault_free list_due Let_def workable_def)

text \<open>One waiting delivery of the sample event.\<close>

definition sample_delivery :: delivery where
  "sample_delivery = \<lparr>dl_id = 1, dl_event_id = ''e'', dl_rule_id = ''a'', dl_topic = ''a'',
     dl_status = DeliveryPending, dl_attempts = 3, dl_last_error = [], dl_next_retry_at = Some 0,
     dl_dispatched_at = None\<rparr>"

definition sample_worker :: worker_state where
  "sample_worker = \<lparr>ws_db = sample_db\<lparr>db_events := [sample_event], db_seq_event := 2,
       db_deliveries := [sample_delivery], db_seq_delivery := 2\<rparr>,
     ws_log = []\<rparr>"

lemma sample_worker_facts:
  "workable (ws_db sample_worker)" "db_deliveries (ws_db sample_worker) = [sample_delivery]"
  "db_stamp (ws_db sample_worker) = (\<lambda>t. t)" "waiting sample_delivery" "dl_attempts sample_delivery = 3"
  "dl_next_retry_at sample_delivery = Some 0" "ws_log sample_worker = []"
proof -
  have "marshals sample_event"
    using epoch_civil by (simp add: marshals_def sample_event_def is_finite_def)
  then show "workable (ws_db sample_worker)"
    by (simp add: workable_def sample_worker_def sample_db_def empty_database_def sample_delivery_def
        sample_event_def int4_def)
qed (simp_all add: sample_worker_def sample_db_def empty_database_def sample_delivery_def waiting_def)

text \<open>C26. A pass, whatever the sink answers: the due batch is handed to the sink one by one in its order,
  each delivery exactly once; the delivery is then dispatched, dead or failed with its next retry
  according to its own answer; every other delivery, and everything but the status of the events,
  stays as it was.\<close>

theorem pass_settles_batch:
  assumes "workable (ws_db s)"
  shows "let db = ws_db s; batch = due_batch opts now db;
        atts = attempts_of sink (ws_log s) (asked db batch) in
    \<exists>s'. process_once opts sink now s = (Inr (), s') \<and> ws_log s' = ws_log s @ atts
      \<and> db_deliveries (ws_db s') = map (settle_by opts (db_stamp db) now (answers_of batch atts)) (db_deliveries db)
      \<and> map event_core (db_events (ws_db s')) = map event_core (db_events db)"
  using pass_run[OF assms, of opts now sink] by (auto simp: Let_def)

theorem pass_settles_batch_witness:
  "\<exists>s'. process_once default_options (\<lambda>_ _ _. Some ''broken'') 10 sample_worker = (Inr (), s')
     \<and> map dl_attempts (db_deliveries (ws_db s')) = [4]
     \<and> map dl_next_retry_at (db_deliveries (ws_db s')) = [Some (10 + backoff default_options 4)]"
proof -
  let ?db = "ws_db sample_worker"
  have b: "due_batch default_options 10 ?db = [sample_delivery]"
    by (simp add: due_batch_def sample_worker_facts is_due_waiting default_options_def)
  have a: "attempts_of (\<lambda>_ _ _. Some ''broken'') [] (asked ?db [sample_delivery])
    = [(dl_topic sample_delivery, payload_of (event_of ?db sample_delivery) sample_delivery, Some ''broken'')]"
    by (simp add: asked_def)
  have m: "op_max_attempt default_options = 5" by (simp add: default_options_def)
  show ?thesis
    using pass_settles_batch[OF sample_worker_facts(1), of default_options 10 "\<lambda>_ _ _. Some ''broken''"]
    by (auto simp: Let_def b a sample_worker_facts settle_by_def settle_def m)
qed

section \<open>How often a delivery is attempted\<close>

text \<open>The attempts a waiting delivery may still take, and the sum over all deliveries.\<close>

definition weight :: "options \<Rightarrow> delivery \<Rightarrow> nat" where
  "weight opts d = (if waiting d then 1 + nat (op_max_attempt opts - 1 - dl_attempts d) else 0)"

definition budget :: "options \<Rightarrow> database \<Rightarrow> nat" where
  "budget opts db = (\<Sum>d \<leftarrow> db_deliveries db. weight opts d)"

lemma weight_settle: "waiting d \<Longrightarrow> weight opts (settle opts st now a d) < weight opts d"
  by (auto simp: weight_def settle_def waiting_def split: option.splits)

lemma sum_settle:
  assumes uniq: "distinct (map dl_id rows)" and batch: "distinct (map dl_id batch)"
    and sub: "set batch \<subseteq> {d \<in> set rows. waiting d}" and keys: "map fst as = map dl_id batch"
  shows "(\<Sum>d \<leftarrow> map (settle_by opts st now as) rows. weight opts d) + length batch
    \<le> (\<Sum>d \<leftarrow> rows. weight opts d)"
proof -
  let ?hit = "\<lambda>d. dl_id d \<in> dl_id ` set batch"
  have key_iff: "map_of as k = None \<longleftrightarrow> k \<notin> dl_id ` set batch" for k
    using keys by (metis map_of_eq_None_iff list.set_map)
  have each: "weight opts (settle_by opts st now as d) + (if ?hit d then 1 else 0) \<le> weight opts d"
    if "d \<in> set rows" for d
  proof (cases "?hit d")
    case True
    then obtain b where "b \<in> set batch" "dl_id b = dl_id d" by auto
    then have "waiting d" using sub that distinct_map_unique[OF uniq] by blast
    moreover obtain a where "map_of as (dl_id d) = Some a" using True key_iff by (metis not_None_eq)
    ultimately show ?thesis using True weight_settle by (simp add: settle_by_def Suc_le_eq)
  next
    case False
    then have "map_of as (dl_id d) = None" by (simp add: key_iff)
    then show ?thesis using False by (simp add: settle_by_def)
  qed
  have "length batch = card (set batch)" using batch by (simp add: distinct_card distinct_map)
  also have "\<dots> \<le> card (set (filter ?hit rows))"
    using sub by (intro card_mono) auto
  also have "\<dots> \<le> length (filter ?hit rows)" by (rule card_length)
  also have "\<dots> = (\<Sum>d \<leftarrow> rows. if ?hit d then 1 else 0)" by (induction rows) auto
  finally have "(\<Sum>d \<leftarrow> map (settle_by opts st now as) rows. weight opts d) + length batch
    \<le> (\<Sum>d \<leftarrow> rows. weight opts (settle_by opts st now as d) + (if ?hit d then 1 else 0))"
    by (simp add: sum_list_addf comp_def)
  also have "\<dots> \<le> (\<Sum>d \<leftarrow> rows. weight opts d)" by (intro sum_list_mono each)
  finally show ?thesis .
qed

lemma answers_keys: "length as = length batch \<Longrightarrow> map fst (answers_of batch as) = map dl_id batch"
  by (simp add: answers_of_def)

lemma settle_waiting:
  assumes "waiting (settle opts st now a d)"
  shows "dl_attempts d + 1 < op_max_attempt opts"
    and "dl_attempts (settle opts st now a d) = dl_attempts d + 1"
    and "dl_next_retry_at (settle opts st now a d) = Some (st (now + backoff opts (dl_attempts d + 1)))"
  using assms by (auto simp: settle_def waiting_def split: option.splits if_splits)

lemma event_cores_kept:
  assumes "map event_core es' = map event_core es"
  shows "ev_event_id ` set es' = ev_event_id ` set es"
    and "(\<forall>e \<in> set es. marshals e) \<Longrightarrow> \<forall>e \<in> set es'. marshals e"
proof -
  have "ev_event_id \<circ> event_core = ev_event_id" "marshals \<circ> event_core = marshals"
    by (simp_all add: fun_eq_iff event_core_def marshals_def)
  then have "map ev_event_id es' = map ev_event_id es" and m: "map marshals es' = map marshals es"
    using assms by (metis list.map_comp)+
  then show "ev_event_id ` set es' = ev_event_id ` set es" by (metis list.set_map)
  show "\<forall>e \<in> set es'. marshals e" if "\<forall>e \<in> set es. marshals e"
    using m that by (metis image_iff list.set_map)
qed

lemma pass_step:
  assumes ok: "workable (ws_db s)" and small: "op_max_attempt opts \<le> 2147483647"
  obtains s' where "process_once opts sink now s = (Inr (), s')"
    and "workable (ws_db s')" and "db_stamp (ws_db s') = db_stamp (ws_db s)"
    and "length (ws_log s') = length (ws_log s) + length (due_batch opts now (ws_db s))"
    and "budget opts (ws_db s') + length (due_batch opts now (ws_db s)) \<le> budget opts (ws_db s)"
    and "\<And>d'. d' \<in> set (db_deliveries (ws_db s')) \<Longrightarrow> waiting d' \<Longrightarrow>
      (d' \<in> set (db_deliveries (ws_db s))
       \<or> (\<exists>a. dl_next_retry_at d' = Some (db_stamp (ws_db s) (now + backoff opts a))))"
proof -
  let ?db = "ws_db s" and ?batch = "due_batch opts now (ws_db s)"
  let ?atts = "attempts_of sink (ws_log s) (asked (ws_db s) (due_batch opts now (ws_db s)))"
  let ?as = "answers_of ?batch ?atts"
  obtain s' where run: "process_once opts sink now s = (Inr (), s')" and log: "ws_log s' = ws_log s @ ?atts"
    and rows: "db_deliveries (ws_db s') = map (settle_by opts (db_stamp ?db) now ?as) (db_deliveries ?db)"
    and evs: "map event_core (db_events (ws_db s')) = map event_core (db_events ?db)"
    and st: "db_stamp (ws_db s') = db_stamp ?db" "db_plan (ws_db s') = []"
    using pass_run[OF ok, of opts now sink] by (auto simp: Let_def)
  have len: "length ?atts = length ?batch" by (simp add: asked_def)
  have cases: "(d \<in> set (db_deliveries ?db) \<and> d' = d) \<or>
      (d \<in> set (db_deliveries ?db) \<and> (\<exists>a. d' = settle opts (db_stamp ?db) now a d))"
    if "d' = settle_by opts (db_stamp ?db) now ?as d" "d \<in> set (db_deliveries ?db)" for d d'
    using that by (auto simp: settle_by_def split: option.splits)
  have same: "map dl_id (db_deliveries (ws_db s')) = map dl_id (db_deliveries ?db)"
    "map dl_event_id (db_deliveries (ws_db s')) = map dl_event_id (db_deliveries ?db)"
    by (simp_all add: rows settle_by_def split: option.split)
  from same(2) have "dl_event_id ` set (db_deliveries (ws_db s')) = dl_event_id ` set (db_deliveries ?db)"
    by (metis list.set_map)
  then have keys: "distinct (map dl_id (db_deliveries (ws_db s')))"
    "dl_event_id ` set (db_deliveries (ws_db s')) \<subseteq> ev_event_id ` set (db_events (ws_db s'))"
    using ok event_cores_kept(1)[OF evs] same(1) by (simp_all add: workable_def)
  have fit: "dl_next_retry_at d' \<noteq> None \<and> int4 (dl_attempts d' + 1)"
    if "d' \<in> set (db_deliveries (ws_db s'))" "waiting d'" for d'
  proof -
    from that(1) obtain d where d: "d \<in> set (db_deliveries ?db)"
      and d': "d' = settle_by opts (db_stamp ?db) now ?as d" by (auto simp: rows)
    show ?thesis
    proof (cases "map_of ?as (dl_id d)")
      case None
      with d d' ok that(2) show ?thesis by (auto simp: settle_by_def workable_def)
    next
      case (Some a)
      then have d': "d' = settle opts (db_stamp ?db) now a d" by (simp add: d' settle_by_def)
      have "dl_id d \<in> fst ` set ?as" using Some by (metis domI dom_map_of_conv_image_fst)
      then obtain b where "b \<in> set ?batch" "dl_id b = dl_id d"
        using answers_keys[OF len] by (metis imageE list.set_map)
      moreover have "d = b"
        using calculation due_batch_mem ok d distinct_map_unique unfolding workable_def by metis
      ultimately have "int4 (dl_attempts d + 1)"
        using ok d due_batch_mem[of b] by (auto simp: workable_def is_due_waiting)
      then show ?thesis
        using settle_waiting[OF that(2)[unfolded d']] small by (simp add: d' int4_def)
    qed
  qed
  have w: "workable (ws_db s')"
    using keys fit st event_cores_kept(2)[OF evs] ok by (auto simp: workable_def)
  have "budget opts (ws_db s') + length ?batch \<le> budget opts ?db"
    unfolding budget_def rows
    using ok due_batch_mem answers_keys[OF len]
    by (intro sum_settle) (auto simp: workable_def due_batch_distinct is_due_waiting)
  moreover have "d' \<in> set (db_deliveries ?db)
      \<or> (\<exists>a. dl_next_retry_at d' = Some (db_stamp ?db (now + backoff opts a)))"
    if "d' \<in> set (db_deliveries (ws_db s'))" "waiting d'" for d'
    using that cases settle_waiting(3) by (force simp: rows)
  ultimately show ?thesis using that run w st(1) log len by simp
qed

lemma run_ticks_steps:
  assumes "workable (ws_db s)" and "op_max_attempt opts \<le> 2147483647"
  shows "length (ws_log (run_ticks opts sink ticks s)) + budget opts (ws_db (run_ticks opts sink ticks s))
    \<le> length (ws_log s) + budget opts (ws_db s)"
  using assms
proof (induction ticks arbitrary: s)
  case (Cons now ticks)
  obtain s' where "process_once opts sink now s = (Inr (), s')" and "workable (ws_db s')"
    and "length (ws_log s') = length (ws_log s) + length (due_batch opts now (ws_db s))"
    and "budget opts (ws_db s') + length (due_batch opts now (ws_db s)) \<le> budget opts (ws_db s)"
    using pass_step[OF Cons.prems, of sink now] by blast
  with Cons.IH[of s'] Cons.prems(2) show ?case by simp
qed simp

text \<open>C27. Bounded retries: over any number of passes at any times, and whatever the sink answers, it is
  asked at most as often as the waiting deliveries have attempts left, a delivery with n attempts
  behind it counting for the maximum less n, and for one at least.\<close>

theorem attempts_bounded:
  assumes "workable (ws_db s)" and "op_max_attempt opts \<le> 2147483647"
  shows "length (ws_log (run_ticks opts sink ticks s)) - length (ws_log s) \<le> budget opts (ws_db s)"
  using run_ticks_steps[OF assms, of sink ticks] by simp

theorem attempts_bounded_witness:
  "length (ws_log (run_ticks default_options (\<lambda>_ _ _. Some ''broken'') [0, 0, hour, hour, hour] sample_worker)) \<le> 2"
proof -
  have "budget default_options (ws_db sample_worker) = 2"
    by (simp add: budget_def sample_worker_facts weight_def default_options_def)
  then show ?thesis
    using attempts_bounded[OF sample_worker_facts(1), of default_options "\<lambda>_ _ _. Some ''broken''"
        "[0, 0, hour, hour, hour]"]
    by (simp add: default_options_def sample_worker_facts)
qed

section \<open>Every delivery is settled\<close>

lemma budget_pos: "d \<in> set (db_deliveries db) \<Longrightarrow> waiting d \<Longrightarrow> 0 < budget opts db"
proof -
  assume d: "d \<in> set (db_deliveries db)" "waiting d"
  then have "weight opts d \<le> budget opts db"
    unfolding budget_def by (intro member_le_sum_list) auto
  with d(2) show ?thesis by (simp add: weight_def)
qed

lemma settled_in_time:
  assumes "workable (ws_db s)" and small: "op_max_attempt opts \<le> 2147483647"
    and base: "0 < op_base_delay opts" "2 * op_base_delay opts \<le> max_int64"
    and st: "mono (db_stamp (ws_db s))"
    and "\<And>d. d \<in> set (db_deliveries (ws_db s)) \<Longrightarrow> waiting d \<Longrightarrow>
      the (dl_next_retry_at d) \<le> db_stamp (ws_db s) start"
    and "\<forall>t \<in> set ticks. start \<le> t"
    and "sorted_wrt (\<lambda>a b. a + max minute (op_base_delay opts) \<le> b) ticks"
    and "budget opts (ws_db s) \<le> length ticks"
  shows "\<forall>d \<in> set (db_deliveries (ws_db (run_ticks opts sink ticks s))). \<not> waiting d"
  using assms(1,5-)
proof (induction ticks arbitrary: s start)
  case Nil
  then show ?case using budget_pos[of _ "ws_db s" opts] by fastforce
next
  case (Cons now ticks)
  let ?db = "ws_db s" and ?wait = "max minute (op_base_delay opts)"
  obtain s' where run: "process_once opts sink now s = (Inr (), s')" and ok: "workable (ws_db s')"
    and st': "db_stamp (ws_db s') = db_stamp ?db"
    and less: "budget opts (ws_db s') + length (due_batch opts now ?db) \<le> budget opts ?db"
    and left: "\<And>d'. d' \<in> set (db_deliveries (ws_db s')) \<Longrightarrow> waiting d' \<Longrightarrow>
      d' \<in> set (db_deliveries ?db) \<or> (\<exists>a. dl_next_retry_at d' = Some (db_stamp ?db (now + backoff opts a)))"
    using pass_step[OF Cons.prems(1) small, of sink now] by metis
  have reach: "db_stamp ?db t \<le> db_stamp ?db (now + ?wait)" if "t \<le> now + ?wait" for t
    using Cons.prems(2) that by (rule monoD)
  have now: "start \<le> now" using Cons.prems(4) by simp
  have "0 < ?wait" by (simp add: minute_def second_def less_max_iff_disj)
  have next_due: "the (dl_next_retry_at d') \<le> db_stamp (ws_db s') (now + ?wait)"
    if d': "d' \<in> set (db_deliveries (ws_db s'))" "waiting d'" for d'
    using left[OF d']
  proof
    assume "d' \<in> set (db_deliveries ?db)"
    with Cons.prems(3) d'(2) have "the (dl_next_retry_at d') \<le> db_stamp ?db start" by blast
    also have "\<dots> \<le> db_stamp ?db (now + ?wait)" using now \<open>0 < ?wait\<close> by (intro reach) simp
    finally show ?thesis by (simp add: st')
  next
    assume "\<exists>a. dl_next_retry_at d' = Some (db_stamp ?db (now + backoff opts a))"
    then obtain a where "dl_next_retry_at d' = Some (db_stamp ?db (now + backoff opts a))" by blast
    moreover have "backoff opts a \<le> ?wait" using backoff_bounds[OF base] by simp
    ultimately show ?thesis using reach[of "now + backoff opts a"] by (simp add: st')
  qed
  have fewer: "budget opts (ws_db s') \<le> length ticks"
  proof (cases "\<exists>d \<in> set (db_deliveries ?db). waiting d")
    case True
    then obtain d where d: "d \<in> set (db_deliveries ?db)" "waiting d" by blast
    then have "the (dl_next_retry_at d) \<le> db_stamp ?db start" by (rule Cons.prems(3))
    also have "\<dots> \<le> db_stamp ?db now" using Cons.prems(2) now by (rule monoD)
    finally have "is_due (db_stamp ?db) now d"
      using d Cons.prems(1) by (auto simp: is_due_waiting workable_def)
    with d(1) have "due_batch opts now ?db \<noteq> []" by (rule due_batch_nonempty)
    then have "1 \<le> length (due_batch opts now ?db)" by (cases "due_batch opts now ?db") simp_all
    moreover have "budget opts ?db \<le> 1 + length ticks" using Cons.prems(6) by simp
    ultimately show ?thesis using less by linarith
  next
    case False
    then have "map (weight opts) (db_deliveries ?db) = map (\<lambda>_. 0) (db_deliveries ?db)"
      by (auto simp: weight_def)
    then have "budget opts ?db = 0" unfolding budget_def by (simp only: sum_list_0)
    with less show ?thesis by simp
  qed
  have "mono (db_stamp (ws_db s'))" using Cons.prems(2) by (simp add: st')
  moreover have "\<forall>t \<in> set ticks. now + ?wait \<le> t" "sorted_wrt (\<lambda>a b. a + ?wait \<le> b) ticks"
    using Cons.prems(5) by simp_all
  ultimately have "\<forall>d \<in> set (db_deliveries (ws_db (run_ticks opts sink ticks s'))). \<not> waiting d"
    using Cons.IH[OF ok _ next_due] fewer by blast
  then show ?case by (simp add: run)
qed

text \<open>C28. Liveness: if the passes are at least a minute (and a base delay) apart, start when the waiting
  deliveries are due, and are as many as there are attempts left, then no delivery is left waiting:
  each is dispatched or dead, whatever the sink answers and however small the batches are.\<close>

theorem deliveries_settle:
  assumes "workable (ws_db s)" and "op_max_attempt opts \<le> 2147483647"
    and "0 < op_base_delay opts" "2 * op_base_delay opts \<le> max_int64"
    and "mono (db_stamp (ws_db s))"
    and "\<And>d. d \<in> set (db_deliveries (ws_db s)) \<Longrightarrow> waiting d \<Longrightarrow>
      the (dl_next_retry_at d) \<le> db_stamp (ws_db s) start"
    and "\<forall>t \<in> set ticks. start \<le> t"
    and "sorted_wrt (\<lambda>a b. a + max minute (op_base_delay opts) \<le> b) ticks"
    and "budget opts (ws_db s) \<le> length ticks"
  shows "\<forall>d \<in> set (db_deliveries (ws_db (run_ticks opts sink ticks s))).
    dl_status d = DeliveryDispatched \<or> dl_status d = DeliveryDead"
proof -
  have "dl_status d = DeliveryDispatched \<or> dl_status d = DeliveryDead" if "\<not> waiting d" for d
    using that by (cases "dl_status d") (auto simp: waiting_def)
  then show ?thesis using settled_in_time[OF assms, of sink] by blast
qed

theorem deliveries_settle_witness:
  "list_all (\<lambda>d. dl_status d = DeliveryDispatched \<or> dl_status d = DeliveryDead)
    (db_deliveries (ws_db (run_ticks default_options (\<lambda>_ _ _. Some ''broken'') [0, hour] sample_worker)))"
  unfolding list_all_iff
proof (rule deliveries_settle[OF sample_worker_facts(1)])
  show "budget default_options (ws_db sample_worker) \<le> length [0, hour]"
    by (simp add: budget_def sample_worker_facts weight_def default_options_def)
  show "sorted_wrt (\<lambda>a b. a + max minute (op_base_delay default_options) \<le> b) [0, hour]"
    by (simp add: default_options_def duration_defs)
  show "mono (db_stamp (ws_db sample_worker))" by (simp add: sample_worker_facts mono_def)
  show "the (dl_next_retry_at d) \<le> db_stamp (ws_db sample_worker) 0"
    if "d \<in> set (db_deliveries (ws_db sample_worker))" for d
    using that by (simp add: sample_worker_facts)
qed (simp_all add: default_options_def duration_defs max_int64_def)

end
