(* ===== verification/WorkerSafety.thy ===== *)
theory WorkerSafety
  imports WorkerFacts
begin

text \<open>
  A delivery marked as dispatched was accepted by the sink, under any faults of the database: an
  invariant of the worker, proved over its statements one by one.
\<close>

text \<open>Every delivery marked as dispatched has been accepted by the sink, for its topic, rule and event.\<close>

definition accounted :: "worker_state \<Rightarrow> bool" where
  "accounted s \<longleftrightarrow> (\<forall>d \<in> set (db_deliveries (ws_db s)). dl_status d = DeliveryDispatched \<longrightarrow>
     (\<exists>p. (dl_topic d, p, None) \<in> set (ws_log s) \<and> pl_rule_id p = dl_rule_id d \<and> pl_event_id p = dl_event_id d))"

text \<open>The invariant inside a pass: the deliveries still to be handled are rows of the table.\<close>

definition on_track :: "delivery list \<Rightarrow> worker_state \<Rightarrow> bool" where
  "on_track batch s \<longleftrightarrow> schema_ok (ws_db s) \<and> accounted s
     \<and> delivery_core ` set batch \<subseteq> delivery_core ` set (db_deliveries (ws_db s))"

definition track :: "delivery list \<Rightarrow> worker_state \<Rightarrow> worker_state \<Rightarrow> bool" where
  "track batch s t \<longleftrightarrow> (on_track batch s \<longrightarrow> on_track batch t)"

interpretation track: step_preorder "track batch" for batch
  by unfold_locales (simp_all add: track_def)

text \<open>A step that marks no further delivery as dispatched.\<close>

definition calm :: "database \<Rightarrow> database \<Rightarrow> bool" where
  "calm s t \<longleftrightarrow> (\<forall>d' \<in> set (db_deliveries t). dl_status d' = DeliveryDispatched \<longrightarrow>
     (\<exists>d \<in> set (db_deliveries s). dl_status d = DeliveryDispatched \<and> delivery_core d = delivery_core d'))"

interpretation calm: request_relation calm
proof unfold_locales
  show "calm s t \<Longrightarrow> calm t u \<Longrightarrow> calm s u" for s t u by (fastforce simp: calm_def)
qed (auto simp: calm_def roll_back_def; fail
  | rule keepsI, auto simp: calm_def writing_defs Let_def delivery_core_def split: if_splits)+

lemma calm_statements:
  "keeps calm (get_event_by_id i)" "keeps calm (mark_dead n e at)" "keeps calm (mark_failed n k e at)"
  "keeps calm (update_event_status i st)" "keeps calm (list_due_deliveries at l)"
  by (rule keepsI, auto simp: calm_def get_event_by_id_def mark_dead_def mark_failed_def
      update_event_status_def list_due_deliveries_def Let_def delivery_core_def
      dest!: in_update_rowsD split: if_splits)+

lemma trackI:
  assumes "schema_step (ws_db s) (ws_db t)" and "history (ws_db s) (ws_db t)"
    and "calm (ws_db s) (ws_db t)" and "set (ws_log s) \<subseteq> set (ws_log t)"
  shows "track batch s t"
  unfolding track_def
proof
  assume on: "on_track batch s"
  have "prefix (map delivery_core (db_deliveries (ws_db s))) (map delivery_core (db_deliveries (ws_db t)))"
    using assms(2) by (simp add: history_def)
  then have "delivery_core ` set (db_deliveries (ws_db s)) \<subseteq> delivery_core ` set (db_deliveries (ws_db t))"
    using set_mono_prefix by fastforce
  moreover have "accounted t"
    unfolding accounted_def
  proof (intro ballI impI)
    fix d' assume "d' \<in> set (db_deliveries (ws_db t))" "dl_status d' = DeliveryDispatched"
    then obtain d where d: "d \<in> set (db_deliveries (ws_db s))" "dl_status d = DeliveryDispatched"
      and core: "delivery_core d = delivery_core d'" using assms(3) by (auto simp: calm_def)
    then obtain p where "(dl_topic d, p, None) \<in> set (ws_log s)" "pl_rule_id p = dl_rule_id d"
      "pl_event_id p = dl_event_id d" using on by (auto simp: on_track_def accounted_def)
    with core assms(4) show "\<exists>p. (dl_topic d', p, None) \<in> set (ws_log t) \<and> pl_rule_id p = dl_rule_id d'
        \<and> pl_event_id p = dl_event_id d'" by (auto simp: delivery_core_def)
  qed
  moreover have "delivery_core ` set batch \<subseteq> delivery_core ` set (db_deliveries (ws_db s))"
    using on by (simp add: on_track_def)
  ultimately show "on_track batch t"
    using on assms(1) unfolding on_track_def schema_step_def by (meson subset_trans)
qed

lemma track_store_call:
  assumes "keeps schema_step st" and "keeps history st" and "keeps calm st"
  shows "keeps (track batch) (store_call st)"
proof (rule keepsI)
  fix s r t assume "store_call st s = (r, t)"
  then obtain d where run: "exec st (ws_db s) = (r, d)" and t: "t = s\<lparr>ws_db := d\<rparr>"
    by (auto simp: store_call_def Let_def split: prod.splits)
  show "track batch s t"
    using keepsD[OF schema.keeps_exec[OF assms(1)] run] keepsD[OF history.keeps_exec[OF assms(2)] run]
      keepsD[OF calm.keeps_exec[OF assms(3)] run]
    by (intro trackI) (simp_all add: t)
qed

lemma track_calls:
  "keeps (track batch) (store_call (get_event_by_id i))" "keeps (track batch) (store_call (mark_dead n e at))"
  "keeps (track batch) (store_call (mark_failed n k e at))"
  "keeps (track batch) (store_call (update_event_status i st))"
  by (intro track_store_call schema.keeps_work history.keeps_work calm_statements)+

lemma track_send: "keeps (track batch) (send sink topic p)"
  by (rule keepsI, rule trackI)
     (auto simp: send_def Let_def schema.R_refl history.R_refl calm.R_refl)

lemma track_handle_failure: "keeps (track batch) (handle_failure opts d ev now err)"
  unfolding handle_failure_def Let_def by (auto intro!: track.keeps_rules track_calls)

text \<open>Marking a delivery of the batch as delivered, once the sink has accepted it.\<close>

lemma track_delivered:
  assumes on: "on_track batch s" and d: "d \<in> set batch"
    and sent: "(dl_topic d, p, None) \<in> set (ws_log s)" "pl_rule_id p = dl_rule_id d" "pl_event_id p = dl_event_id d"
    and run: "store_call (mark_delivered (dl_id d) now) s = (r, t)"
  shows "on_track batch t"
proof -
  obtain db where e: "exec (mark_delivered (dl_id d) now) (ws_db s) = (r, db)" and t: "t = s\<lparr>ws_db := db\<rparr>"
    using run by (auto simp: store_call_def Let_def split: prod.splits)
  have step: "schema_step (ws_db s) db" "history (ws_db s) db"
    using keepsD[OF schema.keeps_exec[OF schema.keeps_mark_delivered] e]
      keepsD[OF history.keeps_exec[OF history.keeps_mark_delivered] e] by simp_all
  have rows: "db_deliveries db = db_deliveries (ws_db s) \<or> (\<exists>f. db_deliveries db
      = update_rows dl_id (dl_id d) f (db_deliveries (ws_db s)) \<and> (\<forall>r. delivery_core (f r) = delivery_core r))"
    using e by (auto simp: exec_def mark_delivered_def Let_def delivery_core_def
        split: list.splits option.splits fault.splits if_splits intro!: exI)
  have uniq: "distinct (map dl_id (db_deliveries (ws_db s)))"
    using on by (simp add: on_track_def schema_defs serial_ok_def)
  have known: "delivery_core r = delivery_core d"
    if "r \<in> set (db_deliveries (ws_db s))" "dl_id r = dl_id d" for r
  proof -
    obtain r0 where "r0 \<in> set (db_deliveries (ws_db s))" "delivery_core r0 = delivery_core d"
      using on d by (auto simp: on_track_def)
    moreover from this have "r0 = r"
      using distinct_map_unique[OF uniq, of r0 r] that by (simp add: delivery_core_def)
    ultimately show ?thesis by simp
  qed
  have "accounted t"
    unfolding accounted_def
  proof (intro ballI impI)
    fix d' assume d': "d' \<in> set (db_deliveries (ws_db t))" "dl_status d' = DeliveryDispatched"
    have "delivery_core d' = delivery_core d \<or> d' \<in> set (db_deliveries (ws_db s))"
      using rows d'(1) known by (auto simp: t dest!: in_update_rowsD)
    then show "\<exists>p. (dl_topic d', p, None) \<in> set (ws_log t) \<and> pl_rule_id p = dl_rule_id d'
        \<and> pl_event_id p = dl_event_id d'"
    proof
      assume "delivery_core d' = delivery_core d"
      with sent show ?thesis by (auto simp: delivery_core_def t)
    next
      assume "d' \<in> set (db_deliveries (ws_db s))"
      with on d'(2) show ?thesis by (auto simp: on_track_def accounted_def t)
    qed
  qed
  moreover have "delivery_core ` set (db_deliveries (ws_db s)) \<subseteq> delivery_core ` set (db_deliveries db)"
    using rows by (auto simp: image_update_rows)
  moreover have "delivery_core ` set batch \<subseteq> delivery_core ` set (db_deliveries (ws_db s))"
    using on by (simp add: on_track_def)
  ultimately show ?thesis
    using on step(1) by (simp add: on_track_def schema_step_def t)
qed

lemma store_call_event:
  assumes "store_call (get_event_by_id i) s = (Inr (Some ev), t)"
  shows "ev_event_id ev = i"
proof -
  obtain d where "exec (get_event_by_id i) (ws_db s) = (Inr (Some ev), d)"
    using assms by (auto simp: store_call_def Let_def split: prod.splits)
  from exec_Inr[OF this] show ?thesis
    by (auto simp: get_event_by_id_def dest: events.lookup_SomeD)
qed

lemma track_dispatch_one:
  assumes d: "d \<in> set batch"
  shows "keeps (track batch) (dispatch_one opts sink now d)"
proof (rule keepsI)
  fix s r t assume run: "dispatch_one opts sink now d s = (r, t)"
  obtain o' s1 where g: "store_call (get_event_by_id (dl_event_id d)) s = (o', s1)" by fastforce
  have s1: "track batch s s1" by (rule keepsD[OF track_calls(1) g])
  show "track batch s t"
  proof (cases "\<exists>ev. o' = Inr (Some ev) \<and> marshals ev")
    case False
    have "t = s1 \<or> store_call (mark_dead (dl_id d) ''event not found'' now) s1 = (r, t)"
      using run g False by (auto simp: dispatch_one_def andThen_def fail_def split: sum.splits option.splits if_splits)
    then have "track batch s1 t" using keepsD[OF track_calls(2)] track.R_refl by blast
    with s1 show ?thesis by (rule track.R_trans)
  next
    case True
    then obtain ev where ev: "o' = Inr (Some ev)" "marshals ev" by blast
    have id: "ev_event_id ev = dl_event_id d" using store_call_event g ev(1) by blast
    let ?p = "payload_of ev d" and ?a = "sink (ws_log s1) (dl_topic d) (payload_of ev d)"
    let ?s2 = "s1\<lparr>ws_log := ws_log s1 @ [(dl_topic d, ?p, ?a)]\<rparr>"
    have "send sink (dl_topic d) ?p s1 = (Inr ?a, ?s2)" by (simp add: send_def Let_def)
    then have s2: "track batch s1 ?s2" by (rule keepsD[OF track_send])
    have rest: "(case ?a of Some err \<Rightarrow> handle_failure opts d ev now err ?s2
      | None \<Rightarrow> andThen (store_call (mark_delivered (dl_id d) now)) (\<lambda>_.
          store_call (update_event_status (ev_event_id ev) EventDispatched)) ?s2) = (r, t)"
      using run g ev by (auto simp: dispatch_one_def andThen_def send_def Let_def split: option.splits)
    have "track batch ?s2 t"
    proof (cases ?a)
      case (Some err)
      then show ?thesis using rest keepsD[OF track_handle_failure, of opts d ev now err ?s2 r t] by simp
    next
      case None
      obtain r3 s3 where m: "store_call (mark_delivered (dl_id d) now) ?s2 = (r3, s3)" by fastforce
      have "track batch ?s2 s3"
        unfolding track_def
        using track_delivered[OF _ d _ _ _ m, of ?p] None id by (auto simp: payload_of_def)
      moreover have "t = s3 \<or> store_call (update_event_status (ev_event_id ev) EventDispatched) s3 = (r, t)"
        using rest None m by (auto simp: andThen_def split: sum.splits)
      then have "track batch s3 t" using keepsD[OF track_calls(4)] track.R_refl by blast
      ultimately show ?thesis by (rule track.R_trans)
    qed
    with s1 s2 show ?thesis by (blast intro: track.R_trans)
  qed
qed

lemma process_once_accounted:
  assumes "schema_ok (ws_db s)" and "accounted s" and run: "process_once opts sink now s = (r, t)"
  shows "schema_ok (ws_db t) \<and> accounted t"
proof -
  obtain o' s1 where l: "store_call (list_due_deliveries now (op_batch opts)) s = (o', s1)" by fastforce
  have "track [] s s1"
    using keepsD[OF track_store_call l] calm_statements(5)
    by (metis keeps_def reads_only_def reading_statements(11) schema.keeps_reads history.keeps_reads)
  then have s1: "on_track [] s1" using assms by (simp add: track_def on_track_def)
  show ?thesis
  proof (cases o')
    case (Inl e)
    with run l s1 show ?thesis by (simp add: process_once_def andThen_def on_track_def)
  next
    case (Inr batch)
    have "set batch \<subseteq> set (db_deliveries (ws_db s1))"
    proof -
      obtain d where e: "exec (list_due_deliveries now (op_batch opts)) (ws_db s) = (Inr batch, d)"
        and "s1 = s\<lparr>ws_db := d\<rparr>"
        using l Inr by (auto simp: store_call_def Let_def split: prod.splits)
      with exec_Inr[OF e] show ?thesis
        by (auto simp: list_due_deliveries_def Let_def dest!: in_set_takeD)
    qed
    with s1 have on: "on_track batch s1" by (auto simp: on_track_def)
    have each: "for_each (dispatch_one opts sink now) batch s1 = (r, t)"
      using run l Inr by (simp add: process_once_def andThen_def)
    have "keeps (track batch) (for_each (dispatch_one opts sink now) batch)"
      by (rule track.keeps_for_each) (rule track_dispatch_one)
    then have "track batch s1 t" using each by (rule keepsD)
    with on show ?thesis by (simp add: track_def on_track_def)
  qed
qed

text \<open>Safety under faults: whatever statements fail in a pass, before or after taking effect, and
  whatever the sink answers, a delivery is marked as dispatched only if the sink has accepted a
  payload for its topic, its rule and its event.\<close>

theorem dispatched_was_accepted:
  assumes "schema_ok (ws_db s)" and "accounted s"
  shows "accounted (run_ticks opts sink ticks s)"
proof -
  have "schema_ok (ws_db (run_ticks opts sink ticks s)) \<and> accounted (run_ticks opts sink ticks s)"
    using assms
  proof (induction ticks arbitrary: s)
    case (Cons now ticks)
    obtain r t where run: "process_once opts sink now s = (r, t)" by fastforce
    with Cons.IH[of t] process_once_accounted[OF Cons.prems run] show ?case by simp
  qed simp
  then show ?thesis ..
qed

theorem dispatched_was_accepted_witness:
  "accounted (run_ticks default_options log_sink [0, 5]
     (sample_worker\<lparr>ws_db := (ws_db sample_worker)\<lparr>db_plan := [None, None, Some (FailAfter (Refused ''timeout''))]\<rparr>\<rparr>))"
proof (rule dispatched_was_accepted)
  let ?s = "sample_worker\<lparr>ws_db := (ws_db sample_worker)\<lparr>db_plan := [None, None, Some (FailAfter (Refused ''timeout''))]\<rparr>\<rparr>"
  show "schema_ok (ws_db ?s)"
    by (simp add: schema_defs serial_ok_def sample_worker_def sample_db_def empty_database_def
        sample_delivery_def sample_event_def sample_rule_def sample_device_def int4_def)
  show "accounted ?s"
    by (simp add: accounted_def sample_worker_def sample_delivery_def)
qed

end
