(* ===== verification/Server.thy ===== *)
theory Server
  imports Config Metrics HttpErrors WorkerSafety
begin

text \<open>
  \<^verbatim>\<open>cmd/server\<close>: the wiring of the process, the instruments around the HTTP handler and the sink, and
  the process as a transition system of requests, steps of the background worker and faults of the
  database.  Requests are served one at a time; between two deliveries of a pass of the worker any
  number of requests may be served.
\<close>

section \<open>Instruments\<close>

definition in_flight_name :: string where
  "in_flight_name = ''telemetry_http_in_flight''"

definition duration_name :: string where
  "duration_name = ''telemetry_http_duration_seconds''"

definition dispatch_name :: string where
  "dispatch_name = ''telemetry_dispatch_total''"

definition boot_registry :: registry where
  "boot_registry = new_counter dispatch_name ''Total topic dispatch attempts.'' [''outcome'']
     (new_default_histogram duration_name ''HTTP request latency.''
       (new_gauge in_flight_name ''In-flight HTTP requests.'' [] new_registry))"

text \<open>A pointer to an instrument is the entry of the registry under its name.\<close>

definition on_counter :: "string \<Rightarrow> (counter \<Rightarrow> counter) \<Rightarrow> registry \<Rightarrow> registry" where
  "on_counter n f r = (case map_of (rg_counters r) n of None \<Rightarrow> r
     | Some c \<Rightarrow> r\<lparr>rg_counters := put n (f c) (rg_counters r)\<rparr>)"

definition on_gauge :: "string \<Rightarrow> (gauge \<Rightarrow> gauge) \<Rightarrow> registry \<Rightarrow> registry" where
  "on_gauge n f r = (case map_of (rg_gauges r) n of None \<Rightarrow> r
     | Some g \<Rightarrow> r\<lparr>rg_gauges := put n (f g) (rg_gauges r)\<rparr>)"

definition on_histogram :: "string \<Rightarrow> (histogram \<Rightarrow> histogram option) \<Rightarrow> registry \<Rightarrow> registry option" where
  "on_histogram n f r = (case map_of (rg_histograms r) n of None \<Rightarrow> Some r
     | Some h \<Rightarrow> map_option (\<lambda>h'. r\<lparr>rg_histograms := put n h' (rg_histograms r)\<rparr>) (f h))"

text \<open>\<^verbatim>\<open>time.Duration.Seconds\<close>: the whole seconds and the rest are converted apart.\<close>

definition seconds :: "duration \<Rightarrow> float64" where
  "seconds d = (let sec = sgn d * (\<bar>d\<bar> div second) in
     fadd (of_int64 sec) (fdiv (of_int64 (d - sec * second)) (of_int64 1000000000)))"

text \<open>The sink of the process: only a successful dispatch is counted.\<close>

definition counting_sink :: "string option \<Rightarrow> registry \<Rightarrow> registry" where
  "counting_sink answer r = (case answer of Some err \<Rightarrow> r | None \<Rightarrow> on_counter dispatch_name counter_inc r)"

section \<open>State and wiring\<close>

record app =
  ap_server :: server
  ap_worker :: "options option"
  ap_sink :: sink
  ap_port :: string
  ap_shutdown :: duration

text \<open>A pass of the worker that has begun: its time and the deliveries it has still to handle.\<close>

record system =
  sy_world :: world
  sy_log :: "attempt list"
  sy_registry :: registry
  sy_pass :: "(instant \<times> delivery list) option"

datatype wire_error = ConfigError string | DatabaseError string | KeyError pair_error

text \<open>
  \<^verbatim>\<open>run\<close> up to the start of the server.  Opening the database, the ping and the migrations are a
  parameter: an error, or the database they leave.
\<close>

definition wire_auth :: "string \<Rightarrow> wire_error + auth option" where
  "wire_auth spec = (if spec = [] then Inr None
     else (case parse_key_pairs spec of Inl e \<Rightarrow> Inl (KeyError e) | Inr keys \<Rightarrow> Inr (Some (new_auth keys True))))"

definition wire :: "environment \<Rightarrow> (string \<Rightarrow> string + database) \<Rightarrow> wire_error + app \<times> system" where
  "wire env connect = (case load env of
     Inl e \<Rightarrow> Inl (ConfigError e)
   | Inr cfg \<Rightarrow> (case connect (cf_database_url cfg) of
       Inl e \<Rightarrow> Inl (DatabaseError e)
     | Inr db \<Rightarrow> (case wire_auth (cf_api_keys cfg) of
         Inl e \<Rightarrow> Inl e
       | Inr a \<Rightarrow> Inr
           (\<lparr>ap_server = \<lparr>sv_window = cf_window cfg, sv_auth = a, sv_metrics = Some [], sv_static = env ''STATIC_DIR''\<rparr>,
             ap_worker = (if wc_enabled (cf_worker cfg) then Some (configured_options (cf_worker cfg)) else None),
             ap_sink = log_sink, ap_port = CHR '':'' # cf_port cfg, ap_shutdown = cf_shutdown cfg\<rparr>,
            \<lparr>sy_world = \<lparr>w_db = db, w_errors = initial_error\<rparr>, sy_log = [], sy_registry = boot_registry,
             sy_pass = None\<rparr>))))"

section \<open>Requests\<close>

text \<open>
  \<^verbatim>\<open>instrumentHandler\<close> around the handler tree.  The metrics are rendered while the request is in
  flight; \<^term>\<open>None\<close> is a panic of the deferred observation.
\<close>

definition serve_request ::
  "app \<Rightarrow> env \<Rightarrow> duration \<Rightarrow> request \<Rightarrow> system \<Rightarrow> (response \<times> system) option" where
  "serve_request app env elapsed rq s =
     (let r1 = on_gauge in_flight_name gauge_inc (sy_registry s);
          (rs, w) = serve ((ap_server app)\<lparr>sv_metrics := Some (render r1)\<rparr>) env rq (sy_world s);
          r2 = on_gauge in_flight_name (gauge_add (fneg (of_natural 1))) r1 in
      map_option (\<lambda>r3. (rs, s\<lparr>sy_world := w, sy_registry := r3\<rparr>))
        (on_histogram duration_name (observe (seconds elapsed)) r2))"

section \<open>The worker, one delivery at a time\<close>

definition job_state :: "system \<Rightarrow> worker_state" where
  "job_state s = \<lparr>ws_db = w_db (sy_world s), ws_log = sy_log s\<rparr>"

text \<open>The effect of a job on the process: the dispatches it made have gone through the counting sink.\<close>

definition after_job :: "system \<Rightarrow> worker_state \<Rightarrow> system" where
  "after_job s t = s\<lparr>sy_world := (sy_world s)\<lparr>w_db := ws_db t\<rparr>, sy_log := ws_log t,
     sy_registry := fold (\<lambda>(_, _, answer). counting_sink answer) (drop (length (sy_log s)) (ws_log t)) (sy_registry s)\<rparr>"

definition run_job :: "'a job \<Rightarrow> system \<Rightarrow> (db_error + 'a) \<times> system" where
  "run_job m s = (let (r, t) = m (job_state s) in (r, after_job s t))"

definition worker_step :: "app \<Rightarrow> instant \<Rightarrow> system \<Rightarrow> system" where
  "worker_step app now s = (case ap_worker app of None \<Rightarrow> s | Some opts \<Rightarrow>
     (case sy_pass s of
        None \<Rightarrow> (case run_job (store_call (list_due_deliveries now (op_batch opts))) s of
            (Inl _, t) \<Rightarrow> t
          | (Inr due, t) \<Rightarrow> t\<lparr>sy_pass := Some (now, due)\<rparr>)
      | Some (at, []) \<Rightarrow> s\<lparr>sy_pass := None\<rparr>
      | Some (at, d # due) \<Rightarrow> (case run_job (dispatch_one opts (ap_sink app) at d) s of
            (Inl _, t) \<Rightarrow> t\<lparr>sy_pass := None\<rparr>
          | (Inr _, t) \<Rightarrow> t\<lparr>sy_pass := Some (at, due)\<rparr>)))"

section \<open>Steps of the process\<close>

inductive step :: "app \<Rightarrow> system \<Rightarrow> system \<Rightarrow> bool" for app where
  Request: "serve_request app env elapsed rq s = Some (rs, t) \<Longrightarrow> step app s t"
| Work: "step app s (worker_step app now s)"
| Faults: "step app s (s\<lparr>sy_world := (sy_world s)\<lparr>w_db := (w_db (sy_world s))\<lparr>db_plan := plan\<rparr>\<rparr>\<rparr>)"

inductive_cases stepE: "step app s t"

definition reaches :: "app \<Rightarrow> system \<Rightarrow> system \<Rightarrow> bool" where
  "reaches app = (step app)\<^sup>*\<^sup>*"

lemma reaches_refl: "reaches app s s"
  by (simp add: reaches_def)

lemma reaches_step: "reaches app s t \<Longrightarrow> step app t u \<Longrightarrow> reaches app s u"
  by (simp add: reaches_def rtranclp.rtrancl_into_rtrancl)

text \<open>An invariant is shown for the three kinds of steps; a pass is one of them.\<close>

lemma reaches_invariant:
  assumes "reaches app s t" and "I s"
    and "\<And>env elapsed rq s rs t. I s \<Longrightarrow> serve_request app env elapsed rq s = Some (rs, t) \<Longrightarrow> I t"
    and "\<And>now s. I s \<Longrightarrow> I (worker_step app now s)"
    and "\<And>plan s. I s \<Longrightarrow> I (s\<lparr>sy_world := (sy_world s)\<lparr>w_db := (w_db (sy_world s))\<lparr>db_plan := plan\<rparr>\<rparr>\<rparr>)"
  shows "I t"
  using assms(1) unfolding reaches_def
proof (induction rule: rtranclp_induct)
  case base
  show ?case by (rule assms(2))
next
  case (step t u)
  from step.hyps(2) show ?case
    by (cases rule: stepE) (use step.IH assms(3-5) in blast)+
qed

end
