(* ===== verification/Tasks.thy ===== *)
theory Tasks
  imports Server
begin

text \<open>
  Computations cut into the steps other goroutines can run between: a task is finished, or one atomic
  step on the shared state that leaves the rest of the computation.  Run alone, a task is a state
  transformer; run among others, it is reasoned about by what it relies on and guarantees.
\<close>

section \<open>Tasks\<close>

datatype ('s, 'a) task = Done 'a | Atomic "'s \<Rightarrow> ('s, 'a) task \<times> 's"

primrec bind_task :: "('s, 'a) task \<Rightarrow> ('a \<Rightarrow> ('s, 'b) task) \<Rightarrow> ('s, 'b) task" where
  "bind_task (Done x) f = f x"
| "bind_task (Atomic g) f = Atomic (map_prod (\<lambda>t. bind_task t f) id \<circ> g)"

text \<open>One atomic step.\<close>

definition once :: "('s \<Rightarrow> 'a \<times> 's) \<Rightarrow> ('s, 'a) task" where
  "once m = Atomic (\<lambda>s. let (r, t) = m s in (Done r, t))"

text \<open>The whole task, without interruption.\<close>

primrec alone :: "('s, 'a) task \<Rightarrow> 's \<Rightarrow> 'a \<times> 's" where
  "alone (Done x) = (\<lambda>s. (x, s))"
| "alone (Atomic g) = (\<lambda>s. case (map_prod alone id \<circ> g) s of (k, t) \<Rightarrow> k t)"

lemma alone_Atomic: "alone (Atomic g) s = alone (fst (g s)) (snd (g s))"
  by (simp add: case_prod_beta)

lemma alone_once [simp]: "alone (once m) s = m s"
  by (simp add: once_def alone_Atomic case_prod_beta)

lemma alone_bind: "alone (bind_task t f) s = (case alone t s of (x, s') \<Rightarrow> alone (f x) s')"
proof (induction t arbitrary: s)
  case (Atomic g)
  have "fst (g s) \<in> Basic_BNFs.fsts (g s)" by (cases "g s") simp
  then have "alone (bind_task (fst (g s)) f) (snd (g s))
    = (case alone (fst (g s)) (snd (g s)) of (x, s') \<Rightarrow> alone (f x) s')"
    by (intro Atomic) auto
  then show ?case unfolding bind_task.simps alone_Atomic by (simp add: alone_Atomic)
qed simp

section \<open>Tasks that may fail\<close>

type_synonym ('s, 'e, 'a) flow = "('s, 'e + 'a) task"

definition then_flow :: "('s, 'e, 'a) flow \<Rightarrow> ('a \<Rightarrow> ('s, 'e, 'b) flow) \<Rightarrow> ('s, 'e, 'b) flow" where
  "then_flow m f = bind_task m (\<lambda>r. case r of Inl e \<Rightarrow> Done (Inl e) | Inr x \<Rightarrow> f x)"

fun each_flow :: "('x \<Rightarrow> ('s, 'e, 'a) flow) \<Rightarrow> 'x list \<Rightarrow> ('s, 'e, unit) flow" where
  "each_flow f [] = Done (Inr ())"
| "each_flow f (x # xs) = then_flow (f x) (\<lambda>_. each_flow f xs)"

section \<open>Tasks that run as a given action\<close>

text \<open>
  The state of the process has parts, each with its own actions.  A task is the interruptible form of
  an action if it does the same when it is run alone.
\<close>

definition through :: "('c \<Rightarrow> 's) \<Rightarrow> ('s \<Rightarrow> 'c \<Rightarrow> 'c) \<Rightarrow> ('s \<Rightarrow> 'r \<times> 's) \<Rightarrow> 'c \<Rightarrow> 'r \<times> 'c" where
  "through part upd m c = (let (r, s) = m (part c) in (r, upd s c))"

definition runs :: "('c \<Rightarrow> 's) \<Rightarrow> ('s \<Rightarrow> 'c \<Rightarrow> 'c) \<Rightarrow> ('c, 'r) task \<Rightarrow> ('s \<Rightarrow> 'r \<times> 's) \<Rightarrow> bool" where
  "runs part upd t m \<longleftrightarrow> (\<forall>c. alone t c = through part upd m c)"

locale part_of =
  fixes part :: "'c \<Rightarrow> 's" and upd :: "'s \<Rightarrow> 'c \<Rightarrow> 'c"
  assumes part_upd: "part (upd s c) = s"
    and upd_part: "upd (part c) c = c"
    and upd_upd: "upd s (upd s' c) = upd s c"
begin

lemma runs_once: "runs part upd (once (through part upd m)) m"
  by (simp add: runs_def)

lemma runs_Done: "runs part upd (Done x) (\<lambda>s. (x, s))"
  by (simp add: runs_def through_def upd_part)

lemma runs_bind:
  assumes "runs part upd t m" and "\<And>x. runs part upd (f x) (g x)"
  shows "runs part upd (bind_task t f) (\<lambda>s. case m s of (x, s') \<Rightarrow> g x s')"
  using assms by (simp add: runs_def through_def alone_bind part_upd upd_upd split: prod.split)

lemma runs_then:
  assumes "runs part upd t m" and "\<And>x. runs part upd (f x) (g x)"
  shows "runs part upd (then_flow t f) (andThen m g)"
proof -
  have "runs part upd (then_flow t f)
    (\<lambda>s. case m s of (r, s') \<Rightarrow> (case r of Inl e \<Rightarrow> (\<lambda>s. (Inl e, s)) | Inr x \<Rightarrow> g x) s')"
    unfolding then_flow_def
    by (rule runs_bind[OF assms(1)]) (auto intro: assms(2) runs_Done split: sum.split)
  moreover have "(\<lambda>s. case m s of (r, s') \<Rightarrow> (case r of Inl e \<Rightarrow> (\<lambda>s. (Inl e, s)) | Inr x \<Rightarrow> g x) s') = andThen m g"
    by (auto simp: fun_eq_iff andThen_def split: prod.split sum.split)
  ultimately show ?thesis by simp
qed

lemma runs_ret: "runs part upd (Done (Inr x)) (ret x)"
  using runs_Done[of "Inr x"] by (simp add: runs_def through_def ret_def)

lemma runs_fail: "runs part upd (Done (Inl e)) (fail e)"
  using runs_Done[of "Inl e"] by (simp add: runs_def through_def fail_def)

lemma runs_each: "(\<And>x. runs part upd (f x) (g x)) \<Longrightarrow> runs part upd (each_flow f xs) (for_each g xs)"
  by (induction xs) (auto intro: runs_then runs_ret)

lemmas runs_rules = runs_then runs_ret runs_fail runs_each runs_once

end

section \<open>Every step of a task\<close>

text \<open>\<open>every G t\<close>: whatever state a step of the task meets, it changes it as \<open>G\<close> allows.\<close>

primrec every :: "('s \<Rightarrow> 's \<Rightarrow> bool) \<Rightarrow> ('s, 'a) task \<Rightarrow> bool" where
  "every G (Done x) = True"
| "every G (Atomic g) = (\<forall>s. G s (snd (g s)) \<and> fst ((map_prod (every G) id \<circ> g) s))"

lemma every_Atomic: "every G (Atomic g) \<longleftrightarrow> (\<forall>s. G s (snd (g s)) \<and> every G (fst (g s)))"
  by simp

lemma every_once: "(\<And>s. G s (snd (m s))) \<Longrightarrow> every G (once m)"
  by (simp add: once_def case_prod_beta)

lemma every_bind: "every G t \<Longrightarrow> (\<And>x. every G (f x)) \<Longrightarrow> every G (bind_task t f)"
proof (induction t)
  case (Atomic g)
  have "every G (bind_task (fst (g s)) f)" for s
  proof -
    have "fst (g s) \<in> Basic_BNFs.fsts (g s)" by (cases "g s") simp
    then show ?thesis using Atomic.IH[of "g s" "fst (g s)"] Atomic.prems by auto
  qed
  with Atomic.prems(1) show ?case by (simp add: every_Atomic)
qed simp

lemma every_then: "every G t \<Longrightarrow> (\<And>x. every G (f x)) \<Longrightarrow> every G (then_flow t f)"
  unfolding then_flow_def by (rule every_bind) (auto split: sum.split)

lemma every_each: "(\<And>x. every G (f x)) \<Longrightarrow> every G (each_flow f xs)"
  by (induction xs) (auto intro: every_then)

section \<open>Rely and guarantee\<close>

text \<open>
  An invariant \<open>I\<close> and a relation \<open>G\<close> that every step of every goroutine keeps.  A task is
  \<open>fit\<close> in a state if, after any steps of the others, each of its steps keeps both and leaves a
  fit task.
\<close>

definition allowed :: "('s \<Rightarrow> bool) \<Rightarrow> ('s \<Rightarrow> 's \<Rightarrow> bool) \<Rightarrow> 's \<Rightarrow> 's \<Rightarrow> bool" where
  "allowed I G s t \<longleftrightarrow> (I s \<longrightarrow> I t \<and> G s t)"

primrec fit_task :: "('s \<Rightarrow> bool) \<Rightarrow> ('s \<Rightarrow> 's \<Rightarrow> bool) \<Rightarrow> ('s, 'a) task \<Rightarrow> 's \<Rightarrow> bool" where
  "fit_task I G (Done x) = (\<lambda>s. True)"
| "fit_task I G (Atomic g) = (\<lambda>s. \<forall>u. G s u \<longrightarrow> I u \<longrightarrow> I (snd (g u)) \<and> G u (snd (g u))
     \<and> fst ((map_prod (fit_task I G) id \<circ> g) u) (snd (g u)))"

locale rely_guarantee = step_preorder G for G :: "'s \<Rightarrow> 's \<Rightarrow> bool" +
  fixes I :: "'s \<Rightarrow> bool"
begin

abbreviation fit :: "('s, 'a) task \<Rightarrow> 's \<Rightarrow> bool" where
  "fit \<equiv> fit_task I G"

lemma fit_Atomic: "fit (Atomic g) s \<longleftrightarrow>
    (\<forall>u. G s u \<longrightarrow> I u \<longrightarrow> I (snd (g u)) \<and> G u (snd (g u)) \<and> fit (fst (g u)) (snd (g u)))"
  by simp

lemma fit_stable: "fit t s \<Longrightarrow> G s u \<Longrightarrow> fit t u"
  by (cases t) (auto intro: R_trans)

lemma every_fit: "every (allowed I G) t \<Longrightarrow> fit t s"
proof (induction t arbitrary: s)
  case (Atomic g)
  have "fit (fst (g u)) v" if "I u" for u v
  proof -
    have "fst (g u) \<in> Basic_BNFs.fsts (g u)" by (cases "g u") simp
    then show ?thesis using Atomic.IH[of "g u" "fst (g u)"] Atomic.prems by auto
  qed
  with Atomic.prems show ?case by (auto simp: allowed_def)
qed simp

lemma fit_once:
  assumes "\<And>u. G s u \<Longrightarrow> I u \<Longrightarrow> I (snd (m u)) \<and> G u (snd (m u))"
  shows "fit (once m) s"
  using assms by (simp add: once_def case_prod_beta)

text \<open>A step and what follows it, which may use what the step has found out.\<close>

lemma fit_step:
  assumes "\<And>u r v. G s u \<Longrightarrow> I u \<Longrightarrow> m u = (r, v) \<Longrightarrow> I v \<and> G u v \<and> fit (f r) v"
  shows "fit (bind_task (once m) f) s"
proof -
  have "I (snd (m u)) \<and> G u (snd (m u)) \<and> fit (f (fst (m u))) (snd (m u))" if "G s u" "I u" for u
    using assms[OF that] by (metis surjective_pairing)
  then show ?thesis by (simp add: once_def case_prod_beta)
qed

lemma fit_bind:
  assumes "fit t s" and "\<And>x u. G s u \<Longrightarrow> I u \<Longrightarrow> fit (f x) u" and "I s"
  shows "fit (bind_task t f) s"
  using assms
proof (induction t arbitrary: s)
  case (Done x)
  then show ?case using R_refl by simp
next
  case (Atomic g)
  show ?case
    unfolding bind_task.simps fit_Atomic
  proof (intro allI impI)
    fix u assume u: "G s u" "I u"
    then have step: "I (snd (g u))" "G u (snd (g u))" "fit (fst (g u)) (snd (g u))"
      using Atomic.prems(1) by auto
    have "fst (g u) \<in> Basic_BNFs.fsts (g u)" by (cases "g u") simp
    then have "fit (bind_task (fst (g u)) f) (snd (g u))"
    proof (rule Atomic.IH[rotated])
      show "fit (f x) v" if "G (snd (g u)) v" "I v" for x v
        using Atomic.prems(2) that u(1) step(2) R_trans by blast
    qed (use step in auto)
    with step show "I (snd ((map_prod (\<lambda>t. bind_task t f) id \<circ> g) u)) \<and> G u (snd ((map_prod (\<lambda>t. bind_task t f) id \<circ> g) u))
      \<and> fit (fst ((map_prod (\<lambda>t. bind_task t f) id \<circ> g) u)) (snd ((map_prod (\<lambda>t. bind_task t f) id \<circ> g) u))"
      by simp
  qed
qed

end

end
