(* ===== verification/Flows.thy ===== *)
theory Flows
  imports Tasks
begin

text \<open>
  The use cases, the handlers and the pass of the worker as tasks: other requests run between any two
  statements that are not in one transaction, and between an error and the answer built from it.
  Run alone, each is the action the other theories model.
\<close>

section \<open>State\<close>

record core =
  co_world :: world
  co_log :: "attempt list"

abbreviation put_world :: "world \<Rightarrow> core \<Rightarrow> core" where
  "put_world w c \<equiv> c\<lparr>co_world := w\<rparr>"

definition job_part :: "core \<Rightarrow> worker_state" where
  "job_part c = \<lparr>ws_db = w_db (co_world c), ws_log = co_log c\<rparr>"

definition put_job :: "worker_state \<Rightarrow> core \<Rightarrow> core" where
  "put_job t c = c\<lparr>co_world := (co_world c)\<lparr>w_db := ws_db t\<rparr>, co_log := ws_log t\<rparr>"

interpretation world_part: part_of co_world put_world
  by unfold_locales simp_all

interpretation job_part: part_of job_part put_job
  by unfold_locales (simp_all add: job_part_def put_job_def)

type_synonym 'a served = "(core, svc_error, 'a) flow"

text \<open>An action of a request, and one of the worker, as one step.\<close>

definition act :: "(world \<Rightarrow> 'r \<times> world) \<Rightarrow> (core, 'r) task" where
  "act m = once (through co_world put_world m)"

definition work :: "'a job \<Rightarrow> (core, db_error, 'a) flow" where
  "work m = once (through job_part put_job m)"

abbreviation serves_as :: "(core, 'r) task \<Rightarrow> (world \<Rightarrow> 'r \<times> world) \<Rightarrow> bool" where
  "serves_as \<equiv> runs co_world put_world"

abbreviation works_as :: "(core, db_error, 'a) flow \<Rightarrow> 'a job \<Rightarrow> bool" where
  "works_as \<equiv> runs job_part put_job"

lemma serves_act: "serves_as (act m) m"
  unfolding act_def by (rule world_part.runs_once)

lemma works_work: "works_as (work m) m"
  unfolding work_def by (rule job_part.runs_once)

lemmas serves_rules = world_part.runs_then world_part.runs_ret world_part.runs_fail world_part.runs_each serves_act
lemmas works_rules = job_part.runs_then job_part.runs_ret job_part.runs_fail job_part.runs_each works_work

section \<open>Use cases\<close>

definition status_flow :: "instant \<Rightarrow> string \<Rightarrow> device_status \<Rightarrow> unit served" where
  "status_flow at ident status =
     then_flow (act (fetch_device ident)) (\<lambda>_.
       if status \<in> {DeviceActive, DeviceSuspended, DeviceDeleted} then act (call (set_status ident status at))
       else act (fail_with ErrInvalidField (FieldDetail ''status'')))"

definition search_flow :: "event_filter \<Rightarrow> event_page served" where
  "search_flow f =
     then_flow (act (call (count_events f))) (\<lambda>total.
     then_flow (act (call (select_events f (effective_size f)
       (wrap64 (wrap64 (effective_page f - 1) * effective_size f))))) (\<lambda>items.
     Done (Inr \<lparr>pg_items = items, pg_total = total, pg_page = ef_page f, pg_size = ef_size f\<rparr>)))"

definition stats_flow :: "stats served" where
  "stats_flow = then_flow (act (call device_count)) (\<lambda>d. then_flow (act (call event_count)) (\<lambda>e.
     then_flow (act (call pending_count)) (\<lambda>p. Done (Inr \<lparr>st_devices = d, st_events = e, st_pending = p\<rparr>))))"

definition duplicate_flow :: "raw_message \<Rightarrow> telemetry_result served" where
  "duplicate_flow existing =
     (let bare = (\<lambda>ident. \<lparr>tr_event_id = ident, tr_duplicate = True, tr_matched = [], tr_topics = []\<rparr>) in
      case rm_event_id existing of
        None \<Rightarrow> Done (Inr (bare []))
      | Some ident \<Rightarrow> bind_task (act (call (get_event_by_id ident))) (\<lambda>found.
          case found of
            Inr (Some ev) \<Rightarrow> bind_task (act (call (list_rules False))) (\<lambda>listed.
              case listed of
                Inr rls \<Rightarrow> (let matched = match_rules ev rls in
                  Done (Inr ((bare ident)\<lparr>tr_topics := topics matched, tr_matched := map rr_rule_id matched\<rparr>)))
              | Inl _ \<Rightarrow> Done (Inr (bare ident)))
          | _ \<Rightarrow> Done (Inr (bare ident))))"

definition after_tx_flow :: "string \<Rightarrow> svc_error \<Rightarrow> telemetry_result served" where
  "after_tx_flow key e =
     (if e = Domain ErrDuplicate then bind_task (act (call (find_raw_by_dedup key))) (\<lambda>r.
        case r of Inr (Some existing) \<Rightarrow> duplicate_flow existing | _ \<Rightarrow> Done (Inl e))
      else Done (Inl e))"

definition ingest_flow :: "duration \<Rightarrow> instant \<Rightarrow> string \<Rightarrow> string \<Rightarrow> telemetry_result served" where
  "ingest_flow window now bytes raw =
     (case parse_message raw now of
        Inl e \<Rightarrow> act (fail_with ErrInvalidField (ParseDetail e))
      | Inr tel \<Rightarrow>
          then_flow (act (call (get_device (tm_device tel)))) (\<lambda>found.
          case found of
            None \<Rightarrow> Done (Inl (Domain ErrDeviceNotFound))
          | Some d \<Rightarrow>
              if dv_status d \<noteq> DeviceActive then Done (Inl (Domain ErrDeviceInactive))
              else (let key = telemetry_key tel in
                then_flow (act (call (find_raw_by_dedup key))) (\<lambda>existing.
                if existing \<noteq> None \<and> rm_status (the existing) = RawParsed
                   \<and> within_window (rm_received_at (the existing)) now window
                then duplicate_flow (the existing)
                else bind_task (act (on_db (in_tx Failed (ingest_tx tel raw key (new_event_id bytes) now)))) (\<lambda>r.
                  case r of Inl e \<Rightarrow> after_tx_flow key e | Inr res \<Rightarrow> Done (Inr res))))))"

definition add_rule_flow :: "string option \<Rightarrow> instant \<Rightarrow> string \<Rightarrow> rule_input \<Rightarrow> route_rule served" where
  "add_rule_flow ctx now bytes inp =
     (if ri_name inp = [] then act (fail_with ErrInvalidField (FieldDetail ''name''))
      else if ri_topic inp = [] then act (fail_with ErrInvalidField (FieldDetail ''topic''))
      else (let ident = (if ri_rule_id inp = [] then new_event_id bytes else ri_rule_id inp) in
        then_flow (act (call (get_rule ident))) (\<lambda>existing.
        if existing \<noteq> None then Done (Inl (Domain ErrRuleConflict))
        else (let r = \<lparr>rr_id = 0, rr_rule_id = ident, rr_name = ri_name inp, rr_matcher = ri_matcher inp,
                   rr_topic = ri_topic inp, rr_priority = ri_priority inp, rr_enabled = ri_enabled inp,
                   rr_deleted_at = None, rr_created_at = now, rr_updated_at = now\<rparr> in
          act (catch (\<lambda>e. if is_unique_violation e then fail (Domain ErrRuleConflict) else fail e)
            (andThen (on_db (in_tx Failed
               (andThen (sql (create_rule r)) (\<lambda>_.
                sql (append_change (change_entry ident ActionCreate None (Some r) ctx now))))))
             (\<lambda>_. ret r)))))))"

definition change_rule_flow :: "string option \<Rightarrow> instant \<Rightarrow> string \<Rightarrow> rule_input \<Rightarrow> route_rule served" where
  "change_rule_flow ctx now ident inp =
     then_flow (act (call (get_rule ident))) (\<lambda>found.
     case found of
       None \<Rightarrow> Done (Inl (Domain ErrRuleNotFound))
     | Some existing \<Rightarrow>
         if rr_deleted_at existing \<noteq> None then Done (Inl (Domain ErrRuleNotFound))
         else (let updated = merged_rule existing inp now in
           act (andThen (on_db (in_tx Failed
              (andThen (sql (update_rule updated)) (\<lambda>_.
               sql (append_change (change_entry ident (update_action existing updated)
                 (Some existing) (Some updated) ctx now))))))
            (\<lambda>_. ret updated))))"

definition delete_rule_flow :: "string option \<Rightarrow> instant \<Rightarrow> string \<Rightarrow> unit served" where
  "delete_rule_flow ctx now ident =
     then_flow (act (call (get_rule ident))) (\<lambda>found.
     case found of
       None \<Rightarrow> Done (Inl (Domain ErrRuleNotFound))
     | Some existing \<Rightarrow>
         if rr_deleted_at existing \<noteq> None then Done (Inl (Domain ErrRuleNotFound))
         else (let after = existing\<lparr>rr_enabled := False, rr_deleted_at := Some now, rr_updated_at := now\<rparr> in
           act (on_db (in_tx Failed
              (andThen (sql (soft_delete ident now)) (\<lambda>_.
               sql (append_change (change_entry ident ActionDelete (Some existing) (Some after) ctx now))))))))"

definition replay_flow :: "instant \<Rightarrow> string \<Rightarrow> replay_result served" where
  "replay_flow now ident =
     then_flow (act (fetch_event ident)) (\<lambda>ev.
     then_flow (act (call (list_rules False))) (\<lambda>rls.
     let matched = match_rules ev rls in
     then_flow (act (call (list_deliveries_by_event ident))) (\<lambda>existing.
     let pending = map dl_rule_id (filter waiting existing);
         missing = filter (\<lambda>r. rr_rule_id r \<notin> set pending) matched in
     then_flow (each_flow (\<lambda>r. act (call (create_delivery (new_delivery ident now r)))) missing) (\<lambda>_.
     Done (Inr \<lparr>rp_event_id = ident, rp_matched = map rr_rule_id matched,
          rp_created = map rr_rule_id missing, rp_count = int (length missing)\<rparr>)))))"

definition list_deliveries_flow :: "string \<Rightarrow> delivery list served" where
  "list_deliveries_flow ident = then_flow (act (fetch_event ident)) (\<lambda>_. act (call (list_deliveries_by_event ident)))"

section \<open>Run alone, the use cases are those of the service\<close>

lemma serves_status: "serves_as (status_flow at i st) (set_device_status at i st)"
  unfolding status_flow_def set_device_status_def by (auto intro!: serves_rules)

lemma serves_stats: "serves_as stats_flow get_stats"
  unfolding stats_flow_def get_stats_def by (intro serves_rules)

lemma search_events_alt:
  "search_events f = andThen (call (count_events f)) (\<lambda>total.
     andThen (call (select_events f (effective_size f)
       (wrap64 (wrap64 (effective_page f - 1) * effective_size f)))) (\<lambda>items.
     ret \<lparr>pg_items = items, pg_total = total, pg_page = ef_page f, pg_size = ef_size f\<rparr>))"
  by (auto simp: fun_eq_iff search_events_def query_events_def andThen_def call_def on_db_def sql_def lift_error_def
      ret_def Let_def split: prod.split sum.split)

lemma serves_search: "serves_as (search_flow f) (search_events f)"
  unfolding search_flow_def search_events_alt by (intro serves_rules)

lemma serves_duplicate: "serves_as (duplicate_flow m) (duplicate_result m)"
  unfolding runs_def
  by (auto simp: duplicate_flow_def duplicate_result_def alone_bind act_def through_def Let_def
      split: option.split sum.split prod.split)

lemma serves_after_tx: "serves_as (after_tx_flow k e) (after_tx k e)"
proof -
  have d: "alone (duplicate_flow m) c = through co_world put_world (duplicate_result m) c" for m c
    using serves_duplicate by (simp add: runs_def)
  show ?thesis
    unfolding runs_def
    by (auto simp: after_tx_flow_def after_tx_def alone_bind act_def d through_def Let_def
        split: option.split sum.split prod.split)
qed

lemma serves_catch:
  assumes "serves_as t m" and "\<And>e. serves_as (h e) (g e)"
  shows "serves_as (bind_task t (\<lambda>r. case r of Inl e \<Rightarrow> h e | Inr x \<Rightarrow> Done (Inr x))) (catch g m)"
proof -
  have "catch g m = (\<lambda>w. case m w of (r, w') \<Rightarrow> (case r of Inl e \<Rightarrow> g e | Inr x \<Rightarrow> (\<lambda>w. (Inr x, w))) w')"
    by (auto simp: fun_eq_iff catch_def split: prod.split sum.split)
  then show ?thesis
    by (simp only:) (rule world_part.runs_bind[OF assms(1)], auto intro: assms(2) world_part.runs_Done split: sum.split)
qed

lemma serves_ingest: "serves_as (ingest_flow win now bytes raw) (ingest_telemetry win now bytes raw)"
  unfolding ingest_flow_def ingest_telemetry_def Let_def
  by (auto intro!: serves_rules serves_duplicate serves_catch serves_after_tx split: sum.split option.split)

lemma serves_rule_cases:
  "serves_as (add_rule_flow ctx now bytes inp) (add_rule ctx now bytes inp)"
  "serves_as (change_rule_flow ctx now i inp) (change_rule ctx now i inp)"
  "serves_as (delete_rule_flow ctx now i) (delete_rule ctx now i)"
  unfolding add_rule_flow_def add_rule_def change_rule_flow_def change_rule_def delete_rule_flow_def delete_rule_def Let_def
  by (auto intro!: serves_rules split: option.split)

lemma serves_replay: "serves_as (replay_flow now i) (replay_event now i)"
  unfolding replay_flow_def replay_event_def Let_def by (intro serves_rules)

lemma serves_list_deliveries: "serves_as (list_deliveries_flow i) (list_deliveries i)"
  unfolding list_deliveries_flow_def list_deliveries_def by (intro serves_rules)

section \<open>Handlers\<close>

text \<open>The error object is read when the answer is written, in a step of its own.\<close>

definition respond_flow :: "('a \<Rightarrow> int) \<Rightarrow> ('a \<Rightarrow> reply) \<Rightarrow> 'a served \<Rightarrow> (core, response) task" where
  "respond_flow status body t = bind_task t (\<lambda>r. case r of
     Inl e \<Rightarrow> act (write_error e) | Inr x \<Rightarrow> Done \<lparr>rs_status = status x, rs_reply = body x\<rparr>)"

definition body_flow :: "'v decoder \<Rightarrow> 'v \<Rightarrow> request \<Rightarrow> ('v \<Rightarrow> 'a served) \<Rightarrow> 'a served" where
  "body_flow dec zero rq f = (case decode_json dec zero (rq_body rq) of
     Inl e \<Rightarrow> act (fail_with ErrInvalidField (DecodeDetail e)) | Inr v \<Rightarrow> f v)"

definition handle_flow :: "server \<Rightarrow> env \<Rightarrow> string option \<Rightarrow> request \<Rightarrow> endpoint \<Rightarrow> string \<Rightarrow> (core, response) task" where
  "handle_flow sv env ctx rq e arg = (case e of
     CreateDevice \<Rightarrow> respond_flow created OneDevice
       (body_flow (as_struct create_device_fields)
          \<lparr>cd_device_id = [], cd_name = [], cd_protocol = [], cd_metadata = None\<rparr> rq (\<lambda>req.
        let ident = (if cd_device_id req = [] then new_device_id (en_draws env) else cd_device_id req) in
        act (register_device (en_now env) ident (cd_name req) (cd_protocol req) (cd_metadata req))))
   | ListDevices \<Rightarrow> respond_flow ok Devices (act all_devices)
   | GetDevice \<Rightarrow> respond_flow ok OneDevice (act (fetch_device arg))
   | DeviceStatus \<Rightarrow> respond_flow ok (\<lambda>status. StatusSet arg status)
       (body_flow (as_struct (one_field ''status'')) [] rq (\<lambda>status.
        then_flow (status_flow (en_now env) arg (device_status_of status)) (\<lambda>_. Done (Inr status))))
   | Telemetry \<Rightarrow> respond_flow (\<lambda>res. if tr_duplicate res then 200 else 201) Ingestion
       (body_flow (as_struct (one_field ''raw_text'')) [] rq (\<lambda>raw.
        if raw = [] then act (fail_with ErrInvalidField (FieldDetail ''raw_text''))
        else ingest_flow (sv_window sv) (en_now env) (en_bytes env) raw))
   | CreateRule \<Rightarrow> respond_flow created OneRule
       (body_flow (as_struct rule_fields) empty_rule_input rq (add_rule_flow (operator_context ctx) (en_now env) (en_bytes env)))
   | ListRules \<Rightarrow> respond_flow ok Rules (act current_rules)
   | GetRule \<Rightarrow> respond_flow ok OneRule (act (fetch_rule arg))
   | UpdateRule \<Rightarrow> respond_flow ok OneRule
       (body_flow (as_struct rule_fields) empty_rule_input rq (change_rule_flow (operator_context ctx) (en_now env) arg))
   | DeleteRule \<Rightarrow> respond_flow ok (\<lambda>_. RuleDeleted arg) (delete_rule_flow (operator_context ctx) (en_now env) arg)
   | RuleChanges \<Rightarrow> respond_flow ok Changes (act (rule_changes arg))
   | ListEvents \<Rightarrow> respond_flow ok Events (search_flow (event_query rq))
   | GetEvent \<Rightarrow> respond_flow ok OneEvent (act (fetch_event arg))
   | ListDeliveries \<Rightarrow> respond_flow ok Deliveries (list_deliveries_flow arg)
   | ReplayEvent \<Rightarrow> respond_flow ok Replayed (replay_flow (en_now env) arg)
   | GetStats \<Rightarrow> respond_flow ok Statistics stats_flow
   | ListAudit \<Rightarrow> respond_flow ok Audits (act (recent_audit (atoi_or_bound (query_get rq ''limit''))))
   | _ \<Rightarrow> act (handle sv env ctx rq e arg))"

definition dispatch_request_flow :: "server \<Rightarrow> env \<Rightarrow> string option \<Rightarrow> request \<Rightarrow> (core, response) task" where
  "dispatch_request_flow sv env ctx rq = (case find_handler (sv_metrics sv \<noteq> None) rq of
     Found e vs \<Rightarrow> handle_flow sv env ctx rq e (case vs of v # _ \<Rightarrow> v | [] \<Rightarrow> [])
   | RedirectTo p \<Rightarrow> act (write_json 301 (Redirected p))
   | NotAllowed \<Rightarrow> act (write_json 405 MethodNotAllowed)
   | NoRoute \<Rightarrow> act (write_json 404 NotFoundPage))"

definition serve_flow :: "server \<Rightarrow> env \<Rightarrow> request \<Rightarrow> (core, response) task" where
  "serve_flow sv env rq = (case sv_auth sv of
     None \<Rightarrow> dispatch_request_flow sv env None rq
   | Some a \<Rightarrow> if requires_auth rq
       then bind_task (act (authenticate a (en_auth_now env) (rq_api_key rq) (rq_remote rq) (url_path rq))) (\<lambda>op.
         case op of None \<Rightarrow> act (write_unauthorized) | Some operator \<Rightarrow> dispatch_request_flow sv env (Some operator) rq)
       else dispatch_request_flow sv env None rq)"

lemma serves_respond:
  assumes "serves_as t m"
  shows "serves_as (respond_flow st body t) (respond st body m)"
proof -
  have "respond st body m = (\<lambda>w. case m w of (r, w') \<Rightarrow> (case r of Inl e \<Rightarrow> write_error e
      | Inr x \<Rightarrow> (\<lambda>w. (\<lparr>rs_status = st x, rs_reply = body x\<rparr>, w))) w')"
    by (auto simp: fun_eq_iff respond_def write_json_def split: prod.split sum.split)
  then show ?thesis
    unfolding respond_flow_def
    by (simp only:) (rule world_part.runs_bind[OF assms], auto intro: serves_act world_part.runs_Done split: sum.split)
qed

lemma serves_body: "(\<And>v. serves_as (f v) (g v)) \<Longrightarrow> serves_as (body_flow dec z rq f) (with_body dec z rq g)"
  unfolding body_flow_def with_body_def by (auto intro: serves_act split: sum.split)

lemma serves_handle: "serves_as (handle_flow sv env ctx rq e arg) (handle sv env ctx rq e arg)"
  by (cases e)
     (auto simp: handle_flow_def handle_def handle_create_device_def handle_list_devices_def handle_get_device_def
       handle_device_status_def handle_telemetry_def handle_create_rule_def handle_list_rules_def handle_get_rule_def
       handle_update_rule_def handle_delete_rule_def handle_rule_changes_def handle_list_events_def handle_get_event_def
       handle_list_deliveries_def handle_replay_event_def handle_stats_def handle_list_audit_def Let_def
       intro!: serves_respond serves_body serves_rules serves_status serves_stats serves_search serves_ingest
       serves_rule_cases serves_replay serves_list_deliveries)

lemma serves_dispatch: "serves_as (dispatch_request_flow sv env ctx rq) (dispatch sv env ctx rq)"
  unfolding dispatch_request_flow_def dispatch_def
  by (auto intro: serves_handle serves_act split: routing.split)

lemma serves_serve: "serves_as (serve_flow sv env rq) (serve sv env rq)"
proof (cases "sv_auth sv")
  case None
  then have "serve_flow sv env rq = dispatch_request_flow sv env None rq" "serve sv env rq = dispatch sv env None rq"
    by (auto simp: serve_flow_def serve_def fun_eq_iff)
  then show ?thesis by (simp add: serves_dispatch)
next
  case (Some a)
  have m: "middleware a env rq (\<lambda>ctx. dispatch sv env ctx rq) = (\<lambda>w.
      case authenticate a (en_auth_now env) (rq_api_key rq) (rq_remote rq) (url_path rq) w of (op, w') \<Rightarrow>
        (case op of None \<Rightarrow> write_unauthorized | Some operator \<Rightarrow> dispatch sv env (Some operator) rq) w')"
    by (auto simp: fun_eq_iff middleware_def split: prod.split option.split)
  have "serves_as (bind_task (act (authenticate a (en_auth_now env) (rq_api_key rq) (rq_remote rq) (url_path rq))) (\<lambda>op.
         case op of None \<Rightarrow> act (write_unauthorized) | Some operator \<Rightarrow> dispatch_request_flow sv env (Some operator) rq))
      (middleware a env rq (\<lambda>ctx. dispatch sv env ctx rq))"
    unfolding m by (rule world_part.runs_bind[OF serves_act]) (auto intro: serves_act serves_dispatch split: option.split)
  moreover have "serve sv env rq = (if requires_auth rq then middleware a env rq (\<lambda>ctx. dispatch sv env ctx rq)
      else dispatch sv env None rq)"
    using Some by (auto simp: fun_eq_iff serve_def)
  ultimately show ?thesis using Some serves_dispatch by (simp add: serve_flow_def del: write_unauthorized_def)
qed

section \<open>The pass of the worker\<close>

definition failure_flow :: "options \<Rightarrow> delivery \<Rightarrow> event \<Rightarrow> instant \<Rightarrow> string \<Rightarrow> (core, db_error, unit) flow" where
  "failure_flow opts d ev now err = (let attempt = dl_attempts d + 1 in
     if op_max_attempt opts \<le> attempt then
       then_flow (work (store_call (mark_dead (dl_id d) err now))) (\<lambda>_.
       work (store_call (update_event_status (ev_event_id ev) EventDeadLetter)))
     else work (store_call (mark_failed (dl_id d) attempt err (now + backoff opts attempt))))"

definition dispatch_flow :: "options \<Rightarrow> sink \<Rightarrow> instant \<Rightarrow> delivery \<Rightarrow> (core, db_error, unit) flow" where
  "dispatch_flow opts sink now d =
     then_flow (work (store_call (get_event_by_id (dl_event_id d)))) (\<lambda>found.
     case found of
       None \<Rightarrow> work (store_call (mark_dead (dl_id d) ''event not found'' now))
     | Some ev \<Rightarrow>
         if \<not> marshals ev then Done (Inl (Refused ''json: unsupported payload''))
         else then_flow (work (send sink (dl_topic d) (payload_of ev d))) (\<lambda>answer.
           case answer of
             Some err \<Rightarrow> failure_flow opts d ev now err
           | None \<Rightarrow>
               then_flow (work (store_call (mark_delivered (dl_id d) now))) (\<lambda>_.
               work (store_call (update_event_status (ev_event_id ev) EventDispatched)))))"

definition pass_flow :: "options \<Rightarrow> sink \<Rightarrow> instant \<Rightarrow> (core, db_error, unit) flow" where
  "pass_flow opts sink now =
     then_flow (work (store_call (list_due_deliveries now (op_batch opts)))) (each_flow (dispatch_flow opts sink now))"

lemma works_pass: "works_as (pass_flow opts sink now) (process_once opts sink now)"
proof -
  have "works_as (dispatch_flow opts sink now d) (dispatch_one opts sink now d)" for d
    unfolding dispatch_flow_def dispatch_one_def failure_flow_def handle_failure_def Let_def
    by (auto intro!: works_rules split: option.split)
  then show ?thesis
    unfolding pass_flow_def process_once_def by (intro works_rules)
qed


end
