(* ===== verification/Hub.thy ===== *)
theory Hub
  imports Flows
begin

text \<open>
  The process with its goroutines: any number of requests in flight and the worker, which take turns
  after every statement, with faults and restarts; and the contract under which an invariant of the
  shared state holds in every such run.
\<close>

section \<open>Steps of the goroutines\<close>

text \<open>The requests that have arrived, in this order; an answered request is a finished task.\<close>

record hub =
  hb_core :: core
  hb_requests :: "(core, response) task list"
  hb_pass :: "(core, db_error, unit) flow"

definition advance :: "('s, 'a) task \<Rightarrow> 's \<Rightarrow> ('s, 'a) task \<times> 's" where
  "advance t s = (case t of Done x \<Rightarrow> (Done x, s) | Atomic g \<Rightarrow> g s)"

abbreviation rows :: "core \<Rightarrow> database" where
  "rows c \<equiv> w_db (co_world c)"

definition with_plan :: "fault option list \<Rightarrow> core \<Rightarrow> core" where
  "with_plan p c = c\<lparr>co_world := (co_world c)\<lparr>w_db := (rows c)\<lparr>db_plan := p\<rparr>\<rparr>\<rparr>"

definition arrive :: "app \<Rightarrow> string \<Rightarrow> env \<Rightarrow> request \<Rightarrow> hub \<Rightarrow> hub" where
  "arrive app page env rq h = h\<lparr>hb_requests := hb_requests h
     @ [serve_flow ((ap_server app)\<lparr>sv_metrics := Some page\<rparr>) env rq]\<rparr>"

definition run_request :: "nat \<Rightarrow> hub \<Rightarrow> hub" where
  "run_request i h = (if i < length (hb_requests h) then
       (let (t, c) = advance (hb_requests h ! i) (hb_core h) in h\<lparr>hb_core := c, hb_requests := (hb_requests h)[i := t]\<rparr>)
     else h)"

text \<open>The worker begins a pass when the one before is over, and otherwise takes a step of it.\<close>

definition run_worker :: "app \<Rightarrow> instant \<Rightarrow> hub \<Rightarrow> hub" where
  "run_worker app now h = (case ap_worker app of None \<Rightarrow> h | Some opts \<Rightarrow>
     (case hb_pass h of
        Done _ \<Rightarrow> h\<lparr>hb_pass := pass_flow opts (ap_sink app) now\<rparr>
      | Atomic g \<Rightarrow> (let (t, c) = g (hb_core h) in h\<lparr>hb_core := c, hb_pass := t\<rparr>)))"

text \<open>
  The process ends at any moment, by a signal, an error or a crash, and is started again: what was in
  flight is lost, the error objects are new, and the database is what the statements so far have left.
\<close>

definition restarted :: "core \<Rightarrow> core" where
  "restarted c = c\<lparr>co_world := \<lparr>w_db = rows c, w_errors = initial_error\<rparr>\<rparr>"

definition restart :: "hub \<Rightarrow> hub" where
  "restart h = \<lparr>hb_core = restarted (hb_core h), hb_requests = [], hb_pass = Done (Inr ())\<rparr>"

inductive turn :: "app \<Rightarrow> hub \<Rightarrow> hub \<Rightarrow> bool" for app where
  Arrives: "turn app h (arrive app page env rq h)"
| Serves: "turn app h (run_request i h)"
| Works: "turn app h (run_worker app now h)"
| Faults: "turn app h (h\<lparr>hb_core := with_plan p (hb_core h)\<rparr>)"
| Restarts: "turn app h (restart h)"

definition takes_turns :: "app \<Rightarrow> hub \<Rightarrow> hub \<Rightarrow> bool" where
  "takes_turns app = (turn app)\<^sup>*\<^sup>*"

text \<open>A process that has been started and has not served anything yet.\<close>

definition idle :: "hub \<Rightarrow> bool" where
  "idle h \<longleftrightarrow> hb_requests h = [] \<and> (\<exists>r. hb_pass h = Done r)"

lemma takes_turns_refl: "takes_turns app h h"
  by (simp add: takes_turns_def)

lemma takes_turns_step:
  assumes "takes_turns app h t"
  shows "takes_turns app h (arrive app page env rq t)" and "takes_turns app h (run_request i t)"
    and "takes_turns app h (run_worker app now t)"
    and "takes_turns app h (t\<lparr>hb_core := with_plan p (hb_core t)\<rparr>)" and "takes_turns app h (restart t)"
  using assms turn.intros unfolding takes_turns_def by (meson rtranclp.rtrancl_into_rtrancl)+

section \<open>The contract of the goroutines\<close>

text \<open>
  An invariant of the shared state, a relation every step keeps, and a condition on each task in flight
  that its own steps keep and the steps of the others do not destroy.
\<close>

locale schedule = step_preorder R for R :: "core \<Rightarrow> core \<Rightarrow> bool" +
  fixes app :: app and inv :: "core \<Rightarrow> bool"
    and req :: "(core, response) task \<Rightarrow> core \<Rightarrow> bool" and pas :: "(core, db_error, unit) flow \<Rightarrow> core \<Rightarrow> bool"
  assumes req_step: "inv c \<Longrightarrow> req t c \<Longrightarrow> advance t c = (t', c') \<Longrightarrow> inv c' \<and> R c c' \<and> req t' c'"
    and pas_step: "inv c \<Longrightarrow> pas p c \<Longrightarrow> advance p c = (p', c') \<Longrightarrow> inv c' \<and> R c c' \<and> pas p' c'"
    and req_stable: "req t c \<Longrightarrow> R c c' \<Longrightarrow> req t c'"
    and pas_stable: "pas p c \<Longrightarrow> R c c' \<Longrightarrow> pas p c'"
    and arrives: "req (serve_flow ((ap_server app)\<lparr>sv_metrics := Some page\<rparr>) env rq) c"
    and begins: "ap_worker app = Some opts \<Longrightarrow> pas (pass_flow opts (ap_sink app) now) c"
    and ended: "pas (Done r) c"
    and faults: "inv c \<Longrightarrow> inv (with_plan plan c) \<and> R c (with_plan plan c)"
    and restarts: "inv c \<Longrightarrow> inv (restarted c) \<and> R c (restarted c)"
begin

definition all_ok :: "hub \<Rightarrow> bool" where
  "all_ok h \<longleftrightarrow> inv (hb_core h) \<and> (\<forall>t \<in> set (hb_requests h). req t (hb_core h)) \<and> pas (hb_pass h) (hb_core h)"

lemma moves:
  assumes "all_ok h" and "inv (hb_core k) \<and> R (hb_core h) (hb_core k)"
    and "\<And>t. t \<in> set (hb_requests k) \<Longrightarrow> t \<in> set (hb_requests h) \<or> req t (hb_core k)"
    and "hb_pass k = hb_pass h \<or> pas (hb_pass k) (hb_core k)"
  shows "all_ok k \<and> R (hb_core h) (hb_core k)"
  using assms req_stable pas_stable unfolding all_ok_def by metis

lemma turn_keeps:
  assumes "turn app h h'" and ok: "all_ok h"
  shows "all_ok h' \<and> R (hb_core h) (hb_core h')"
  using assms(1)
proof cases
  case (Arrives page env rq)
  show ?thesis
    by (rule moves[OF ok]) (use ok R_refl arrives in \<open>auto simp: all_ok_def Arrives arrive_def\<close>)
next
  case (Serves i)
  show ?thesis
  proof (cases "i < length (hb_requests h)")
    case True
    obtain t c where a: "advance (hb_requests h ! i) (hb_core h) = (t, c)" by fastforce
    have f: "(inv c \<and> R (hb_core h) c) \<and> req t c"
      using req_step[OF _ _ a] ok True by (simp add: all_ok_def)
    have h': "h' = h\<lparr>hb_core := c, hb_requests := (hb_requests h)[i := t]\<rparr>"
      using Serves True a by (simp add: run_request_def)
    show ?thesis
      by (rule moves[OF ok]) (use f set_update_subset_insert[of "hb_requests h" i t] in \<open>auto simp: h'\<close>)
  next
    case False
    then show ?thesis using Serves ok R_refl by (simp add: run_request_def)
  qed
next
  case (Works now)
  show ?thesis
  proof (cases "ap_worker app")
    case None
    then show ?thesis using Works ok R_refl by (simp add: run_worker_def)
  next
    case (Some opts)
    show ?thesis
    proof (cases "hb_pass h")
      case (Done r)
      then have h': "h' = h\<lparr>hb_pass := pass_flow opts (ap_sink app) now\<rparr>"
        using Works Some by (simp add: run_worker_def)
      show ?thesis
        by (rule moves[OF ok]) (use ok R_refl begins[OF Some] in \<open>simp_all add: h' all_ok_def\<close>)
    next
      case (Atomic g)
      obtain p c where g: "advance (hb_pass h) (hb_core h) = (p, c)" by fastforce
      have f: "(inv c \<and> R (hb_core h) c) \<and> pas p c"
        using pas_step[OF _ _ g] ok by (simp add: all_ok_def)
      have h': "h' = h\<lparr>hb_core := c, hb_pass := p\<rparr>"
        using Works Some Atomic g by (simp add: run_worker_def advance_def)
      show ?thesis by (rule moves[OF ok]) (use f in \<open>simp_all add: h'\<close>)
    qed
  qed
next
  case (Faults plan)
  show ?thesis
    by (rule moves[OF ok]) (use ok faults in \<open>simp_all add: Faults all_ok_def\<close>)
next
  case Restarts
  show ?thesis
    by (rule moves[OF ok]) (use ok restarts ended in \<open>simp_all add: Restarts restart_def all_ok_def\<close>)
qed

text \<open>From a process that is idle.\<close>

lemma turns_keep:
  assumes "takes_turns app h t" and "idle h" and "inv (hb_core h)"
  shows "all_ok t \<and> R (hb_core h) (hb_core t)"
  using assms(1) unfolding takes_turns_def
proof (induction rule: rtranclp_induct)
  case base
  then show ?case using assms(2,3) ended R_refl by (auto simp: idle_def all_ok_def)
next
  case (step u v)
  then show ?case using turn_keeps R_trans by blast
qed

end

end
