(* ===== verification/ServerFacts.thy ===== *)
theory ServerFacts
  imports Server
begin

text \<open>
  Invariants of the process over any sequence of requests, steps of the worker and faults.
\<close>

section \<open>Relations kept by a request\<close>

context rules_relation
begin

lemma keeps_with_body: "(\<And>v. keeps (on_w_db R) (f v)) \<Longrightarrow> keeps (on_w_db R) (with_body dec z rq f)"
  by (simp add: with_body_def keeps_fail_with split: sum.split)

lemma keeps_handle:
  assumes "handle sv env ctx rq e arg w = (rs, w')" and "e \<noteq> Telemetry" and "e \<noteq> ReplayEvent"
  shows "on_w_db R w w'"
  using assms
  by (cases e)
     (auto simp: handle_def handle_create_device_def handle_list_devices_def handle_get_device_def
       handle_device_status_def handle_create_rule_def handle_list_rules_def handle_get_rule_def
       handle_update_rule_def handle_delete_rule_def handle_rule_changes_def handle_list_events_def
       handle_get_event_def handle_stats_def handle_list_deliveries_def handle_list_audit_def Let_def
       intro: world.R_refl elim!: respond_keeps[rotated] dest: static_frame
       intro!: keeps_with_body keeps_rule_cases world.keeps_rules)

end

context steady_relation
begin

lemma keeps_replay:
  assumes "handle_replay_event env i w = (rs, w')"
  shows "on_w_db R w w'"
  using assms unfolding handle_replay_event_def
  by (rule respond_keeps[rotated]) (rule keeps_replay_event)

end

context request_relation
begin

lemma keeps_telemetry:
  assumes "handle_telemetry sv env rq w = (rs, w')"
  shows "on_w_db R w w'"
  using assms unfolding handle_telemetry_def
  by (rule respond_keeps[rotated]) (auto intro!: keeps_with_body keeps_fail_with keeps_ingest_telemetry)

lemma keeps_every_handle:
  assumes "handle sv env ctx rq e arg w = (rs, w')"
  shows "on_w_db R w w'"
proof (cases "e = Telemetry \<or> e = ReplayEvent")
  case True
  with assms show ?thesis by (auto simp: handle_def intro: keeps_telemetry keeps_replay)
next
  case False
  with assms show ?thesis by (blast intro: keeps_handle)
qed

end

text \<open>A request authenticates, which adds an audit entry at most, and then runs at most one handler.\<close>

lemma serve_cases:
  assumes "serve sv env rq w = (rs, w')"
  obtains w1 where "only_audit (w_db w) (w_db w1)"
    and "w' = w1 \<or> (\<exists>ctx e arg rs'. handle sv env ctx rq e arg w1 = (rs', w'))"
proof -
  have dispatched: "w2 = w1 \<or> (\<exists>e arg rs'. handle sv env ctx rq e arg w1 = (rs', w2))"
    if "dispatch sv env ctx rq w1 = (rs, w2)" for ctx w1 rs w2
    using that by (auto simp: dispatch_def split: routing.splits)
  show thesis
  proof (cases "sv_auth sv")
    case None
    then have "dispatch sv env None rq w = (rs, w')" using assms by (simp add: serve_def)
    then show thesis using that[of w] dispatched only_audit.R_refl by blast
  next
    case (Some a)
    obtain op w1 where au: "authenticate a (en_auth_now env) (rq_api_key rq) (rq_remote rq) (url_path rq) w = (op, w1)"
      by fastforce
    have frame: "only_audit (w_db w) (w_db w1)" using authenticate_frame[OF au] by (simp add: on_w_db_def)
    from Some assms(1) au consider "w' = w1" | "dispatch sv env op rq w1 = (rs, w')" | "dispatch sv env None rq w = (rs, w')"
      by (auto simp: serve_def middleware_def split: option.splits if_splits)
    then show thesis
      by cases (use that frame only_audit.R_refl dispatched in blast)+
  qed
qed

context registry_relation
begin

lemma keeps_audited:
  assumes "authenticate a at k rm p w = (op, w1)" and "on_w_db R w1 w'"
  shows "on_w_db R w w'"
  using keeps_authenticate[OF assms(1)] assms(2) by (rule world.R_trans)

end

context request_relation
begin

lemma keeps_request:
  assumes "serve sv env rq w = (rs, w')"
  shows "on_w_db R w w'"
proof -
  have dispatched: "on_w_db R w1 w2" if "dispatch sv env ctx rq w1 = (rs, w2)" for ctx w1 rs w2
    using that keeps_every_handle by (auto simp: dispatch_def world.R_refl split: routing.splits)
  show ?thesis
  proof (cases "sv_auth sv")
    case None
    with assms show ?thesis by (auto simp: serve_def intro: dispatched)
  next
    case (Some a)
    obtain op w1 where au: "authenticate a (en_auth_now env) (rq_api_key rq) (rq_remote rq) (url_path rq) w = (op, w1)"
      by fastforce
    from Some assms au consider "w' = w1" | "dispatch sv env op rq w1 = (rs, w')" | "dispatch sv env None rq w = (rs, w')"
      by (auto simp: serve_def middleware_def split: option.splits if_splits)
    then show ?thesis
      by cases (use dispatched keeps_authenticate[OF au] keeps_audited[OF au] in blast)+
  qed
qed

end

section \<open>Relations kept by the process\<close>

abbreviation tables_of :: "system \<Rightarrow> database" where
  "tables_of s \<equiv> w_db (sy_world s)"

lemma serve_requestD:
  assumes "serve_request app env elapsed rq s = Some (rs, t)"
  shows "\<exists>page. serve ((ap_server app)\<lparr>sv_metrics := Some page\<rparr>) env rq (sy_world s) = (rs, sy_world t)
    \<and> sy_log t = sy_log s \<and> sy_pass t = sy_pass s"
  using assms by (auto simp: serve_request_def Let_def split: prod.splits)

lemma after_job_simps [simp]:
  "tables_of (after_job s t) = ws_db t" "sy_log (after_job s t) = ws_log t" "sy_pass (after_job s t) = sy_pass s"
  "job_state (after_job s t) = t"
  by (simp_all add: after_job_def job_state_def)

lemma job_state_simps [simp]: "ws_db (job_state s) = tables_of s" "ws_log (job_state s) = sy_log s"
  by (simp_all add: job_state_def)

text \<open>The four outcomes of a step of the worker.\<close>

lemma worker_step_cases:
  obtains (idle) "worker_step app now s = s\<lparr>sy_pass := None\<rparr> \<or> worker_step app now s = s"
  | (begun) opts r t where "ap_worker app = Some opts" and "sy_pass s = None"
      and "store_call (list_due_deliveries now (op_batch opts)) (job_state s) = (r, t)"
      and "worker_step app now s = (after_job s t)\<lparr>sy_pass := (case r of Inl _ \<Rightarrow> None | Inr due \<Rightarrow> Some (now, due))\<rparr>"
  | (handled) opts at d due r t where "ap_worker app = Some opts" and "sy_pass s = Some (at, d # due)"
      and "dispatch_one opts (ap_sink app) at d (job_state s) = (r, t)"
      and "worker_step app now s = (after_job s t)\<lparr>sy_pass := (case r of Inl _ \<Rightarrow> None | Inr _ \<Rightarrow> Some (at, due))\<rparr>"
proof (cases "ap_worker app")
  case None
  then show thesis by (intro idle) (simp add: worker_step_def)
next
  case (Some opts)
  note w = Some
  show thesis
  proof (cases "sy_pass s")
    case None
    obtain r t where run: "store_call (list_due_deliveries now (op_batch opts)) (job_state s) = (r, t)" by fastforce
    have "worker_step app now s = (after_job s t)\<lparr>sy_pass := (case r of Inl _ \<Rightarrow> None | Inr due \<Rightarrow> Some (now, due))\<rparr>"
      using w None run by (simp add: worker_step_def run_job_def after_job_def split: sum.split)
    with w None run show thesis by (rule begun)
  next
    case (Some p)
    obtain at ds where p: "p = (at, ds)" by fastforce
    show thesis
    proof (cases ds)
      case Nil
      with w Some p show thesis by (intro idle) (simp add: worker_step_def)
    next
      case (Cons d due)
      obtain r t where run: "dispatch_one opts (ap_sink app) at d (job_state s) = (r, t)" by fastforce
      have "worker_step app now s = (after_job s t)\<lparr>sy_pass := (case r of Inl _ \<Rightarrow> None | Inr _ \<Rightarrow> Some (at, due))\<rparr>"
        using w Some p Cons run by (simp add: worker_step_def run_job_def split: sum.split)
      with w Some p Cons run show thesis by (intro handled) simp_all
    qed
  qed
qed

context work_relation
begin

lemma keeps_worker_step: "R (tables_of s) (tables_of (worker_step app now s))"
proof (cases rule: worker_step_cases[of app now s])
  case (begun opts r t)
  have "keeps (on_ws_db R) (store_call (list_due_deliveries now (op_batch opts)))"
    by (intro keeps_store_call keeps_work)
  from keepsD[OF this begun(3)] begun(4) show ?thesis by (simp add: on_ws_db_def)
next
  case (handled opts at d due r t)
  from keepsD[OF keeps_dispatch_one handled(3)] handled(4) show ?thesis by (simp add: on_ws_db_def)
qed (auto simp: R_refl)

end

context request_relation
begin

lemma keeps_serve_request:
  "serve_request app env elapsed rq s = Some (rs, t) \<Longrightarrow> R (tables_of s) (tables_of t)"
  by (drule serve_requestD) (auto dest: keeps_request simp: on_w_db_def)

end

context store_relation
begin

lemma keeps_reaches:
  assumes "reaches app s t" and plan: "\<And>d p. R d (d\<lparr>db_plan := p\<rparr>)"
  shows "R (tables_of s) (tables_of t)"
  using assms(1)
proof (rule reaches_invariant[where I = "\<lambda>u. R (tables_of s) (tables_of u)"])
  show "R (tables_of s) (tables_of (u\<lparr>sy_world := (sy_world u)\<lparr>w_db := (tables_of u)\<lparr>db_plan := p\<rparr>\<rparr>\<rparr>))"
    if "R (tables_of s) (tables_of u)" for u p
    using R_trans[OF that plan] by simp
qed (auto intro: R_refl R_trans keeps_serve_request keeps_worker_step)

end

lemma schema_request:
  "serve_request app env elapsed rq s = Some (rs, t) \<Longrightarrow> schema_ok (tables_of s) \<Longrightarrow> schema_ok (tables_of t)"
  using schema.keeps_serve_request by (fastforce simp: schema_step_def)

lemma schema_work: "schema_ok (tables_of s) \<Longrightarrow> schema_ok (tables_of (worker_step app now s))"
  using schema.keeps_worker_step[of s app now] by (simp add: schema_step_def)

lemma schema_plan: "schema_ok d \<Longrightarrow> schema_ok (d\<lparr>db_plan := p\<rparr>)"
  by (simp add: schema_defs)

text \<open>An invariant that rests on the schema.\<close>

lemma reaches_invariant_schema:
  assumes "reaches app s t" and "schema_ok (tables_of s)" and "I s"
    and request: "\<And>env elapsed rq s rs t page rs'. schema_ok (tables_of s) \<Longrightarrow> I s \<Longrightarrow>
      serve_request app env elapsed rq s = Some (rs, t) \<Longrightarrow>
      serve ((ap_server app)\<lparr>sv_metrics := Some page\<rparr>) env rq (sy_world s) = (rs', sy_world t) \<Longrightarrow>
      sy_log t = sy_log s \<Longrightarrow> sy_pass t = sy_pass s \<Longrightarrow> I t"
    and work: "\<And>now s. schema_ok (tables_of s) \<Longrightarrow> I s \<Longrightarrow> I (worker_step app now s)"
    and plan: "\<And>plan s. I s \<Longrightarrow> I (s\<lparr>sy_world := (sy_world s)\<lparr>w_db := (w_db (sy_world s))\<lparr>db_plan := plan\<rparr>\<rparr>\<rparr>)"
  shows "I t"
proof -
  have "schema_ok (tables_of t) \<and> I t"
    using assms(1)
  proof (rule reaches_invariant)
    show "schema_ok (tables_of s) \<and> I s" using assms(2,3) ..
  next
    fix env elapsed rq u rs v
    assume u: "schema_ok (tables_of u) \<and> I u" and run: "serve_request app env elapsed rq u = Some (rs, v)"
    from serve_requestD[OF run] obtain page where
      "serve ((ap_server app)\<lparr>sv_metrics := Some page\<rparr>) env rq (sy_world u) = (rs, sy_world v)"
      "sy_log v = sy_log u" "sy_pass v = sy_pass u" by blast
    with u run show "schema_ok (tables_of v) \<and> I v" using request schema_request by blast
  next
    fix now u assume "schema_ok (tables_of u) \<and> I u"
    then show "schema_ok (tables_of (worker_step app now u)) \<and> I (worker_step app now u)"
      using work schema_work by blast
  next
    fix p u assume "schema_ok (tables_of u) \<and> I u"
    then show "schema_ok (tables_of (u\<lparr>sy_world := (sy_world u)\<lparr>w_db := (tables_of u)\<lparr>db_plan := p\<rparr>\<rparr>\<rparr>))
      \<and> I (u\<lparr>sy_world := (sy_world u)\<lparr>w_db := (tables_of u)\<lparr>db_plan := p\<rparr>\<rparr>\<rparr>)"
      using plan schema_plan by simp
  qed
  then show ?thesis ..
qed

lemma reaches_schema:
  assumes "reaches app s t"
  shows "schema_step (tables_of s) (tables_of t)"
  using assms by (rule schema.keeps_reaches) (simp add: schema_step_def seqs_grow_def schema_defs)

lemma reaches_history:
  assumes "reaches app s t"
  shows "history (tables_of s) (tables_of t)"
  using assms by (rule history.keeps_reaches) (simp add: history_def)

section \<open>The log of the sink only grows\<close>

definition log_grows :: "worker_state \<Rightarrow> worker_state \<Rightarrow> bool" where
  "log_grows s t \<longleftrightarrow> prefix (ws_log s) (ws_log t)"

interpretation log_grows: step_preorder log_grows
  by unfold_locales (auto simp: log_grows_def)

lemma log_grows_steps:
  "keeps log_grows (store_call st)" "keeps log_grows (send sink topic p)"
  by (auto simp: keeps_def log_grows_def store_call_def send_def Let_def split: prod.split)

lemma log_grows_dispatch_one: "keeps log_grows (dispatch_one opts sink now d)"
  unfolding dispatch_one_def handle_failure_def Let_def
  by (auto intro!: log_grows.keeps_rules log_grows_steps split: option.split)

section \<open>The instruments\<close>

definition metered :: "registry \<Rightarrow> counter \<Rightarrow> gauge \<Rightarrow> histogram \<Rightarrow> bool" where
  "metered r c g h \<longleftrightarrow> r = \<lparr>rg_counters = [(dispatch_name, c)], rg_gauges = [(in_flight_name, g)],
     rg_histograms = [(duration_name, h)]\<rparr>"

lemma metered_boot: "\<exists>c g h. metered boot_registry c g h \<and> ct_value c = of_natural 0 \<and> gg_value g = of_natural 0
    \<and> hg_bounds h = default_bounds"
  by (auto simp: metered_def boot_registry_def new_counter_def new_gauge_def new_default_histogram_def
      new_histogram_def new_registry_def fresh_histogram_def)

lemma metered_simps:
  assumes "metered r c g h"
  shows "metered (on_counter dispatch_name f r) (f c) g h" and "metered (on_gauge in_flight_name k r) c (k g) h"
    and "on_histogram duration_name m r = map_option (\<lambda>h'. r\<lparr>rg_histograms := [(duration_name, h')]\<rparr>) (m h)"
  using assms by (simp_all add: metered_def on_counter_def on_gauge_def on_histogram_def)

lemma metered_set: "metered r c g h \<Longrightarrow> metered (r\<lparr>rg_histograms := [(duration_name, h')]\<rparr>) c g h'"
  by (simp add: metered_def)

text \<open>Counting by ones, and what it gives.\<close>

fun count_up :: "nat \<Rightarrow> float64" where
  "count_up 0 = of_natural 0"
| "count_up (Suc n) = fadd (count_up n) (of_natural 1)"

lemma count_up_exact: "n \<le> 2 ^ 53 \<Longrightarrow> count_up n = of_natural n"
proof (induction n)
  case (Suc n)
  then show ?case using of_natural_add[of n 1] by simp
qed simp

definition accepted :: "attempt list \<Rightarrow> attempt list" where
  "accepted log = filter (\<lambda>(_, _, answer). answer = None) log"

lemma counting_fold:
  assumes "metered r c g h" and "ct_value c = count_up n"
  shows "\<exists>c'. metered (fold (\<lambda>(_, _, answer). counting_sink answer) log r) c' g h
    \<and> ct_value c' = count_up (n + length (accepted log))"
  using assms
proof (induction log arbitrary: r c n)
  case (Cons a log)
  obtain tp p answer where a: "a = (tp, p, answer)" by (metis prod_cases3)
  show ?case
  proof (cases answer)
    case None
    have "metered (counting_sink answer r) (counter_inc c) g h"
      using metered_simps(1)[OF Cons.prems(1)] by (simp add: counting_sink_def None)
    moreover have "ct_value (counter_inc c) = count_up (Suc n)"
      by (simp add: counter_inc_def counter_add_def Cons.prems(2))
    ultimately show ?thesis using Cons.IH by (fastforce simp: a None accepted_def)
  next
    case (Some e)
    then show ?thesis using Cons.IH[OF Cons.prems] by (simp add: a accepted_def counting_sink_def)
  qed
qed (auto simp: accepted_def)

definition instruments_ok :: "system \<Rightarrow> bool" where
  "instruments_ok s \<longleftrightarrow> (\<exists>c g h. metered (sy_registry s) c g h \<and> ct_value c = count_up (length (accepted (sy_log s)))
     \<and> gg_value g = of_natural 0 \<and> hg_bounds h = default_bounds)"

lemma default_bounds_nonempty: "default_bounds \<noteq> []"
  by (simp add: default_bounds_def)

lemma observe_defined: "hg_bounds h \<noteq> [] \<Longrightarrow> \<exists>h'. observe x h = Some h' \<and> hg_bounds h' = hg_bounds h"
  by (simp add: observe_def Let_def)

lemma gauge_returns: "gg_value g = of_natural 0 \<Longrightarrow> gg_value (gauge_add (fneg (of_natural 1)) (gauge_inc g)) = of_natural 0"
proof -
  have "fadd (of_natural 0) (of_natural 1) = of_natural 1" using of_natural_add[of 0 1] by simp
  moreover have "of_natural 1 = FFin False unit_scale" "of_natural 0 = FFin False 0"
    using of_natural_exact[of 1] of_natural_exact[of 0] by simp_all
  moreover assume "gg_value g = of_natural 0"
  ultimately show ?thesis by (simp add: gauge_inc_def gauge_add_def)
qed

lemma serve_request_answers:
  assumes "instruments_ok s"
  shows "\<exists>rs t. serve_request app env elapsed rq s = Some (rs, t) \<and> instruments_ok t"
proof -
  obtain c g h where m: "metered (sy_registry s) c g h"
    and v: "ct_value c = count_up (length (accepted (sy_log s)))" "gg_value g = of_natural 0" "hg_bounds h = default_bounds"
    using assms by (auto simp: instruments_ok_def)
  let ?r1 = "on_gauge in_flight_name gauge_inc (sy_registry s)"
  let ?r2 = "on_gauge in_flight_name (gauge_add (fneg (of_natural 1))) ?r1"
  let ?g2 = "gauge_add (fneg (of_natural 1)) (gauge_inc g)"
  obtain rs w where run: "serve ((ap_server app)\<lparr>sv_metrics := Some (render ?r1)\<rparr>) env rq (sy_world s) = (rs, w)"
    by fastforce
  have m2: "metered ?r2 c ?g2 h" by (intro metered_simps m)
  obtain h' where h': "observe (seconds elapsed) h = Some h'" "hg_bounds h' = default_bounds"
    using observe_defined[of h "seconds elapsed"] v(3) default_bounds_nonempty by auto
  let ?t = "s\<lparr>sy_world := w, sy_registry := ?r2\<lparr>rg_histograms := [(duration_name, h')]\<rparr>\<rparr>"
  have "serve_request app env elapsed rq s = Some (rs, ?t)"
    using run metered_simps(3)[OF m2, of "observe (seconds elapsed)"] h'(1) by (simp add: serve_request_def Let_def)
  moreover have "instruments_ok ?t"
    using metered_set[OF m2, of h'] v h'(2) gauge_returns[OF v(2)] by (auto simp: instruments_ok_def)
  ultimately show ?thesis by blast
qed

lemma instruments_after_job:
  assumes "instruments_ok s" and grows: "prefix (sy_log s) (ws_log t)"
  shows "instruments_ok ((after_job s t)\<lparr>sy_pass := p\<rparr>)"
proof -
  obtain c g h where m: "metered (sy_registry s) c g h"
    and v: "ct_value c = count_up (length (accepted (sy_log s)))" "gg_value g = of_natural 0" "hg_bounds h = default_bounds"
    using assms by (auto simp: instruments_ok_def)
  obtain new where new: "ws_log t = sy_log s @ new" using grows by (auto elim: prefixE)
  from counting_fold[OF m v(1), of new] obtain c' where
    "metered (fold (\<lambda>(_, _, answer). counting_sink answer) new (sy_registry s)) c' g h"
    "ct_value c' = count_up (length (accepted (sy_log s @ new)))" by (auto simp: accepted_def)
  with v(2,3) show ?thesis by (auto simp: instruments_ok_def after_job_def new)
qed

lemma instruments_worker_step:
  assumes "instruments_ok s"
  shows "instruments_ok (worker_step app now s)"
proof (cases rule: worker_step_cases[of app now s])
  case idle
  then have "sy_registry (worker_step app now s) = sy_registry s" "sy_log (worker_step app now s) = sy_log s"
    by auto
  then show ?thesis using assms unfolding instruments_ok_def by presburger
next
  case (begun opts r t)
  from keepsD[OF log_grows_steps(1) begun(3)] have "prefix (sy_log s) (ws_log t)" by (simp add: log_grows_def)
  then show ?thesis unfolding begun(4) by (rule instruments_after_job[OF assms])
next
  case (handled opts at d due r t)
  from keepsD[OF log_grows_dispatch_one handled(3)] have "prefix (sy_log s) (ws_log t)" by (simp add: log_grows_def)
  then show ?thesis unfolding handled(4) by (rule instruments_after_job[OF assms])
qed

lemma reaches_instruments:
  assumes "reaches app s t" and "instruments_ok s"
  shows "instruments_ok t"
  using assms
proof (rule reaches_invariant)
  show "instruments_ok v" if "instruments_ok u" "serve_request app env elapsed rq u = Some (rs, v)" for env elapsed rq u rs v
    using serve_request_answers[OF that(1), of app env elapsed rq] that(2) by auto
  show "instruments_ok (worker_step app now u)" if "instruments_ok u" for now u
    using that by (rule instruments_worker_step)
  show "instruments_ok (u\<lparr>sy_world := (sy_world u)\<lparr>w_db := (tables_of u)\<lparr>db_plan := p\<rparr>\<rparr>\<rparr>)" if "instruments_ok u" for p u
    using that by (simp add: instruments_ok_def)
qed

section \<open>A sample process\<close>

text \<open>Without authentication and with the worker; the request posts the sample message.\<close>

definition sample_app :: app where
  "sample_app = \<lparr>ap_server = sample_server\<lparr>sv_auth := None\<rparr>, ap_worker = Some default_options, ap_sink = log_sink,
     ap_port = '':8080'', ap_shutdown = 10 * second\<rparr>"

definition sample_system :: system where
  "sample_system = \<lparr>sy_world = sample_world, sy_log = [], sy_registry = boot_registry, sy_pass = None\<rparr>"

definition sample_post :: request where
  "sample_post = sample_request ''POST'' ''/api/v1/telemetry'' (DObject [(''raw_text'', DString sample_text)])"

lemma sample_system_ok: "schema_ok (tables_of sample_system)" "instruments_ok sample_system" "sy_pass sample_system = None"
  "db_events (tables_of sample_system) = []" "db_raws (tables_of sample_system) = []"
  "db_deliveries (tables_of sample_system) = []"
proof -
  show "schema_ok (tables_of sample_system)"
    by (simp add: sample_system_def sample_world_def sample_db_def empty_database_def schema_defs serial_ok_def
        sample_rule_def sample_device_def int4_def)
  show "instruments_ok sample_system"
    unfolding instruments_ok_def sample_system_def system.simps accepted_def filter.simps list.size(3) count_up.simps
    by (rule metered_boot)
qed (simp_all add: sample_system_def sample_world_def sample_db_def empty_database_def)

lemma sample_run:
  "\<exists>rs t. serve_request sample_app (sample_env\<lparr>en_now := 0\<rparr>) 5 sample_post sample_system = Some (rs, t)
    \<and> reaches sample_app sample_system (worker_step sample_app 9 (worker_step sample_app 9 t))"
proof -
  obtain rs t where run: "serve_request sample_app (sample_env\<lparr>en_now := 0\<rparr>) 5 sample_post sample_system = Some (rs, t)"
    using serve_request_answers[OF sample_system_ok(2)] by blast
  have "reaches sample_app sample_system t" using reaches_refl Request[OF run] by (rule reaches_step)
  then have "reaches sample_app sample_system (worker_step sample_app 9 t)" using Work by (rule reaches_step)
  then have "reaches sample_app sample_system (worker_step sample_app 9 (worker_step sample_app 9 t))"
    using Work by (rule reaches_step)
  with run show ?thesis by blast
qed

text \<open>The database after the sample message and two steps of the worker.\<close>

definition sample_after :: "system" where
  "sample_after = (case serve_request sample_app (sample_env\<lparr>en_now := 0\<rparr>) 5 sample_post sample_system of
     Some (_, t) \<Rightarrow> worker_step sample_app 9 (worker_step sample_app 9 t) | None \<Rightarrow> sample_system)"

lemma sample_reached: "reaches sample_app sample_system sample_after"
  using sample_run by (auto simp: sample_after_def)

text \<open>The database over the life of the process: whatever requests are served, however the worker is
  scheduled between them and whatever statements fail, every constraint of the schema holds, and
  rows are only ever appended: no device, message, event, rule, change-log entry, delivery or audit
  entry is removed, and what identifies it never changes.\<close>

theorem history_is_append_only:
  assumes "reaches app s t" and "schema_ok (tables_of s)"
  shows "schema_ok (tables_of t) \<and> history (tables_of s) (tables_of t)"
  using reaches_schema[OF assms(1)] reaches_history[OF assms(1)] assms(2) by (simp add: schema_step_def)

theorem history_is_append_only_witness:
  "schema_ok (tables_of sample_after) \<and> history (tables_of sample_system) (tables_of sample_after)"
  using history_is_append_only[OF sample_reached sample_system_ok(1)] .

text \<open>What the wiring leaves.\<close>

lemma wireD:
  assumes "wire env connect = Inr (app, s)"
  shows "instruments_ok s" and "sy_log s = []" and "sy_pass s = None"
    and "\<exists>cfg. load env = Inr cfg \<and> connect (cf_database_url cfg) = Inr (tables_of s)
      \<and> wire_auth (cf_api_keys cfg) = Inr (sv_auth (ap_server app))"
proof -
  obtain cfg a where cfg: "load env = Inr cfg" "connect (cf_database_url cfg) = Inr (tables_of s)"
    "wire_auth (cf_api_keys cfg) = Inr a" "sv_auth (ap_server app) = a"
    and s: "sy_log s = []" "sy_pass s = None" "sy_registry s = boot_registry"
    using assms by (auto simp: wire_def split: sum.splits)
  then show "\<exists>cfg. load env = Inr cfg \<and> connect (cf_database_url cfg) = Inr (tables_of s)
      \<and> wire_auth (cf_api_keys cfg) = Inr (sv_auth (ap_server app))" by blast
  show "instruments_ok s"
    unfolding instruments_ok_def s accepted_def filter.simps list.size(3) count_up.simps by (rule metered_boot)
qed (use assms in \<open>auto simp: wire_def split: sum.splits\<close>)

text \<open>C20. The metrics tell the truth: in every state the process can reach after its start, the dispatch counter
  is the number of attempts the sink has accepted (up to 2^53 of them; refused attempts are not
  counted, although the help text of the counter says attempts), no request is shown as in
  flight between requests, and no request makes the instruments panic.\<close>

theorem metrics_are_true:
  assumes "wire env connect = Inr (app, s)" and "reaches app s t" and "length (accepted (sy_log t)) \<le> 2 ^ 53"
  shows "(map_option ct_value (map_of (rg_counters (sy_registry t)) dispatch_name),
      map_option gg_value (map_of (rg_gauges (sy_registry t)) in_flight_name),
      serve_request app renv elapsed rq t = None)
    = (Some (of_natural (length (accepted (sy_log t)))), Some (of_natural 0), False)"
proof -
  have ok: "instruments_ok t" using assms(2) wireD(1)[OF assms(1)] by (rule reaches_instruments)
  then obtain c g h where "metered (sy_registry t) c g h"
    "ct_value c = of_natural (length (accepted (sy_log t)))" "gg_value g = of_natural 0"
    using count_up_exact[OF assms(3)] by (auto simp: instruments_ok_def)
  moreover obtain rs u where "serve_request app renv elapsed rq t = Some (rs, u)"
    using serve_request_answers[OF ok] by blast
  ultimately show ?thesis by (simp add: metered_def)
qed

lemma wire_defaults: "\<exists>app s. wire (\<lambda>_. None) (\<lambda>_. Inr d) = Inr (app, s) \<and> sy_log s = []"
  by (simp add: wire_def load_def Let_def getenv_def present_def default_url_def wire_auth_def)

theorem metrics_are_true_witness:
  "\<exists>app s. wire (\<lambda>_. None) (\<lambda>_. Inr sample_db) = Inr (app, s)
    \<and> map_option ct_value (map_of (rg_counters (sy_registry s)) dispatch_name) = Some (of_natural 0)"
proof -
  obtain app s where w: "wire (\<lambda>_. None) (\<lambda>_. Inr sample_db) = Inr (app, s)" and l: "sy_log s = []"
    using wire_defaults by blast
  have "length (accepted (sy_log s)) = 0" by (simp add: l accepted_def)
  with metrics_are_true[OF w reaches_refl] w show ?thesis by (metis prod.inject zero_le)
qed

section \<open>Operators\<close>

text \<open>The operators changes of rules can be attributed to under a configuration of keys.\<close>

definition operators_of :: "string \<Rightarrow> string list" where
  "operators_of spec = (if spec = [] then [operator_from None]
     else (case parse_key_pairs spec of Inl _ \<Rightarrow> []
       | Inr keys \<Rightarrow> map (\<lambda>(_, e). operator_from (Some (ke_operator e))) keys))"

lemma at_keys_origin:
  "foldl (\<lambda>m (ident, e). m(key_hash ident \<mapsto> e)) m keys h = Some e \<Longrightarrow> e \<in> snd ` set keys \<or> m h = Some e"
proof (induction keys arbitrary: m)
  case (Cons ke keys)
  obtain k v where ke: "ke = (k, v)" by fastforce
  from Cons.IH[of "m(key_hash k \<mapsto> v)"] Cons.prems show ?case by (auto simp: ke split: if_splits)
qed simp

lemma authenticated_operator:
  assumes "authenticate (new_auth keys b) at k rm p w = (Some op, w')"
  shows "\<exists>i e. (i, e) \<in> set keys \<and> op = ke_operator e"
proof -
  obtain e where "at_keys (new_auth keys b) (key_hash k) = Some e" and op: "op = ke_operator e"
    using assms by (auto simp: authenticate_def Let_def split: option.splits if_splits)
  then have "e \<in> snd ` set keys" using at_keys_origin[of Map.empty keys] by (fastforce simp: new_auth_def)
  then obtain i where "(i, e) \<in> set keys" by (metis imageE prod.collapse)
  with op show ?thesis by blast
qed

lemma request_changes:
  assumes auth: "wire_auth spec = Inr (sv_auth sv)" and run: "serve sv env rq w = (rs, w')"
  shows "\<exists>new. db_changes (w_db w') = db_changes (w_db w) @ new
    \<and> list_all (\<lambda>c. cl_operator c \<in> set (operators_of spec)) new"
proof -
  let ?op = "request_operator sv env rq w"
  have known: "operator_from ?op \<in> set (operators_of spec)" if ok: "sv_auth sv = None \<or> ?op \<noteq> None"
  proof (cases "sv_auth sv")
    case None
    with auth show ?thesis
      by (auto simp: request_operator_def wire_auth_def operators_of_def split: if_splits sum.splits)
  next
    case (Some a)
    then obtain keys where keys: "spec \<noteq> []" "parse_key_pairs spec = Inr keys" "a = new_auth keys True"
      using auth by (auto simp: wire_auth_def split: if_splits sum.splits)
    obtain op where r: "?op = Some op" using ok Some by auto
    then have "fst (authenticate a (en_auth_now env) (rq_api_key rq) (rq_remote rq) (url_path rq) w) = Some op"
      using Some by (simp add: request_operator_def)
    then obtain w1 where
      op: "authenticate a (en_auth_now env) (rq_api_key rq) (rq_remote rq) (url_path rq) w = (Some op, w1)"
      by (metis prod.collapse)
    obtain i e where "(i, e) \<in> set keys" "op = ke_operator e"
      using authenticated_operator op unfolding keys(3) by blast
    then show ?thesis unfolding r using keys(1,2) by (force simp: operators_of_def)
  qed
  show ?thesis
  proof (cases "sv_auth sv = None \<or> ?op \<noteq> None")
    case True
    from serve_logged[OF run] known[OF True] show ?thesis
      by (fastforce simp: logged_def same_rules_def)
  next
    case False
    then obtain a where a: "sv_auth sv = Some a"
      and no: "fst (authenticate a (en_auth_now env) (rq_api_key rq) (rq_remote rq) (url_path rq) w) = None"
      by (auto simp: request_operator_def)
    from serve_unauthenticated[OF a no run] show ?thesis by (simp add: only_audit_def)
  qed
qed

lemma reaches_changes:
  assumes "reaches app s t" and auth: "wire_auth spec = Inr (sv_auth (ap_server app))"
  shows "\<exists>new. db_changes (tables_of t) = db_changes (tables_of s) @ new
    \<and> list_all (\<lambda>c. cl_operator c \<in> set (operators_of spec)) new"
  using assms(1)
proof (rule reaches_invariant[where I = "\<lambda>u. \<exists>new. db_changes (tables_of u) = db_changes (tables_of s) @ new
    \<and> list_all (\<lambda>c. cl_operator c \<in> set (operators_of spec)) new"])
  fix env elapsed rq u rs v
  assume "\<exists>new. db_changes (tables_of u) = db_changes (tables_of s) @ new
      \<and> list_all (\<lambda>c. cl_operator c \<in> set (operators_of spec)) new"
    and "serve_request app env elapsed rq u = Some (rs, v)"
  moreover from serve_requestD[OF this(2)] obtain page where
    run: "serve ((ap_server app)\<lparr>sv_metrics := Some page\<rparr>) env rq (sy_world u) = (rs, sy_world v)" by blast
  have "\<exists>new. db_changes (tables_of v) = db_changes (tables_of u) @ new
      \<and> list_all (\<lambda>c. cl_operator c \<in> set (operators_of spec)) new"
    using auth by (intro request_changes[OF _ run]) simp
  ultimately show "\<exists>new. db_changes (tables_of v) = db_changes (tables_of s) @ new
      \<and> list_all (\<lambda>c. cl_operator c \<in> set (operators_of spec)) new" by force
next
  show "\<exists>new. db_changes (tables_of (worker_step app now u)) = db_changes (tables_of s) @ new
      \<and> list_all (\<lambda>c. cl_operator c \<in> set (operators_of spec)) new"
    if "\<exists>new. db_changes (tables_of u) = db_changes (tables_of s) @ new
      \<and> list_all (\<lambda>c. cl_operator c \<in> set (operators_of spec)) new" for now u
    using that rule_frame.keeps_worker_step[of u app now] by (simp add: same_rules_def)
qed simp_all

text \<open>Attribution, from the configuration to the change log: the log only grows, and every entry that the
  process ever adds names an operator of the configured keys (or system, when no key is configured).\<close>

theorem changes_name_configured_operators:
  assumes "wire env connect = Inr (app, s)" and "reaches app s t"
  shows "\<exists>cfg new. load env = Inr cfg \<and> db_changes (tables_of t) = db_changes (tables_of s) @ new
    \<and> list_all (\<lambda>c. cl_operator c \<in> set (operators_of (cf_api_keys cfg))) new"
  using wireD(4)[OF assms(1)] reaches_changes[OF assms(2)] by blast

theorem changes_name_configured_operators_witness:
  "\<exists>app s. wire ((\<lambda>_. None)(''API_KEYS'' \<mapsto> ''ops:k1'')) (\<lambda>_. Inr sample_db) = Inr (app, s)
    \<and> (\<exists>new. db_changes (tables_of (worker_step app 3 s)) = db_changes (tables_of s) @ new
        \<and> list_all (\<lambda>c. cl_operator c \<in> {''ops''}) new)"
proof -
  let ?env = "(\<lambda>_. None)(''API_KEYS'' \<mapsto> ''ops:k1'')"
  have p: "parse_key_pairs ''ops:k1'' = Inr [(''k1'', \<lparr>ke_operator = ''ops'', ke_enabled = True\<rparr>)]" by code_simp
  have cfg: "\<exists>cfg. load ?env = Inr cfg \<and> cf_api_keys cfg = ''ops:k1''"
    by (simp add: load_def Let_def getenv_def present_def default_url_def)
  then obtain app s where w: "wire ?env (\<lambda>_. Inr sample_db) = Inr (app, s)"
    by (auto simp: wire_def wire_auth_def p)
  have "operators_of ''ops:k1'' = [''ops'']" by (simp add: operators_of_def p operator_from_def)
  with changes_name_configured_operators[OF w reaches_step[OF reaches_refl Work]] cfg w show ?thesis by fastforce
qed

end
