(* ===== verification/ExactlyOnce.thy ===== *)
theory ExactlyOnce
  imports ServerFacts
begin

text \<open>
  Every accepted measurement is one event: the raw messages and the events stay in step, under any
  faults and in any order of requests and worker steps; and an event never has two deliveries of one
  rule waiting at a time.
\<close>

section \<open>What one intake appends\<close>

lemma distinct_match_rules:
  "distinct (map rr_rule_id rls) \<Longrightarrow> distinct (map rr_rule_id (match_rules ev rls))"
  by (auto simp: distinct_map match_rules_def intro: inj_on_subset)

lemma for_each_Inr_Cons:
  assumes "for_each f (x # xs) s = (Inr u, t)"
  obtains v s' where "f x s = (Inr v, s')" and "for_each f xs s' = (Inr u, t)"
  using assms by (auto elim: andThen_Inr_elim)

text \<open>Deliveries created one after the other, whatever the faults, as long as none is reported.\<close>

lemma create_deliveries_Inr:
  assumes "for_each (\<lambda>r. sql (create_delivery (new_delivery ident now r))) rs d = (Inr u, d')"
  shows "\<exists>dls. db_deliveries d' = db_deliveries d @ dls \<and> map dl_rule_id dls = map rr_rule_id rs
    \<and> (\<forall>x \<in> set dls. dl_event_id x = ident \<and> waiting x) \<and> db_events d' = db_events d \<and> db_raws d' = db_raws d
    \<and> db_rules d' = db_rules d"
  using assms
proof (induction rs arbitrary: d)
  case (Cons r rs)
  then obtain v d1 where one: "sql (create_delivery (new_delivery ident now r)) d = (Inr v, d1)"
    and rest: "for_each (\<lambda>r. sql (create_delivery (new_delivery ident now r))) rs d1 = (Inr u, d')"
    by (blast elim: for_each_Inr_Cons)
  obtain x where x: "db_deliveries d1 = db_deliveries d @ [x]" "dl_rule_id x = rr_rule_id r" "dl_event_id x = ident"
    "waiting x" and same: "db_events d1 = db_events d" "db_raws d1 = db_raws d" "db_rules d1 = db_rules d"
    using sql_Inr[OF one]
    by (auto simp: create_delivery_def new_delivery_def waiting_def Let_def split: if_splits)
  from Cons.IH[OF rest] obtain dls where "db_deliveries d' = db_deliveries d1 @ dls"
    "map dl_rule_id dls = map rr_rule_id rs" "\<forall>x \<in> set dls. dl_event_id x = ident \<and> waiting x"
    "db_events d' = db_events d1" "db_raws d' = db_raws d1" "db_rules d' = db_rules d1" by blast
  with x same show ?case by (intro exI[of _ "x # dls"]) simp
qed (simp add: ret_def)

definition intake :: "database \<Rightarrow> database \<Rightarrow> bool" where
  "intake s t \<longleftrightarrow> (\<exists>e m dls. db_events t = db_events s @ [e] \<and> db_raws t = db_raws s @ [m]
     \<and> db_deliveries t = db_deliveries s @ dls
     \<and> ev_dedup_key e = rm_dedup_key m \<and> rm_event_id m = Some (ev_event_id e)
     \<and> \<not> has_key ev_event_id (ev_event_id e) (db_events s)
     \<and> distinct (map dl_rule_id dls) \<and> (\<forall>x \<in> set dls. dl_event_id x = ev_event_id e \<and> waiting x))"

text \<open>The event and the raw message hold what the text said; times are as precise as the database is.\<close>

definition stored_as :: "(instant \<Rightarrow> instant) \<Rightarrow> telemetry \<Rightarrow> string \<Rightarrow> string \<Rightarrow> event \<Rightarrow> raw_message \<Rightarrow> bool" where
  "stored_as stamp tel raw key e m \<longleftrightarrow> ev_device e = tm_device tel \<and> ev_ts e = stamp (tm_ts tel)
     \<and> ev_metric e = tm_metric tel \<and> ev_value e = tm_value tel \<and> ev_unit e = tm_unit tel \<and> ev_dedup_key e = key
     \<and> rm_text m = raw \<and> rm_device m = tm_device tel \<and> rm_checksum_received m = tm_checksum tel
     \<and> rm_status m = RawParsed"

definition recorded :: "(instant \<Rightarrow> instant) \<Rightarrow> telemetry \<Rightarrow> string \<Rightarrow> string \<Rightarrow> database \<Rightarrow> database \<Rightarrow> bool" where
  "recorded stamp tel raw key s t \<longleftrightarrow> (\<exists>e m. db_events t = db_events s @ [e] \<and> db_raws t = db_raws s @ [m]
     \<and> stored_as stamp tel raw key e m)"

lemma ingest_tx_intake:
  assumes run: "ingest_tx tel raw key ident now d = (Inr x, d')" and uniq: "distinct (map rr_rule_id (db_rules d))"
  shows "intake d d' \<and> recorded (db_stamp d) tel raw key d d'"
proof -
  let ?ev = "new_event tel key ident now"
  obtain ex d0 where f: "sql (find_raw_by_dedup key) d = (Inr ex, d0)"
    and run0: "(if ex \<noteq> None \<and> rm_status (the ex) = RawParsed then fail (Domain ErrDuplicate)
     else
       andThen (sql (create_event ?ev)) (\<lambda>_.
       andThen (sql (insert_raw (new_raw tel raw key ident now))) (\<lambda>_.
       andThen (sql (touch_seen (tm_device tel) now)) (\<lambda>_.
       andThen (sql (list_rules False)) (\<lambda>rls.
       let matched = match_rules ?ev rls in
       andThen (for_each (\<lambda>r. sql (create_delivery (new_delivery ident now r))) matched) (\<lambda>_.
       ret \<lparr>tr_event_id = ident, tr_duplicate = False, tr_matched = map rr_rule_id matched,
            tr_topics = topics matched\<rparr>)))))) d0 = (Inr x, d')"
    using run unfolding ingest_tx_def by (rule andThen_Inr_elim)
  have d0: "d0 = d\<lparr>db_plan := tl (db_plan d)\<rparr>" using sql_Inr[OF f] by (simp add: find_raw_by_dedup_def)
  from run0 obtain v1 d1 v2 d2 v3 d3 rls d4 v5 d5 where
    c: "sql (create_event ?ev) d0 = (Inr v1, d1)"
    and i: "sql (insert_raw (new_raw tel raw key ident now)) d1 = (Inr v2, d2)"
    and t: "sql (touch_seen (tm_device tel) now) d2 = (Inr v3, d3)"
    and l: "sql (list_rules False) d3 = (Inr rls, d4)"
    and q: "for_each (\<lambda>r. sql (create_delivery (new_delivery ident now r))) (match_rules ?ev rls) d4 = (Inr v5, d5)"
    and d': "d' = d5"
    by (auto simp: Let_def split: if_splits elim!: andThen_Inr_elim)
  from sql_Inr[OF c] obtain n at where d1: "db_events d1 = db_events d
      @ [?ev\<lparr>ev_id := n, ev_ts := db_stamp d (tm_ts tel), ev_parsed_at := at\<rparr>]" "\<not> has_key ev_event_id ident (db_events d)" "db_raws d1 = db_raws d" "db_deliveries d1 = db_deliveries d"
    "db_rules d1 = db_rules d"
    by (auto simp: create_event_def d0 new_event_def Let_def split: if_splits)
  from sql_Inr[OF i] obtain k rt where d2: "db_raws d2 = db_raws d1 @ [(new_raw tel raw key ident now)\<lparr>rm_id := k, rm_received_at := rt\<rparr>]"
    "db_events d2 = db_events d1" "db_deliveries d2 = db_deliveries d1" "db_rules d2 = db_rules d1"
    by (auto simp: insert_raw_def Let_def split: if_splits)
  have d3: "db_raws d3 = db_raws d2" "db_events d3 = db_events d2" "db_deliveries d3 = db_deliveries d2"
    "db_rules d3 = db_rules d2"
    using sql_Inr[OF t] by (auto simp: touch_seen_def)
  have d4: "db_raws d4 = db_raws d3" "db_events d4 = db_events d3" "db_deliveries d4 = db_deliveries d3"
    and rls: "match_rules ?ev rls = match_rules ?ev (db_rules d)"
    using sql_Inr[OF l] match_listed_rules[of "d3\<lparr>db_plan := tl (db_plan d3)\<rparr>"] uniq d3 d2 d1
    by (auto simp: list_rules_False)
  from create_deliveries_Inr[OF q] obtain dls where dls: "db_deliveries d5 = db_deliveries d4 @ dls"
    "map dl_rule_id dls = map rr_rule_id (match_rules ?ev rls)" "\<forall>x \<in> set dls. dl_event_id x = ident \<and> waiting x"
    "db_events d5 = db_events d4" "db_raws d5 = db_raws d4" by blast
  then have "intake d d'"
    using d1 d2 d3 d4 rls distinct_match_rules[OF uniq] unfolding intake_def d'
    by (intro exI[of _ "?ev\<lparr>ev_id := n, ev_ts := db_stamp d (tm_ts tel), ev_parsed_at := at\<rparr>"]
        exI[of _ "(new_raw tel raw key ident now)\<lparr>rm_id := k, rm_received_at := rt\<rparr>"] exI[of _ dls])
       (simp add: new_event_def new_raw_def)
  moreover have "recorded (db_stamp d) tel raw key d d'"
    using d1 d2 d3 d4 dls
    by (simp add: recorded_def stored_as_def d' new_event_def new_raw_def)
  ultimately show ?thesis ..
qed

text \<open>Most of what the process does leaves messages, events and deliveries alone.\<close>

definition same_traffic :: "database \<Rightarrow> database \<Rightarrow> bool" where
  "same_traffic s t \<longleftrightarrow> db_raws t = db_raws s \<and> db_events t = db_events s \<and> db_deliveries t = db_deliveries s"

interpretation still: rules_relation same_traffic
  by unfold_locales (auto simp: same_traffic_def roll_back_def keeps_def writing_defs Let_def)

lemma same_traffic_tables: "same_tables s t \<Longrightarrow> same_traffic s t"
  by (simp add: same_tables_def same_traffic_def)

lemma intake_frame: "same_traffic s s1 \<Longrightarrow> intake s1 t1 \<Longrightarrow> same_traffic t1 t \<Longrightarrow> intake s t"
  by (simp add: intake_def same_traffic_def)

lemma ingest_commit:
  assumes run: "on_db (in_tx Failed (ingest_tx tel raw key ident now)) w = (r, w')"
    and uniq: "distinct (map rr_rule_id (db_rules (w_db w)))"
  shows "same_traffic (w_db w) (w_db w')
    \<or> intake (w_db w) (w_db w') \<and> recorded (db_stamp (w_db w)) tel raw key (w_db w) (w_db w')"
proof -
  obtain d where tx: "in_tx Failed (ingest_tx tel raw key ident now) (w_db w) = (r, d)" and w': "w_db w' = d"
    using run by (auto simp: on_db_def Let_def split: prod.splits)
  from in_tx_outcome[OF tx] show ?thesis
  proof
    assume "same_tables (w_db w) d" then show ?thesis by (simp add: w' same_traffic_tables)
  next
    assume "\<exists>x d1 q. ingest_tx tel raw key ident now ((w_db w)\<lparr>db_plan := tl (db_plan (w_db w))\<rparr>) = (Inr x, d1)
      \<and> d = d1\<lparr>db_plan := q\<rparr> \<and> (r = Inr x \<or> (\<exists>e. r = Inl (Failed e) \<and> Some (FailAfter e) \<in> set (db_plan d1)))"
    then obtain x d1 q where body: "ingest_tx tel raw key ident now ((w_db w)\<lparr>db_plan := tl (db_plan (w_db w))\<rparr>) = (Inr x, d1)"
      and d: "d = d1\<lparr>db_plan := q\<rparr>" by blast
    have i: "intake ((w_db w)\<lparr>db_plan := tl (db_plan (w_db w))\<rparr>) d1"
      and r: "recorded (db_stamp (w_db w)) tel raw key (w_db w) d"
      using ingest_tx_intake[OF body] uniq by (simp_all add: recorded_def d)
    from i have "intake (w_db w) d"
      by (rule intake_frame[rotated]) (simp_all add: same_traffic_def d)
    with r show ?thesis by (simp add: w')
  qed
qed

lemma ingest_telemetry_intake:
  assumes run: "ingest_telemetry window now bytes raw w = (r, w')"
    and uniq: "distinct (map rr_rule_id (db_rules (w_db w)))"
  shows "same_traffic (w_db w) (w_db w') \<or> intake (w_db w) (w_db w')"
proof (cases "parse_message raw now")
  case (Inl e)
  then have "fail_with ErrInvalidField (ParseDetail e) w = (r, w')" using run by (simp add: ingest_telemetry_def)
  from keepsD[OF still.keeps_fail_with this] show ?thesis by (simp add: on_w_db_def)
next
  case (Inr tel)
  let ?key = "telemetry_key tel"
  obtain r1 w1 where g: "call (get_device (tm_device tel)) w = (r1, w1)" by fastforce
  obtain r2 w2 where f: "call (find_raw_by_dedup ?key) w1 = (r2, w2)" by fastforce
  obtain r3 w3 where tx: "on_db (in_tx Failed (ingest_tx tel raw ?key (new_event_id bytes) now)) w2 = (r3, w3)"
    by fastforce
  have calls: "keeps (on_w_db same_traffic) (call (get_device i))" "keeps (on_w_db same_rules) (call (get_device i))"
    "keeps (on_w_db same_traffic) (call (find_raw_by_dedup k))" "keeps (on_w_db same_rules) (call (find_raw_by_dedup k))"
    for i k
    by (intro still.keeps_call still.keeps_registry rule_frame.keeps_call rule_frame.keeps_registry)+
  have t2: "same_traffic (w_db w) (w_db w1)" "same_traffic (w_db w1) (w_db w2)"
    using keepsD[OF calls(1) g] keepsD[OF calls(3) f] by (simp_all add: on_w_db_def)
  then have t02: "same_traffic (w_db w) (w_db w2)" by (rule still.R_trans)
  have "same_rules (w_db w) (w_db w1)" "same_rules (w_db w1) (w_db w2)"
    using keepsD[OF calls(2) g] keepsD[OF calls(4) f] by (simp_all add: on_w_db_def)
  then have "distinct (map rr_rule_id (db_rules (w_db w2)))" using uniq by (simp add: same_rules_def)
  note tx_step = ingest_commit[OF tx this]
  have ends: "same_traffic (w_db w3) (w_db w')" if "w' = w3 \<or> (\<exists>e. after_tx ?key e w3 = (r, w'))"
    using that still.R_refl keepsD[OF after_tx_tables] same_traffic_tables unfolding on_w_db_def by blast
  consider "w' = w1" | "w' = w2" | m where "duplicate_result m w2 = (r, w')"
    | "w' = w3 \<or> (\<exists>e. after_tx ?key e w3 = (r, w'))"
    using run g f tx Inr
    by (auto simp: ingest_telemetry_def andThen_def catch_def fail_def Let_def
        split: sum.splits option.splits if_splits)
  then show ?thesis
  proof cases
    case 3
    then have "same_traffic (w_db w2) (w_db w')"
      using keepsD[OF duplicate_result_tables] same_traffic_tables unfolding on_w_db_def by blast
    then show ?thesis using t02 still.R_trans by blast
  next
    case 4
    then show ?thesis using tx_step ends t02 intake_frame still.R_trans by blast
  qed (use t2 t02 in blast)+
qed

section \<open>Messages and events stay in step\<close>

definition paired :: "database \<Rightarrow> bool" where
  "paired d \<longleftrightarrow> map (\<lambda>e. (ev_dedup_key e, Some (ev_event_id e))) (db_events d)
     = map (\<lambda>m. (rm_dedup_key m, rm_event_id m)) (db_raws d)"

definition pairing :: "database \<Rightarrow> database \<Rightarrow> bool" where
  "pairing s t \<longleftrightarrow> db_raws t = db_raws s \<and> map event_core (db_events t) = map event_core (db_events s)"

interpretation pairing: steady_relation pairing
  by unfold_locales (auto simp: pairing_def roll_back_def keeps_def writing_defs Let_def)

interpretation pairing: work_relation pairing
  by unfold_locales (auto simp: pairing_def keeps_def writing_defs Let_def map_update_rows event_core_def)

lemma paired_step:
  assumes "pairing s t" and "paired s"
  shows "paired t"
proof -
  let ?f = "\<lambda>e. (ev_dedup_key e, Some (ev_event_id e))"
  have f: "map ?f es = map ?f (map event_core es)" for es by (simp add: event_core_def)
  have "map ?f (db_events t) = map ?f (map event_core (db_events t))" by (rule f)
  also have "\<dots> = map ?f (map event_core (db_events s))" using assms(1) by (simp only: pairing_def)
  also have "\<dots> = map ?f (db_events s)" by (rule f[symmetric])
  finally have "map ?f (db_events t) = map ?f (db_events s)" .
  with assms show ?thesis by (simp add: paired_def pairing_def)
qed

lemma paired_intake: "intake s t \<Longrightarrow> paired s \<Longrightarrow> paired t"
  by (auto simp: intake_def paired_def)

lemma same_traffic_pairing: "same_traffic s t \<Longrightarrow> pairing s t"
  by (simp add: same_traffic_def pairing_def)

lemma handle_telemetry_intake:
  assumes "handle_telemetry sv env rq w = (rs, w')" and "distinct (map rr_rule_id (db_rules (w_db w)))"
  shows "same_traffic (w_db w) (w_db w') \<or> intake (w_db w) (w_db w')"
proof -
  obtain r w1 where run: "with_body (as_struct (one_field ''raw_text'')) [] rq (\<lambda>raw.
      if raw = [] then fail_with ErrInvalidField (FieldDetail ''raw_text'')
      else ingest_telemetry (sv_window sv) (en_now env) (en_bytes env) raw) w = (r, w1)"
    and w': "w_db w' = w_db w1"
    using assms(1) unfolding handle_telemetry_def by (rule respond_db)
  have "same_traffic (w_db w) (w_db w1)" if "fail_with e d w = (r, w1)" for e d
    using keepsD[OF still.keeps_fail_with that] by (simp add: on_w_db_def)
  then show ?thesis
    using run ingest_telemetry_intake[OF _ assms(2)] w'
    by (fastforce simp: with_body_def split: sum.splits if_splits)
qed

lemma schema_rules_distinct: "schema_ok d \<Longrightarrow> distinct (map rr_rule_id (db_rules d))"
  by (simp add: schema_defs)

lemma request_paired:
  assumes run: "serve sv env rq w = (rs, w')" and ok: "schema_ok (w_db w)" "paired (w_db w)"
  shows "paired (w_db w')"
proof -
  obtain w1 where au: "only_audit (w_db w) (w_db w1)"
    and h: "w' = w1 \<or> (\<exists>ctx e arg rs'. handle sv env ctx rq e arg w1 = (rs', w'))"
    using run by (rule serve_cases)
  have p1: "paired (w_db w1)" and d1: "distinct (map rr_rule_id (db_rules (w_db w1)))"
    using au ok schema_rules_distinct by (simp_all add: only_audit_def paired_def)
  from h show ?thesis
  proof
    assume "\<exists>ctx e arg rs'. handle sv env ctx rq e arg w1 = (rs', w')"
    then obtain ctx e arg rs' where h: "handle sv env ctx rq e arg w1 = (rs', w')" by blast
    have "pairing (w_db w1) (w_db w') \<or> intake (w_db w1) (w_db w')"
    proof (cases "e = Telemetry")
      case True
      with h have "handle_telemetry sv env rq w1 = (rs', w')" by (simp add: handle_def)
      from handle_telemetry_intake[OF this d1] show ?thesis by (auto intro: same_traffic_pairing)
    next
      case False
      have "on_w_db pairing w1 w'"
      proof (cases "e = ReplayEvent")
        case True
        with h show ?thesis by (auto simp: handle_def intro: pairing.keeps_replay)
      next
        case False
        with h \<open>e \<noteq> Telemetry\<close> show ?thesis by (blast intro: pairing.keeps_handle)
      qed
      then show ?thesis by (simp add: on_w_db_def)
    qed
    with p1 show ?thesis by (auto intro: paired_step paired_intake)
  qed (use p1 in simp)
qed

lemma reaches_paired:
  assumes "reaches app s t" and "schema_ok (tables_of s)" and "paired (tables_of s)"
  shows "paired (tables_of t)"
  using assms
proof (rule reaches_invariant_schema[where I = "\<lambda>u. paired (tables_of u)"])
  show "paired (tables_of (worker_step app now u))" if "paired (tables_of u)" for now u
    using paired_step[OF pairing.keeps_worker_step that] .
  show "paired (tables_of (u\<lparr>sy_world := (sy_world u)\<lparr>w_db := (tables_of u)\<lparr>db_plan := p\<rparr>\<rparr>\<rparr>))"
    if "paired (tables_of u)" for p u using that by (simp add: paired_def)
qed (rule request_paired)

text \<open>Exactly once: from a database whose messages and events are in step, whatever requests are served,
  however often a message is sent again, however the worker runs and whatever statements fail (even
  after taking effect, and even the commit), no two events stem from the same measurement, and the
  event of every stored message is there, under the message's key and identifier.\<close>

theorem measurements_are_stored_once:
  assumes "reaches app s t" and "schema_ok (tables_of s)" and "paired (tables_of s)"
  shows "distinct (map ev_dedup_key (db_events (tables_of t)))
    \<and> map (\<lambda>e. (ev_dedup_key e, Some (ev_event_id e))) (db_events (tables_of t))
        = map (\<lambda>m. (rm_dedup_key m, rm_event_id m)) (db_raws (tables_of t))"
proof -
  have p: "map (\<lambda>e. (ev_dedup_key e, Some (ev_event_id e))) (db_events (tables_of t))
        = map (\<lambda>m. (rm_dedup_key m, rm_event_id m)) (db_raws (tables_of t))"
    using reaches_paired[OF assms] by (simp add: paired_def)
  then have "map fst (map (\<lambda>e. (ev_dedup_key e, Some (ev_event_id e))) (db_events (tables_of t)))
        = map fst (map (\<lambda>m. (rm_dedup_key m, rm_event_id m)) (db_raws (tables_of t)))" by (rule arg_cong)
  then have "map ev_dedup_key (db_events (tables_of t)) = map rm_dedup_key (db_raws (tables_of t))"
    unfolding map_map comp_def fst_conv .
  moreover have "schema_ok (tables_of t)"
    using reaches_schema[OF assms(1)] assms(2) by (simp add: schema_step_def)
  then have "distinct (map rm_dedup_key (db_raws (tables_of t)))" by (simp add: schema_ok_def unique_keys_def)
  ultimately have "distinct (map ev_dedup_key (db_events (tables_of t)))" by (simp only:)
  then show ?thesis using p by (rule conjI)
qed

theorem measurements_are_stored_once_witness:
  "distinct (map ev_dedup_key (db_events (tables_of sample_after)))"
proof -
  have "paired (tables_of sample_system)" by (simp add: paired_def sample_system_ok)
  from measurements_are_stored_once[OF sample_reached sample_system_ok(1) this] show ?thesis ..
qed

end
