(* ===== verification/Deliveries.thy ===== *)
theory Deliveries
  imports ExactlyOnce
begin

text \<open>
  Deliveries over the life of the process, with requests between the deliveries of a pass: what is
  marked as dispatched was accepted by the sink, and an event has at most one delivery of a rule
  waiting at a time.
\<close>

section \<open>Dispatched means accepted\<close>

definition pass_batch :: "system \<Rightarrow> delivery list" where
  "pass_batch s = (case sy_pass s of None \<Rightarrow> [] | Some (_, due) \<Rightarrow> due)"

lemma on_track_subset: "on_track b s \<Longrightarrow> set b' \<subseteq> set b \<Longrightarrow> on_track b' s"
  by (auto simp: on_track_def)

lemma job_state_pass [simp]: "job_state (s\<lparr>sy_pass := p\<rparr>) = job_state s"
  by (simp add: job_state_def)

lemma list_due_Inr:
  assumes "store_call (list_due_deliveries now l) s = (Inr due, t)"
  shows "set due \<subseteq> {x \<in> set (db_deliveries (ws_db s)). waiting x}" and "db_deliveries (ws_db t) = db_deliveries (ws_db s)"
    and "distinct (map dl_id (db_deliveries (ws_db s))) \<Longrightarrow> distinct (map dl_id due)"
proof -
  obtain d where e: "exec (list_due_deliveries now l) (ws_db s) = (Inr due, d)" and t: "t = s\<lparr>ws_db := d\<rparr>"
    using assms by (auto simp: store_call_def Let_def split: prod.splits)
  let ?P = "is_due (db_stamp (ws_db s)) now" and ?n = "nat (if l \<le> 0 then 100 else l)"
  have due: "due = take ?n (sort_key (\<lambda>d. the (dl_next_retry_at d)) (sort_key dl_id (filter ?P (db_deliveries (ws_db s)))))"
    and d: "db_deliveries d = db_deliveries (ws_db s)"
    using exec_Inr[OF e] by (auto simp: list_due_deliveries_def Let_def)
  have P: "?P x \<Longrightarrow> waiting x" for x by (auto simp: is_due_def waiting_def)
  show "set due \<subseteq> {x \<in> set (db_deliveries (ws_db s)). waiting x}"
    using P by (auto simp: due dest!: in_set_takeD)
  show "db_deliveries (ws_db t) = db_deliveries (ws_db s)" by (simp add: t d)
  show "distinct (map dl_id due)" if "distinct (map dl_id (db_deliveries (ws_db s)))"
  proof -
    have "distinct (map dl_id (sort_key f (sort_key g (filter P xs))))" if "distinct (map dl_id xs)" for f :: "delivery \<Rightarrow> int" and g :: "delivery \<Rightarrow> int" and P xs
      using that by (auto simp: distinct_map inj_on_def)
    with that show ?thesis unfolding due take_map[symmetric] by (intro distinct_take)
  qed
qed

lemma track_request:
  assumes "serve_request app env elapsed rq s = Some (rs, t)"
  shows "track b (job_state s) (job_state t)"
  using serve_requestD[OF assms] schema.keeps_serve_request[OF assms] history.keeps_serve_request[OF assms]
    calm.keeps_serve_request[OF assms]
  by (intro trackI) auto

lemma tracked_worker_step:
  assumes "on_track (pass_batch s) (job_state s)"
  shows "on_track (pass_batch (worker_step app now s)) (job_state (worker_step app now s))"
proof (cases rule: worker_step_cases[of app now s])
  case idle
  then show ?thesis
    using on_track_subset[OF assms, of "[]"] assms by (auto simp: pass_batch_def)
next
  case (begun opts r t)
  have "track [] (job_state s) t"
    using keepsD[OF track_store_call begun(3)] calm_statements(5)
    by (meson schema.keeps_reads history.keeps_reads reading_statements(11))
  then have "on_track [] t" using on_track_subset[OF assms, of "[]"] by (simp add: track_def)
  moreover have "delivery_core ` set due \<subseteq> delivery_core ` set (db_deliveries (ws_db t))" if "r = Inr due" for due
    using list_due_Inr[of now _ "job_state s" due t] begun(3) that by auto
  ultimately show ?thesis by (auto simp: begun(4) pass_batch_def on_track_def split: sum.split)
next
  case (handled opts at d due r t)
  have "track (d # due) (job_state s) t"
    using keepsD[OF track_dispatch_one handled(3), of "d # due"] by simp
  moreover have "on_track (d # due) (job_state s)" using assms by (simp add: pass_batch_def handled(2))
  ultimately have "on_track (d # due) t" by (simp add: track_def)
  then have "on_track due t" "on_track [] t" by (auto intro: on_track_subset)
  then show ?thesis by (auto simp: handled(4) pass_batch_def split: sum.split)
qed

text \<open>No delivery is reported without having been made: over any sequence of requests and worker steps, with
  requests served in the middle of a pass and whatever statements fail, every delivery marked as
  dispatched was accepted by the sink, for its topic, its rule and its event.\<close>

theorem reported_deliveries_were_made:
  assumes "reaches app s t" and "schema_ok (tables_of s)" and "accounted (job_state s)" and "sy_pass s = None"
  shows "accounted (job_state t)"
proof -
  have "on_track (pass_batch t) (job_state t)"
    using assms(1)
  proof (rule reaches_invariant[where I = "\<lambda>u. on_track (pass_batch u) (job_state u)"])
    show "on_track (pass_batch s) (job_state s)" using assms(2-4) by (simp add: pass_batch_def on_track_def)
  next
    fix env elapsed rq u rs v
    assume "on_track (pass_batch u) (job_state u)" and run: "serve_request app env elapsed rq u = Some (rs, v)"
    moreover have "pass_batch v = pass_batch u" using serve_requestD[OF run] by (auto simp: pass_batch_def)
    ultimately show "on_track (pass_batch v) (job_state v)" using track_request by (simp add: track_def)
  next
    fix p u assume u: "on_track (pass_batch u) (job_state u)"
    then show "on_track (pass_batch (u\<lparr>sy_world := (sy_world u)\<lparr>w_db := (tables_of u)\<lparr>db_plan := p\<rparr>\<rparr>\<rparr>))
        (job_state (u\<lparr>sy_world := (sy_world u)\<lparr>w_db := (tables_of u)\<lparr>db_plan := p\<rparr>\<rparr>\<rparr>))"
      by (simp add: on_track_def accounted_def pass_batch_def schema_plan)
  qed (rule tracked_worker_step)
  then show ?thesis by (simp add: on_track_def)
qed

theorem reported_deliveries_were_made_witness:
  "accounted (job_state sample_after)"
proof -
  have "accounted (job_state sample_system)" by (simp add: accounted_def sample_system_ok)
  from reported_deliveries_were_made[OF sample_reached sample_system_ok(1) this sample_system_ok(3)] show ?thesis .
qed

section \<open>One waiting delivery per event and rule\<close>

definition target :: "delivery \<Rightarrow> string \<times> string" where
  "target x = (dl_event_id x, dl_rule_id x)"

definition single_waiting :: "database \<Rightarrow> bool" where
  "single_waiting d \<longleftrightarrow> distinct (map target (filter waiting (db_deliveries d)))"

text \<open>The deliveries of a pass that are still to be handled wait in the table.\<close>

definition pass_waits :: "delivery list \<Rightarrow> database \<Rightarrow> bool" where
  "pass_waits due d \<longleftrightarrow> distinct (map dl_id due)
     \<and> (\<forall>b \<in> set due. \<exists>x \<in> set (db_deliveries d). dl_id x = dl_id b \<and> waiting x)"

text \<open>What a request adds: waiting deliveries for targets nothing is waiting for.\<close>

definition enqueues :: "database \<Rightarrow> database \<Rightarrow> bool" where
  "enqueues s t \<longleftrightarrow> (\<exists>dls. db_deliveries t = db_deliveries s @ dls \<and> list_all waiting dls
     \<and> distinct (map target dls)
     \<and> set (map target dls) \<inter> set (map target (filter waiting (db_deliveries s))) = {})"

lemma enqueues_same: "db_deliveries t = db_deliveries s \<Longrightarrow> enqueues s t"
  by (simp add: enqueues_def)

lemma enqueues_single:
  assumes "enqueues s t" and "single_waiting s"
  shows "single_waiting t"
proof -
  obtain dls where t: "db_deliveries t = db_deliveries s @ dls" and w: "filter waiting dls = dls"
    and d: "distinct (map target dls)" "set (map target dls) \<inter> set (map target (filter waiting (db_deliveries s))) = {}"
    using assms(1) by (auto simp: enqueues_def list_all_iff filter_id_conv)
  show ?thesis
    using assms(2) d unfolding single_waiting_def t filter_append w map_append distinct_append by blast
qed

lemma enqueues_pass: "enqueues s t \<Longrightarrow> pass_waits due s \<Longrightarrow> pass_waits due t"
  by (fastforce simp: enqueues_def pass_waits_def)

lemma intake_enqueues:
  assumes "intake s t" and "schema_ok s"
  shows "enqueues s t"
proof -
  obtain e :: event and dls where t: "db_deliveries t = db_deliveries s @ dls" and new: "\<not> has_key ev_event_id (ev_event_id e) (db_events s)"
    and dls: "distinct (map dl_rule_id dls)" "\<forall>x \<in> set dls. dl_event_id x = ev_event_id e \<and> waiting x"
    using assms(1) unfolding intake_def by blast
  have "dl_event_id ` set (db_deliveries s) \<subseteq> ev_event_id ` set (db_events s)"
    using assms(2) by (simp add: schema_ok_def foreign_keys_def)
  then have "dl_event_id x \<noteq> ev_event_id e" if "x \<in> set (db_deliveries s)" for x
    using that new by (metis has_key_iff image_eqI subsetD)
  moreover have "distinct (map target dls)"
    using dls(1) by (auto simp: distinct_map target_def inj_on_def)
  ultimately show ?thesis using t dls(2) by (fastforce simp: enqueues_def list_all_iff target_def)
qed

section \<open>Replays\<close>

text \<open>
  The deliveries a replay creates, one statement each: if one fails, a beginning of them is there.
\<close>

lemma create_each:
  assumes "for_each (\<lambda>r. call (create_delivery (new_delivery ident now r))) rs w = (res, w')"
  shows "\<exists>dls. db_deliveries (w_db w') = db_deliveries (w_db w) @ dls \<and> prefix (map dl_rule_id dls) (map rr_rule_id rs)
    \<and> (\<forall>x \<in> set dls. dl_event_id x = ident \<and> waiting x)"
  using assms
proof (induction rs arbitrary: w)
  case (Cons r rs)
  obtain o1 w1 where one: "call (create_delivery (new_delivery ident now r)) w = (o1, w1)" by fastforce
  obtain dls1 where d1: "db_deliveries (w_db w1) = db_deliveries (w_db w) @ dls1"
    "\<forall>x \<in> set dls1. dl_event_id x = ident \<and> waiting x"
    "dls1 = [] \<and> (\<exists>e. o1 = Inl e) \<or> map dl_rule_id dls1 = [rr_rule_id r]"
  proof -
    obtain d where e: "exec (create_delivery (new_delivery ident now r)) (w_db w) = (d, w_db w1)"
      and o1: "o1 = map_sum Failed id d"
      using one by (auto simp: call_def on_db_def sql_def lift_error_def Let_def split: prod.splits sum.splits)
    let ?d = "(w_db w)\<lparr>db_plan := tl (db_plan (w_db w))\<rparr>"
    let ?c = "create_delivery (new_delivery ident now r) ?d"
    have c: "(\<exists>x. fst ?c = Inl x) \<and> db_deliveries (snd ?c) = db_deliveries (w_db w)
      \<or> (\<exists>x. db_deliveries (snd ?c) = db_deliveries (w_db w) @ [x] \<and> dl_event_id x = ident \<and> waiting x
          \<and> dl_rule_id x = rr_rule_id r)"
      by (auto simp: create_delivery_def new_delivery_def waiting_def Let_def)
    consider (before) x where "d = Inl x" and "w_db w1 = ?d"
      | (run) "w_db w1 = snd ?c" and "(\<exists>x. d = Inl x) \<or> d = fst ?c"
      using e by (auto simp: exec_def Let_def split: list.splits option.splits fault.splits)
    then show thesis
    proof cases
      case before
      with o1 show thesis by (intro that[of "[]"]) auto
    next
      case run
      from c show thesis
      proof
        assume "(\<exists>x. fst ?c = Inl x) \<and> db_deliveries (snd ?c) = db_deliveries (w_db w)"
        with run o1 show thesis by (intro that[of "[]"]) auto
      next
        assume "\<exists>x. db_deliveries (snd ?c) = db_deliveries (w_db w) @ [x] \<and> dl_event_id x = ident \<and> waiting x
          \<and> dl_rule_id x = rr_rule_id r"
        then obtain x where "db_deliveries (snd ?c) = db_deliveries (w_db w) @ [x]" "dl_event_id x = ident" "waiting x"
          "dl_rule_id x = rr_rule_id r" by blast
        with run(1) show thesis by (intro that[of "[x]"]) auto
      qed
    qed
  qed
  show ?case
  proof (cases o1)
    case (Inl e)
    then have "w' = w1" using Cons.prems one by (simp add: andThen_def)
    with d1 show ?thesis by (intro exI[of _ dls1]) auto
  next
    case (Inr u)
    then have "for_each (\<lambda>r. call (create_delivery (new_delivery ident now r))) rs w1 = (res, w')"
      using Cons.prems one by (simp add: andThen_def)
    from Cons.IH[OF this] obtain dls where "db_deliveries (w_db w') = db_deliveries (w_db w1) @ dls"
      "prefix (map dl_rule_id dls) (map rr_rule_id rs)" "\<forall>x \<in> set dls. dl_event_id x = ident \<and> waiting x" by blast
    with d1 Inr show ?thesis by (intro exI[of _ "dls1 @ dls"]) auto
  qed
qed (simp add: ret_def)

lemma call_reads_frame:
  assumes "reads_only st" and "call st w = (r, w')"
  shows "same_tables (w_db w) (w_db w')" and "\<And>x. r = Inr x \<Longrightarrow> fst (st ((w_db w)\<lparr>db_plan := tl (db_plan (w_db w))\<rparr>)) = Inr x"
proof -
  show "same_tables (w_db w) (w_db w')"
    using keepsD[OF keeps_call_reads[OF assms(1)] assms(2)] by (simp add: on_w_db_def)
  show "fst (st ((w_db w)\<lparr>db_plan := tl (db_plan (w_db w))\<rparr>)) = Inr x" if "r = Inr x" for x
  proof -
    obtain d where "sql st (w_db w) = (Inr x, d)"
      using assms(2) \<open>r = Inr x\<close> by (auto simp: call_def on_db_def Let_def split: prod.splits)
    from sql_Inr[OF this] show ?thesis by simp
  qed
qed

lemma replay_enqueues:
  assumes run: "replay_event now ident w = (r, w')" and uniq: "distinct (map rr_rule_id (db_rules (w_db w)))"
  shows "enqueues (w_db w) (w_db w')"
proof -
  obtain r1 w1 where e: "fetch_event ident w = (r1, w1)" by fastforce
  have t1: "same_tables (w_db w) (w_db w1)"
    using keepsD[OF reading_use_cases(3) e] by (simp add: on_w_db_def)
  obtain r2 w2 where l: "call (list_rules False) w1 = (r2, w2)" by fastforce
  obtain r3 w3 where q: "call (list_deliveries_by_event ident) w2 = (r3, w3)" by fastforce
  have t2: "same_tables (w_db w1) (w_db w2)" and t3: "same_tables (w_db w2) (w_db w3)"
    using call_reads_frame(1)[OF _ l] call_reads_frame(1)[OF _ q] reading_statements by blast+
  have t: "same_tables (w_db w) (w_db w2)" "same_tables (w_db w) (w_db w3)"
    using t1 t2 t3 tables.R_trans by blast+
  let ?mid = "\<lambda>ev rls existing. filter (\<lambda>r. rr_rule_id r \<notin> set (map dl_rule_id (filter waiting existing))) (match_rules ev rls)"
  consider "w' \<in> {w1, w2, w3}" | ev rls existing res where "r2 = Inr rls" "r3 = Inr existing"
      "for_each (\<lambda>r. call (create_delivery (new_delivery ident now r))) (?mid ev rls existing) w3 = (res, w')"
    using run e l q
    by (auto simp: replay_event_def andThen_def ret_def Let_def split: sum.splits prod.splits)
  then show ?thesis
  proof cases
    case 1
    then show ?thesis using t1 t by (auto simp: same_tables_def intro!: enqueues_same)
  next
    case (2 ev rls existing res)
    have rls: "match_rules ev rls = match_rules ev (db_rules (w_db w))"
    proof -
      have "rls = listed_rules ((w_db w1)\<lparr>db_plan := tl (db_plan (w_db w1))\<rparr>)"
        using call_reads_frame(2)[OF _ l 2(1)] reading_statements by (simp add: list_rules_False)
      then show ?thesis
        using match_listed_rules[of "(w_db w1)\<lparr>db_plan := tl (db_plan (w_db w1))\<rparr>"] uniq t1 by (simp add: same_tables_def)
    qed
    have existing: "set existing = {x \<in> set (db_deliveries (w_db w)). dl_event_id x = ident}"
      using call_reads_frame(2)[OF _ q 2(2)] reading_statements t(1)
      by (auto simp: list_deliveries_by_event_def same_tables_def)
    from create_each[OF 2(3)] obtain dls where dls: "db_deliveries (w_db w') = db_deliveries (w_db w3) @ dls"
      and pre: "prefix (map dl_rule_id dls) (map rr_rule_id (?mid ev rls existing))"
      and new: "\<forall>x \<in> set dls. dl_event_id x = ident \<and> waiting x" by blast
    have "distinct (map rr_rule_id (?mid ev rls existing))"
      unfolding rls by (intro distinct_filter_ids distinct_match_rules uniq)
    then have ids: "distinct (map dl_rule_id dls)" using pre by (auto elim!: prefixE)
    have fresh: "dl_rule_id x \<notin> dl_rule_id ` {x \<in> set existing. waiting x}" if "x \<in> set dls" for x
    proof -
      have "dl_rule_id x \<in> set (map rr_rule_id (?mid ev rls existing))"
        using set_mono_prefix[OF pre] that by auto
      then show ?thesis by (auto simp: image_iff)
    qed
    have "distinct (map target dls)"
      using ids by (auto simp: distinct_map target_def inj_on_def)
    moreover have "target x \<notin> target ` {y \<in> set (db_deliveries (w_db w)). waiting y}" if "x \<in> set dls" for x
      using fresh[OF that] new that existing by (auto simp: target_def)
    then have "set (map target dls) \<inter> set (map target (filter waiting (db_deliveries (w_db w)))) = {}"
      unfolding set_map set_filter by blast
    ultimately show ?thesis
      using dls new t(2) unfolding enqueues_def
      by (intro exI[of _ dls]) (simp add: list_all_iff same_tables_def)
  qed
qed

lemma request_enqueues:
  assumes run: "serve sv env rq w = (rs, w')" and ok: "schema_ok (w_db w)"
  shows "enqueues (w_db w) (w_db w')"
proof -
  obtain w1 where au: "only_audit (w_db w) (w_db w1)"
    and h: "w' = w1 \<or> (\<exists>ctx e arg rs'. handle sv env ctx rq e arg w1 = (rs', w'))"
    using run by (rule serve_cases)
  have d1: "distinct (map rr_rule_id (db_rules (w_db w1)))" and s1: "db_deliveries (w_db w1) = db_deliveries (w_db w)"
    using au ok by (simp_all add: only_audit_def schema_rules_distinct)
  have "enqueues (w_db w1) (w_db w')"
    using h
  proof
    assume "\<exists>ctx e arg rs'. handle sv env ctx rq e arg w1 = (rs', w')"
    then obtain ctx e arg rs' where h: "handle sv env ctx rq e arg w1 = (rs', w')" by blast
    consider "e = Telemetry" | "e = ReplayEvent" | "e \<noteq> Telemetry" "e \<noteq> ReplayEvent" by blast
    then show ?thesis
    proof cases
      case 1
      with h have "handle_telemetry sv env rq w1 = (rs', w')" by (simp add: handle_def)
      from handle_telemetry_intake[OF this d1] show ?thesis
      proof
        assume "intake (w_db w1) (w_db w')"
        then have "intake (w_db w) (w_db w')" using au by (simp add: intake_def only_audit_def)
        from intake_enqueues[OF this ok] show ?thesis by (simp add: enqueues_def s1)
      qed (simp add: same_traffic_def enqueues_same)
    next
      case 2
      with h have "handle_replay_event env arg w1 = (rs', w')" by (simp add: handle_def)
      then obtain r w2 where "replay_event (en_now env) arg w1 = (r, w2)" and "w_db w' = w_db w2"
        unfolding handle_replay_event_def by (rule respond_db)
      then show ?thesis using replay_enqueues[OF _ d1] by simp
    next
      case 3
      with still.keeps_handle[OF h] show ?thesis by (simp add: on_w_db_def same_traffic_def enqueues_same)
    qed
  qed (simp add: enqueues_same)
  then show ?thesis by (simp add: enqueues_def s1)
qed

section \<open>What handling a delivery changes\<close>

text \<open>Rows of the table keep their place and identity; only the row with the number \<open>n\<close> may change.\<close>

definition same_row :: "int \<Rightarrow> delivery \<Rightarrow> delivery \<Rightarrow> bool" where
  "same_row n x y \<longleftrightarrow> delivery_core x = delivery_core y \<and> (dl_id x \<noteq> n \<longrightarrow> x = y)"

definition works_on :: "int \<Rightarrow> database \<Rightarrow> database \<Rightarrow> bool" where
  "works_on n s t \<longleftrightarrow> list_all2 (same_row n) (db_deliveries s) (db_deliveries t)"

lemma same_row_refl [simp]: "same_row n x x"
  by (simp add: same_row_def)

lemma same_row_trans: "same_row n x y \<Longrightarrow> same_row n y z \<Longrightarrow> same_row n x z"
  unfolding same_row_def by metis

lemma works_on_refl: "works_on n s s"
  by (simp add: works_on_def list.rel_refl)

lemma works_on_trans: "works_on n s t \<Longrightarrow> works_on n t u \<Longrightarrow> works_on n s u"
  unfolding works_on_def by (rule list_all2_trans[OF same_row_trans])

lemma works_on_update:
  assumes "\<And>r. delivery_core (f r) = delivery_core r"
  shows "works_on n s (s\<lparr>db_deliveries := update_rows dl_id n f (db_deliveries s)\<rparr>)"
  using assms by (simp add: works_on_def same_row_def update_rows_def list_all2_map2 list.rel_refl_strong)

interpretation works_on: db_relation "works_on n" for n
  by unfold_locales (auto simp: works_on_refl works_on_def roll_back_def list.rel_refl intro: works_on_trans[unfolded works_on_def])

lemma works_on_statements:
  "keeps (works_on n) (mark_dead n e at)" "keeps (works_on n) (mark_failed n k e at)"
  "keeps (works_on n) (mark_delivered n at)" "keeps (works_on n) (update_event_status i es)"
  "keeps (works_on n) (get_event_by_id i)"
proof -
  show "keeps (works_on n) (mark_dead n e at)"
    unfolding mark_dead_def keeps_def snd_conv by (intro allI works_on_update) (simp add: delivery_core_def)
  have "works_on n s (snd (mark_failed n k e at s))" for s
    unfolding mark_failed_def by (simp add: works_on_refl works_on_update delivery_core_def)
  then show "keeps (works_on n) (mark_failed n k e at)" by (simp add: keeps_def)
  have "works_on n s (snd (mark_delivered n at s))" for s
    unfolding mark_delivered_def by (simp add: works_on_refl works_on_update delivery_core_def)
  then show "keeps (works_on n) (mark_delivered n at)" by (simp add: keeps_def)
  show "keeps (works_on n) (update_event_status i es)" "keeps (works_on n) (get_event_by_id i)"
    by (rule keepsI, auto simp: update_event_status_def get_event_by_id_def works_on_def list.rel_refl)+
qed

lemma works_on_store_call:
  assumes "keeps (works_on n) st"
  shows "keeps (on_ws_db (works_on n)) (store_call st)"
proof (rule keepsI)
  fix s r t assume "store_call st s = (r, t)"
  then show "on_ws_db (works_on n) s t"
    using keepsD[OF works_on.keeps_exec[OF assms], of "ws_db s"]
    by (auto simp: store_call_def on_ws_db_def Let_def split: prod.splits)
qed

lemma works_on_dispatch_one: "keeps (on_ws_db (works_on (dl_id d))) (dispatch_one opts sink now d)"
proof -
  have "keeps (on_ws_db (works_on (dl_id d))) (send sink topic p)" for topic p
    by (simp add: keeps_def send_def on_ws_db_def Let_def works_on_refl)
  then show ?thesis
    unfolding dispatch_one_def handle_failure_def Let_def
    by (auto intro!: works_on.job.keeps_rules works_on_store_call works_on_statements split: option.split)
qed

lemma list_all2_waiting:
  assumes "list_all2 (\<lambda>x y. target x = target y \<and> (waiting y \<longrightarrow> waiting x)) xs ys"
    and "distinct (map target (filter waiting xs))"
  shows "distinct (map target (filter waiting ys))
    \<and> set (map target (filter waiting ys)) \<subseteq> set (map target (filter waiting xs))"
  using assms
proof (induction rule: list_all2_induct)
  case (Cons x xs y ys)
  then show ?case by (auto split: if_splits)
qed simp

lemma works_on_single:
  assumes w: "works_on n s t" and s: "single_waiting s" and uniq: "distinct (map dl_id (db_deliveries s))"
    and row: "\<exists>x \<in> set (db_deliveries s). dl_id x = n \<and> waiting x"
  shows "single_waiting t"
proof -
  have n: "waiting x" if "x \<in> set (db_deliveries s)" "dl_id x = n" for x
    using row that distinct_map_unique[OF uniq] by blast
  have "list_all2 (\<lambda>x y. target x = target y \<and> (waiting y \<longrightarrow> waiting x)) (db_deliveries s) (db_deliveries t)"
    using w unfolding works_on_def
    by (rule list.rel_mono_strong) (auto simp: same_row_def delivery_core_def target_def n)
  from list_all2_waiting[OF this] s show ?thesis by (simp add: single_waiting_def)
qed

lemma works_on_pass:
  assumes w: "works_on (dl_id d) s t" and p: "pass_waits (d # due) s"
  shows "pass_waits due t"
  unfolding pass_waits_def
proof (intro conjI ballI)
  show "distinct (map dl_id due)" using p by (simp add: pass_waits_def)
  fix b assume b: "b \<in> set due"
  then obtain x where x: "x \<in> set (db_deliveries s)" "dl_id x = dl_id b" "waiting x"
    using p by (auto simp: pass_waits_def)
  have "dl_id d \<notin> dl_id ` set due" using p by (simp add: pass_waits_def)
  then have "dl_id x \<noteq> dl_id d" using b x(2) by (metis imageI)
  moreover obtain i where "i < length (db_deliveries s)" "x = db_deliveries s ! i"
    using x(1) by (auto simp: in_set_conv_nth)
  ultimately have "x = db_deliveries t ! i" "i < length (db_deliveries t)"
    using w by (auto simp: works_on_def same_row_def list_all2_conv_all_nth)
  with x show "\<exists>y \<in> set (db_deliveries t). dl_id y = dl_id b \<and> waiting y" by auto
qed

definition waits_ok :: "system \<Rightarrow> bool" where
  "waits_ok s \<longleftrightarrow> single_waiting (tables_of s) \<and> pass_waits (pass_batch s) (tables_of s)"

lemma list_due_same_traffic: "keeps (on_ws_db same_traffic) (store_call (list_due_deliveries now l))"
  unfolding keeps_def store_call_def on_ws_db_def Let_def
  using still.keeps_exec[OF still.keeps_reads[OF reading_statements(11)]]
  by (auto simp: keeps_def split: prod.split) (metis snd_conv)

lemma waits_worker_step:
  assumes ok: "schema_ok (tables_of s)" and w: "waits_ok s"
  shows "waits_ok (worker_step app now s)"
proof (cases rule: worker_step_cases[of app now s])
  case idle
  then consider "worker_step app now s = s" | "worker_step app now s = s\<lparr>sy_pass := None\<rparr>" by blast
  then show ?thesis using w by cases (simp_all add: waits_ok_def pass_batch_def pass_waits_def)
next
  case (begun opts r t)
  have uniq: "distinct (map dl_id (db_deliveries (tables_of s)))"
    using ok by (simp add: schema_ok_def serials_def serial_ok_def)
  have same: "db_deliveries (ws_db t) = db_deliveries (tables_of s)"
  proof -
    from keepsD[OF list_due_same_traffic begun(3)] show ?thesis by (simp add: on_ws_db_def same_traffic_def)
  qed
  have "pass_waits due (ws_db t)" if "r = Inr due" for due
    using list_due_Inr[of now "op_batch opts" "job_state s" due t] begun(3) that uniq
    by (auto simp: pass_waits_def same)
  then show ?thesis
    using w same by (auto simp: begun(4) waits_ok_def pass_batch_def single_waiting_def pass_waits_def split: sum.split)
next
  case (handled opts at d due r t)
  have works: "works_on (dl_id d) (tables_of s) (ws_db t)"
    using keepsD[OF works_on_dispatch_one handled(3)] by (simp add: on_ws_db_def)
  have p: "pass_waits (d # due) (tables_of s)" using w by (simp add: waits_ok_def pass_batch_def handled(2))
  have "single_waiting (ws_db t)"
    using works_on_single[OF works] w ok p
    by (simp add: waits_ok_def pass_waits_def schema_ok_def serials_def serial_ok_def)
  moreover have "pass_waits due (ws_db t)" using works p by (rule works_on_pass)
  ultimately show ?thesis by (auto simp: handled(4) waits_ok_def pass_batch_def pass_waits_def split: sum.split)
qed



section \<open>Settled deliveries\<close>

definition settles :: "database \<Rightarrow> database \<Rightarrow> bool" where
  "settles s t \<longleftrightarrow> (\<forall>x \<in> set (db_deliveries s). \<not> waiting x \<longrightarrow> x \<in> set (db_deliveries t))"

lemma enqueues_settles: "enqueues s t \<Longrightarrow> settles s t"
  by (auto simp: enqueues_def settles_def)

lemma works_on_settles:
  assumes w: "works_on n s t" and uniq: "distinct (map dl_id (db_deliveries s))"
    and row: "\<exists>x \<in> set (db_deliveries s). dl_id x = n \<and> waiting x"
  shows "settles s t"
  unfolding settles_def
proof (intro ballI impI)
  fix x assume x: "x \<in> set (db_deliveries s)" "\<not> waiting x"
  then have "dl_id x \<noteq> n" using row distinct_map_unique[OF uniq] by blast
  moreover obtain i where "i < length (db_deliveries s)" "x = db_deliveries s ! i"
    using x(1) by (auto simp: in_set_conv_nth)
  ultimately have "x = db_deliveries t ! i" "i < length (db_deliveries t)"
    using w by (auto simp: works_on_def same_row_def list_all2_conv_all_nth)
  then show "x \<in> set (db_deliveries t)" by simp
qed

lemma worker_step_settles:
  assumes ok: "schema_ok (tables_of s)" and w: "pass_waits (pass_batch s) (tables_of s)"
  shows "settles (tables_of s) (tables_of (worker_step app now s))"
proof (cases rule: worker_step_cases[of app now s])
  case idle
  then show ?thesis by (auto simp: settles_def)
next
  case (begun opts r t)
  from keepsD[OF list_due_same_traffic begun(3)] show ?thesis by (simp add: begun(4) on_ws_db_def same_traffic_def settles_def)
next
  case (handled opts at d due r t)
  have "works_on (dl_id d) (tables_of s) (ws_db t)"
    using keepsD[OF works_on_dispatch_one handled(3)] by (simp add: on_ws_db_def)
  then have "settles (tables_of s) (ws_db t)"
    using w ok
    by (intro works_on_settles) (auto simp: pass_batch_def handled(2) pass_waits_def schema_ok_def serials_def serial_ok_def)
  then show ?thesis by (simp add: handled(4))
qed

text \<open>Dispatched and dead deliveries are final: over any sequence of requests and worker steps, with requests
  served in the middle of a pass and whatever statements fail, no delivery that is neither pending nor
  failed changes any more, whatever is replayed.\<close>

theorem settled_deliveries_are_final:
  assumes "reaches app s t" and "schema_ok (tables_of s)" and "single_waiting (tables_of s)" and "sy_pass s = None"
    and "x \<in> set (db_deliveries (tables_of s))" and "\<not> waiting x"
  shows "x \<in> set (db_deliveries (tables_of t))"
proof -
  have "waits_ok t \<and> x \<in> set (db_deliveries (tables_of t))"
    using assms(1,2)
  proof (rule reaches_invariant_schema)
    show "waits_ok s \<and> x \<in> set (db_deliveries (tables_of s))"
      using assms(3-5) by (simp add: waits_ok_def pass_batch_def pass_waits_def)
  next
    fix env elapsed rq and u v :: system and rs page rs'
    assume ok: "schema_ok (tables_of u)" and u: "waits_ok u \<and> x \<in> set (db_deliveries (tables_of u))"
      and p: "sy_pass v = sy_pass u"
      and run: "serve ((ap_server app)\<lparr>sv_metrics := Some page\<rparr>) env rq (sy_world u) = (rs', sy_world v)"
    have "enqueues (tables_of u) (tables_of v)" using run ok by (rule request_enqueues)
    then show "waits_ok v \<and> x \<in> set (db_deliveries (tables_of v))"
      using u p assms(6) enqueues_single enqueues_pass enqueues_settles
      by (auto simp: waits_ok_def pass_batch_def settles_def)
  next
    fix now u assume ok: "schema_ok (tables_of u)" and u: "waits_ok u \<and> x \<in> set (db_deliveries (tables_of u))"
    then have "settles (tables_of u) (tables_of (worker_step app now u))"
      by (intro worker_step_settles) (simp_all add: waits_ok_def)
    then show "waits_ok (worker_step app now u) \<and> x \<in> set (db_deliveries (tables_of (worker_step app now u)))"
      using waits_worker_step[OF ok] u assms(6) by (auto simp: settles_def)
  qed (simp add: waits_ok_def single_waiting_def pass_waits_def pass_batch_def)
  then show ?thesis ..
qed

text \<open>A database with a dispatched delivery.\<close>

definition dispatched_delivery :: delivery where
  "dispatched_delivery = sample_delivery\<lparr>dl_status := DeliveryDispatched, dl_dispatched_at := Some 1\<rparr>"

definition delivered_system :: system where
  "delivered_system = sample_system\<lparr>sy_world := sample_world\<lparr>w_db :=
     (ws_db sample_worker)\<lparr>db_deliveries := [dispatched_delivery]\<rparr>\<rparr>\<rparr>"

theorem settled_deliveries_are_final_witness:
  "dispatched_delivery \<in> set (db_deliveries (tables_of (worker_step sample_app 9 (worker_step sample_app 9 delivered_system))))"
proof (rule settled_deliveries_are_final)
  show "reaches sample_app delivered_system (worker_step sample_app 9 (worker_step sample_app 9 delivered_system))"
    using reaches_step[OF reaches_step[OF reaches_refl Work] Work] .
  show "schema_ok (tables_of delivered_system)"
    by (simp add: delivered_system_def dispatched_delivery_def schema_defs serial_ok_def sample_worker_def sample_db_def
        empty_database_def sample_delivery_def sample_event_def sample_rule_def sample_device_def int4_def)
  show "single_waiting (tables_of delivered_system)"
    by (simp add: delivered_system_def dispatched_delivery_def single_waiting_def waiting_def)
  show "sy_pass delivered_system = None" by (simp add: delivered_system_def sample_system_def)
  show "dispatched_delivery \<in> set (db_deliveries (tables_of delivered_system))" by (simp add: delivered_system_def)
  show "\<not> waiting dispatched_delivery" by (simp add: dispatched_delivery_def waiting_def)
qed

section \<open>A pass without interruption\<close>

lemma finish_pass:
  assumes "ap_worker app = Some opts"
    and "for_each (dispatch_one opts (ap_sink app) at) due (job_state s) = (r, t)" and "sy_pass s = Some (at, due)"
  shows "\<exists>n. sy_pass ((worker_step app now ^^ n) s) = None \<and> job_state ((worker_step app now ^^ n) s) = t"
  using assms(2,3)
proof (induction due arbitrary: s)
  case Nil
  then show ?case by (intro exI[of _ 1]) (simp add: worker_step_def assms(1) ret_def)
next
  case (Cons d due)
  obtain r1 t1 where one: "dispatch_one opts (ap_sink app) at d (job_state s) = (r1, t1)" by fastforce
  show ?case
  proof (cases r1)
    case (Inl e)
    then have "t = t1" using Cons.prems(1) one by (simp add: andThen_def)
    with Inl show ?thesis
      by (intro exI[of _ 1]) (simp add: worker_step_def assms(1) Cons.prems(2) run_job_def one)
  next
    case (Inr u)
    let ?s1 = "(after_job s t1)\<lparr>sy_pass := Some (at, due)\<rparr>"
    have "for_each (dispatch_one opts (ap_sink app) at) due (job_state ?s1) = (r, t)"
      using Cons.prems(1) one Inr by (simp add: andThen_def)
    then obtain n where n: "sy_pass ((worker_step app now ^^ n) ?s1) = None" "job_state ((worker_step app now ^^ n) ?s1) = t"
      using Cons.IH[of ?s1] by auto
    have "worker_step app now s = ?s1"
      using Inr by (simp add: worker_step_def assms(1) Cons.prems(2) run_job_def one)
    then have "(worker_step app now ^^ Suc n) s = (worker_step app now ^^ n) ?s1" by (simp only: funpow_Suc_right o_apply)
    with n show ?thesis by metis
  qed
qed

text \<open>The steps of the worker are the pass of the code: run without interruption from an idle worker, they
  reach an idle worker again, with exactly the database and the dispatches of one \<^verbatim>\<open>processOnce\<close>,
  whatever statements fail in between.\<close>

theorem uninterrupted_steps_are_a_pass:
  assumes "ap_worker app = Some opts" and "sy_pass s = None"
  shows "\<exists>n > 0. sy_pass ((worker_step app now ^^ n) s) = None
    \<and> job_state ((worker_step app now ^^ n) s) = snd (process_once opts (ap_sink app) now (job_state s))"
proof -
  obtain r1 t1 where l: "store_call (list_due_deliveries now (op_batch opts)) (job_state s) = (r1, t1)" by fastforce
  show ?thesis
  proof (cases r1)
    case (Inl e)
    with l show ?thesis
      by (intro exI[of _ 1]) (simp add: worker_step_def assms run_job_def process_once_def andThen_def)
  next
    case (Inr due)
    let ?s1 = "(after_job s t1)\<lparr>sy_pass := Some (now, due)\<rparr>"
    obtain r t where each: "for_each (dispatch_one opts (ap_sink app) now) due t1 = (r, t)" by fastforce
    then obtain n where n: "sy_pass ((worker_step app now ^^ n) ?s1) = None" "job_state ((worker_step app now ^^ n) ?s1) = t"
      using finish_pass[OF assms(1), of now due ?s1 r t now] by auto
    have "worker_step app now s = ?s1" using l Inr by (simp add: worker_step_def assms run_job_def)
    then have "(worker_step app now ^^ Suc n) s = (worker_step app now ^^ n) ?s1" by (simp only: funpow_Suc_right o_apply)
    moreover have "snd (process_once opts (ap_sink app) now (job_state s)) = t"
      using l Inr each by (simp add: process_once_def andThen_def)
    ultimately show ?thesis using n by (intro exI[of _ "Suc n"]) simp
  qed
qed

theorem uninterrupted_steps_are_a_pass_witness:
  "\<exists>n > 0. job_state ((worker_step sample_app 9 ^^ n) sample_system)
    = snd (process_once default_options log_sink 9 (job_state sample_system))"
proof -
  have a: "ap_worker sample_app = Some default_options" "ap_sink sample_app = log_sink" by (simp_all add: sample_app_def)
  from uninterrupted_steps_are_a_pass[OF a(1) sample_system_ok(3), of 9] a(2) show ?thesis by metis
qed

end
