(* ===== verification/Concurrent.thy ===== *)
theory Concurrent
  imports Hub Deliveries
begin

text \<open>
  What every interleaving of requests, worker, faults and restarts keeps: each step is shown to keep the
  invariant and the relation of the goroutines, whatever the others did before.
\<close>

section \<open>What every step keeps\<close>

text \<open>The events are what the stored texts say: row by row, the text of the raw message is accepted by the
  parser, and the event has its values and the key of its measurement.\<close>

definition faithful_row :: "(instant \<Rightarrow> instant) \<Rightarrow> event \<Rightarrow> raw_message \<Rightarrow> bool" where
  "faithful_row stamp e m \<longleftrightarrow> (\<exists>now tel. parse_message (rm_text m) now = Inr tel
     \<and> stored_as stamp tel (rm_text m) (telemetry_key tel) e m)"

definition faithful :: "database \<Rightarrow> bool" where
  "faithful d \<longleftrightarrow> list_all2 (faithful_row (db_stamp d)) (db_events d) (db_raws d)"

text \<open>The devices are of the form the service registers.\<close>

definition devices_typed :: "database \<Rightarrow> bool" where
  "devices_typed d \<longleftrightarrow> list_all device_typed (db_devices d)"

definition keeps_typed :: "database \<Rightarrow> database \<Rightarrow> bool" where
  "keeps_typed s t \<longleftrightarrow> (devices_typed s \<longrightarrow> devices_typed t)"

lemma device_typed_updates [simp]:
  "device_typed (d\<lparr>dv_status := st\<rparr>) = device_typed d" "device_typed (d\<lparr>dv_last_seen := l\<rparr>) = device_typed d"
  "device_typed (d\<lparr>dv_updated := u\<rparr>) = device_typed d" "device_typed (d\<lparr>dv_created := u\<rparr>) = device_typed d"
  by (simp_all add: device_typed_def)

interpretation typing: store_relation keeps_typed
  by unfold_locales
     (simp_all add: keeps_typed_def devices_typed_def roll_back_def; fail
      | rule keepsI, auto simp: keeps_typed_def devices_typed_def writing_defs Let_def list_all_iff
          dest!: in_update_rowsD split: if_splits)+

definition sound :: "core \<Rightarrow> bool" where
  "sound c \<longleftrightarrow> schema_ok (rows c) \<and> paired (rows c) \<and> faithful (rows c) \<and> devices_typed (rows c) \<and> accounted (job_part c)"

definition evolves :: "core \<Rightarrow> core \<Rightarrow> bool" where
  "evolves c c' \<longleftrightarrow> history (rows c) (rows c') \<and> prefix (co_log c) (co_log c')"

interpretation goroutine: rely_guarantee evolves sound
  by unfold_locales (auto simp: evolves_def history.R_refl intro: history.R_trans prefix_order.trans)

text \<open>A step of a request other than the commit of an intake.\<close>

definition quiet :: "database \<Rightarrow> database \<Rightarrow> bool" where
  "quiet s t \<longleftrightarrow> schema_step s t \<and> history s t \<and> calm s t \<and> pairing s t \<and> same_server s t \<and> keeps_typed s t"

lemma quietI: "keeps schema_step m \<Longrightarrow> keeps history m \<Longrightarrow> keeps calm m \<Longrightarrow> keeps pairing m
    \<Longrightarrow> keeps same_server m \<Longrightarrow> keeps keeps_typed m \<Longrightarrow> keeps quiet m"
  by (simp add: keeps_def quiet_def)

interpretation quiet: steady_relation quiet
proof unfold_locales
  show "quiet s t \<Longrightarrow> quiet t u \<Longrightarrow> quiet s u" for s t u
    unfolding quiet_def using schema.R_trans history.R_trans calm.R_trans pairing.R_trans server.R_trans typing.R_trans by blast
  show "quiet before db \<Longrightarrow> quiet before (roll_back before db)" for before db
    unfolding quiet_def using schema.R_roll_back history.R_roll_back calm.R_roll_back pairing.R_roll_back server.R_roll_back typing.R_roll_back by blast
  show "quiet s s" for s
    unfolding quiet_def using schema.R_refl history.R_refl calm.R_refl pairing.R_refl server.R_refl typing.R_refl by blast
  show "quiet db (db\<lparr>db_plan := tl (db_plan db)\<rparr>)" for db
    unfolding quiet_def using schema.R_plan history.R_plan calm.R_plan pairing.R_plan server.R_plan typing.R_plan by blast
qed (rule quietI; (rule schema.keeps_rule_statements history.keeps_rule_statements calm.keeps_rule_statements
    pairing.keeps_rule_statements schema.keeps_create_delivery history.keeps_create_delivery
    calm.keeps_create_delivery pairing.keeps_create_delivery server.keeps_rule_statements
    server.keeps_create_delivery typing.keeps_rule_statements typing.keeps_create_delivery; assumption?))+

definition accepts :: "database \<Rightarrow> database \<Rightarrow> bool" where
  "accepts s t \<longleftrightarrow> intake s t \<and> (\<exists>raw now tel. parse_message raw now = Inr tel
     \<and> recorded (db_stamp s) tel raw (telemetry_key tel) s t)"

definition clean :: "database \<Rightarrow> database \<Rightarrow> bool" where
  "clean s t \<longleftrightarrow> schema_step s t \<and> history s t \<and> calm s t \<and> same_server s t \<and> keeps_typed s t
     \<and> (schema_ok s \<longrightarrow> pairing s t \<or> accepts s t)"

lemma quiet_clean: "quiet s t \<Longrightarrow> clean s t"
  by (simp add: quiet_def clean_def)

definition on_rows :: "(database \<Rightarrow> database \<Rightarrow> bool) \<Rightarrow> core \<Rightarrow> core \<Rightarrow> bool" where
  "on_rows R c c' \<longleftrightarrow> co_log c' = co_log c \<and> R (rows c) (rows c')"

lemma every_act: "(\<And>w. on_w_db R w (snd (m w))) \<Longrightarrow> every (on_rows R) (act m)"
  unfolding act_def by (rule every_once) (simp add: on_rows_def through_def on_w_db_def case_prod_beta)

lemma every_keeps: "keeps (on_w_db R) m \<Longrightarrow> every (on_rows R) (act m)"
  by (rule every_act) (simp add: keeps_def)

lemma every_mono:
  assumes "every G t" and "\<And>s u. G s u \<Longrightarrow> H s u"
  shows "every H t"
  using assms(1)
proof (induction t)
  case (Atomic g)
  have "every H (fst (g s))" for s
  proof -
    have "fst (g s) \<in> Basic_BNFs.fsts (g s)" by (cases "g s") simp
    then show ?thesis using Atomic.IH[of "g s" "fst (g s)"] Atomic.prems by auto
  qed
  with Atomic.prems assms(2) show ?case by auto
qed simp

section \<open>The steps of the requests\<close>

context registry_relation
begin

lemmas every_rules = every_then every_each every_keeps keeps_world_rules keeps_registry keeps_registry_cases

lemma every_status: "every (on_rows R) (status_flow at i st)"
  unfolding status_flow_def by (auto intro!: every_rules)

lemma every_search: "every (on_rows R) (search_flow f)"
  unfolding search_flow_def by (auto intro!: every_rules)

lemma every_stats: "every (on_rows R) stats_flow"
  unfolding stats_flow_def by (auto intro!: every_rules)

lemma every_list_deliveries: "every (on_rows R) (list_deliveries_flow i)"
  unfolding list_deliveries_flow_def by (auto intro!: every_rules)

lemma every_duplicate: "every (on_rows R) (duplicate_flow m)"
  unfolding duplicate_flow_def Let_def
  by (auto intro!: every_bind every_keeps keeps_world_rules keeps_registry split: option.split sum.split)

lemma every_after_tx: "every (on_rows R) (after_tx_flow k e)"
  unfolding after_tx_flow_def
  by (auto intro!: every_bind every_keeps keeps_world_rules keeps_registry every_duplicate split: option.split sum.split)

lemma every_write_error: "every (on_rows R) (act (write_error e))"
  by (rule every_act) (simp add: on_w_db_def write_error_def write_json_def R_refl Let_def split: svc_error.split)

lemma every_respond: "every (on_rows R) t \<Longrightarrow> every (on_rows R) (respond_flow st body t)"
  unfolding respond_flow_def by (rule every_bind) (auto intro: every_write_error split: sum.split)

lemma every_body: "(\<And>v. every (on_rows R) (f v)) \<Longrightarrow> every (on_rows R) (body_flow dec z rq f)"
  unfolding body_flow_def by (auto intro: every_keeps keeps_fail_with split: sum.split)

lemma every_write_json: "every (on_rows R) (act (write_json st body))"
  by (rule every_act) (simp add: on_w_db_def write_json_def R_refl)

text \<open>A request authenticates and runs at most one handler.\<close>

lemma every_serve:
  assumes "\<And>ctx e arg. every (on_rows R) (handle_flow sv env ctx rq e arg)"
  shows "every (on_rows R) (serve_flow sv env rq)"
proof -
  have d: "every (on_rows R) (dispatch_request_flow sv env ctx rq)" for ctx
    unfolding dispatch_request_flow_def by (auto intro: assms every_write_json split: routing.split)
  have "every (on_rows R) (act (authenticate a at k rm p))" for a at k rm p
    by (rule every_act) (metis keeps_authenticate prod.collapse)
  then show ?thesis
    unfolding serve_flow_def by (auto intro!: every_bind every_write_json d split: option.split)
qed

end

context rules_relation
begin

lemma every_rule_flows:
  "every (on_rows R) (add_rule_flow ctx now bytes inp)" "every (on_rows R) (change_rule_flow ctx now i inp)"
  "every (on_rows R) (delete_rule_flow ctx now i)"
  unfolding add_rule_flow_def change_rule_flow_def delete_rule_flow_def Let_def
  by (auto intro!: every_then every_keeps keeps_world_rules keeps_rule_statements keeps_in_tx keeps_rules
      split: option.split)

end

context queue_relation
begin

lemma every_replay: "every (on_rows R) (replay_flow now i)"
  unfolding replay_flow_def Let_def
  by (auto intro!: every_then every_each every_keeps keeps_world_rules keeps_registry keeps_fetch_event keeps_new_delivery)

end

context steady_relation
begin

lemma every_handle:
  assumes "e \<noteq> Telemetry"
  shows "every (on_rows R) (handle_flow sv env ctx rq e arg)"
proof -
  have plain: "every (on_rows R) (act (handle sv env ctx rq e arg))" if "e \<noteq> Telemetry" "e \<noteq> ReplayEvent" for e
    using keeps_handle that by (intro every_act) (metis prod.collapse)
  show ?thesis
    using assms plain
    by (cases e)
       (auto simp: handle_flow_def Let_def intro!: every_respond every_body every_then every_keeps every_status every_search
         every_stats every_list_deliveries every_rule_flows every_replay keeps_registry_cases)
qed

end

section \<open>The steps of an intake\<close>

lemma every_clean:
  assumes "every (on_rows quiet) t"
  shows "every (on_rows clean) t"
  using assms by (rule every_mono) (simp add: on_rows_def quiet_clean)

lemma every_intake_tx:
  assumes "parse_message raw now = Inr tel"
  shows "every (on_rows clean) (act (on_db (in_tx Failed (ingest_tx tel raw (telemetry_key tel) ident now))))"
proof (rule every_act)
  fix w
  let ?tx = "on_db (in_tx Failed (ingest_tx tel raw (telemetry_key tel) ident now))"
  obtain r w' where run: "?tx w = (r, w')" by fastforce
  have "on_w_db schema_step w w'" "on_w_db history w w'" "on_w_db calm w w'" "on_w_db same_server w w'"
    "on_w_db keeps_typed w w'"
    using keepsD[OF schema.keeps_on_db[OF schema.keeps_in_tx[OF schema.keeps_ingest_tx]] run]
      keepsD[OF history.keeps_on_db[OF history.keeps_in_tx[OF history.keeps_ingest_tx]] run]
      keepsD[OF calm.keeps_on_db[OF calm.keeps_in_tx[OF calm.keeps_ingest_tx]] run]
      keepsD[OF server.keeps_on_db[OF server.keeps_in_tx[OF server.keeps_ingest_tx]] run]
      keepsD[OF typing.keeps_on_db[OF typing.keeps_in_tx[OF typing.keeps_ingest_tx]] run] by simp_all
  moreover have "pairing (w_db w) (w_db w') \<or> accepts (w_db w) (w_db w')" if "schema_ok (w_db w)"
    using ingest_commit[OF run schema_rules_distinct[OF that]] same_traffic_pairing assms
    unfolding accepts_def by blast
  ultimately show "on_w_db clean w (snd (?tx w))"
    unfolding run by (simp add: on_w_db_def clean_def)
qed

lemma every_quiet: "keeps (on_w_db quiet) m \<Longrightarrow> every (on_rows clean) (act m)"
  by (intro every_clean every_keeps)

lemma every_ingest: "every (on_rows clean) (ingest_flow win now bytes raw)"
  unfolding ingest_flow_def Let_def
  by (auto intro!: every_then every_bind every_quiet every_intake_tx quiet.keeps_world_rules quiet.keeps_registry
      every_clean[OF quiet.every_duplicate] every_clean[OF quiet.every_after_tx] split: sum.split option.split)

lemma every_request: "every (on_rows clean) (serve_flow sv env rq)"
proof -
  have "every (on_rows clean) (handle_flow sv env ctx rq e arg)" for ctx e arg
  proof (cases "e = Telemetry")
    case True
    show ?thesis
      unfolding True handle_flow_def respond_flow_def body_flow_def Let_def
      by (auto intro!: every_bind every_quiet every_ingest quiet.keeps_fail_with every_clean[OF quiet.every_write_error]
          split: sum.split)
  next
    case False
    then show ?thesis by (intro every_clean quiet.every_handle)
  qed
  moreover have "every (on_rows clean) (act (write_json st body))" for st body
    by (intro every_clean quiet.every_write_json)
  moreover have "every (on_rows clean) (act (authenticate a at k rm p))" for a at k rm p
  proof (intro every_clean every_act)
    show "on_w_db quiet w (snd (authenticate a at k rm p w))" for w
      using quiet.keeps_authenticate by (metis prod.collapse)
  qed
  ultimately show ?thesis
    unfolding serve_flow_def dispatch_request_flow_def
    by (auto intro!: every_bind split: option.split routing.split)
qed

lemma faithful_pairing:
  assumes "pairing s t" and "same_server s t" and "faithful s"
  shows "faithful t"
proof -
  have cores: "map event_core (db_events t) = map event_core (db_events s)" and raws: "db_raws t = db_raws s"
    and stamp: "db_stamp t = db_stamp s" using assms(1,2) by (simp_all add: pairing_def same_server_def)
  have core: "faithful_row f e m \<longleftrightarrow> faithful_row f (event_core e) m" for f e m
    by (simp add: faithful_row_def stored_as_def event_core_def)
  have mapped: "list_all2 (faithful_row f) es ms \<longleftrightarrow> list_all2 (faithful_row f) (map event_core es) ms" for f es ms
    by (simp add: list_all2_map1) (metis (no_types, lifting) core list.rel_cong)
  then show ?thesis using assms(3) unfolding faithful_def raws stamp by (metis cores)
qed

lemma faithful_accepts:
  assumes "accepts s t" and "same_server s t" and "faithful s"
  shows "faithful t"
proof -
  obtain e :: event and m raw now tel where t: "db_events t = db_events s @ [e]" "db_raws t = db_raws s @ [m]"
    and p: "parse_message raw now = Inr tel" and st: "stored_as (db_stamp s) tel raw (telemetry_key tel) e m"
    using assms(1) unfolding accepts_def recorded_def by blast
  have "rm_text m = raw" using st by (simp add: stored_as_def)
  with p st have "faithful_row (db_stamp s) e m" by (auto simp: faithful_row_def)
  with assms(2,3) show ?thesis by (simp add: faithful_def t same_server_def list_all2_appendI)
qed

lemma clean_allowed:
  assumes "on_rows clean c c'"
  shows "allowed sound evolves c c'"
  unfolding allowed_def
proof
  assume c: "sound c"
  have r: "schema_step (rows c) (rows c')" "history (rows c) (rows c')" "calm (rows c) (rows c')"
    "pairing (rows c) (rows c') \<or> accepts (rows c) (rows c')" "same_server (rows c) (rows c')"
    "devices_typed (rows c')" and l: "co_log c' = co_log c"
    using assms c by (auto simp: on_rows_def clean_def sound_def keeps_typed_def)
  have "track [] (job_part c) (job_part c')"
    using r l by (intro trackI) (simp_all add: job_part_def)
  moreover have "on_track [] (job_part c)" using c by (simp add: sound_def on_track_def job_part_def)
  ultimately have "on_track [] (job_part c')" by (simp add: track_def)
  moreover have "paired (rows c')"
    using r(4) c paired_step paired_intake by (auto simp: sound_def accepts_def)
  moreover have "faithful (rows c')"
    using r(4,5) c faithful_pairing faithful_accepts by (auto simp: sound_def)
  ultimately show "sound c' \<and> evolves c c'"
    using r l by (simp add: sound_def evolves_def on_track_def job_part_def)
qed

lemma fit_request: "goroutine.fit (serve_flow sv env rq) c"
  using every_request clean_allowed by (intro goroutine.every_fit) (blast intro: every_mono)

section \<open>The steps of the worker\<close>

text \<open>What a worker has read stays true of the rows, and what it has sent stays in the log.\<close>

definition known :: "delivery \<Rightarrow> core \<Rightarrow> bool" where
  "known d c \<longleftrightarrow> delivery_core d \<in> delivery_core ` set (db_deliveries (rows c))"

definition sent :: "delivery \<Rightarrow> core \<Rightarrow> bool" where
  "sent d c \<longleftrightarrow> (\<exists>p. (dl_topic d, p, None) \<in> set (co_log c) \<and> pl_rule_id p = dl_rule_id d
     \<and> pl_event_id p = dl_event_id d)"

lemma known_evolves: "evolves c c' \<Longrightarrow> known d c \<Longrightarrow> known d c'"
  unfolding evolves_def history_def known_def by (metis list.set_map set_mono_prefix subsetD)

lemma sent_evolves: "evolves c c' \<Longrightarrow> sent d c \<Longrightarrow> sent d c'"
  unfolding evolves_def sent_def by (meson set_mono_prefix subsetD)

lemma quiet_statements:
  "keeps quiet (get_event_by_id i)" "keeps quiet (mark_dead n e at)" "keeps quiet (mark_failed n k e at)"
  "keeps quiet (update_event_status i st)" "keeps quiet (list_due_deliveries at l)"
  by (intro quietI calm_statements schema.keeps_work history.keeps_work pairing.keeps_work server.keeps_work typing.keeps_work
      schema.keeps_reads history.keeps_reads pairing.keeps_reads server.keeps_reads typing.keeps_reads
      reading_statements)+

lemma store_call_db:
  assumes "store_call st s = (r, t)"
  obtains d where "exec st (ws_db s) = (r, d)" and "t = s\<lparr>ws_db := d\<rparr>"
  using assms by (auto simp: store_call_def Let_def split: prod.splits)

lemma store_call_quiet:
  assumes "keeps quiet st" and "through job_part put_job (store_call st) c = (r, c')"
  shows "on_rows quiet c c'"
proof -
  obtain r0 t where run: "store_call st (job_part c) = (r0, t)" by fastforce
  then obtain d where e: "exec st (rows c) = (r0, d)" and t: "t = (job_part c)\<lparr>ws_db := d\<rparr>"
    by (rule store_call_db) (simp add: job_part_def)
  have "c' = put_job t c" using assms(2) by (simp add: through_def run)
  with keepsD[OF quiet.keeps_exec[OF assms(1)] e] show ?thesis
    by (simp add: on_rows_def put_job_def job_part_def t)
qed

lemma quiet_allowed: "on_rows quiet c c' \<Longrightarrow> allowed sound evolves c c'"
  by (rule clean_allowed) (simp add: on_rows_def quiet_clean)

lemma fit_store_call:
  assumes "keeps quiet st"
  shows "goroutine.fit (work (store_call st)) c"
  unfolding work_def
  using store_call_quiet[OF assms] by (intro goroutine.every_fit every_once quiet_allowed) (metis prod.collapse)

lemma step_store_call:
  assumes "keeps quiet st" and "through job_part put_job (store_call st) c = (r, c')" and "sound c"
  shows "sound c'" and "evolves c c'"
  using quiet_allowed[OF store_call_quiet[OF assms(1,2)]] assms(3) by (simp_all add: allowed_def)

lemma step_send:
  assumes "through job_part put_job (send sink topic p) c = (r, c')" and "sound c"
  shows "sound c'" and "evolves c c'" and "\<exists>answer. r = Inr answer \<and> (topic, p, answer) \<in> set (co_log c')"
proof -
  obtain a where c': "c' = put_job ((job_part c)\<lparr>ws_log := co_log c @ [(topic, p, a)]\<rparr>) c" and r: "r = Inr a"
    using assms(1) by (auto simp: through_def send_def Let_def job_part_def)
  have same: "rows c' = rows c" "co_log c' = co_log c @ [(topic, p, a)]"
    by (simp_all add: c' put_job_def job_part_def)
  with assms(2) show "sound c'" by (fastforce simp: sound_def accounted_def job_part_def)
  show "evolves c c'" using history.R_refl by (simp add: evolves_def same)
  show "\<exists>answer. r = Inr answer \<and> (topic, p, answer) \<in> set (co_log c')" by (simp add: r same)
qed

lemma fit_delivered:
  assumes "known d c" and "sent d c"
  shows "goroutine.fit (work (store_call (mark_delivered (dl_id d) now))) c"
  unfolding work_def
proof (rule goroutine.fit_once)
  fix u assume u: "evolves c u" "sound u"
  obtain r t where run: "store_call (mark_delivered (dl_id d) now) (job_part u) = (r, t)" by fastforce
  then obtain db where e: "exec (mark_delivered (dl_id d) now) (rows u) = (r, db)" and t: "t = (job_part u)\<lparr>ws_db := db\<rparr>"
    by (rule store_call_db) (simp add: job_part_def)
  obtain p where p: "(dl_topic d, p, None) \<in> set (co_log u)" "pl_rule_id p = dl_rule_id d" "pl_event_id p = dl_event_id d"
    using sent_evolves[OF u(1) assms(2)] by (auto simp: sent_def)
  have "on_track [d] (job_part u)"
    using u(2) known_evolves[OF u(1) assms(1)] by (simp add: on_track_def sound_def known_def job_part_def)
  then have "on_track [d] t"
    by (rule track_delivered[OF _ _ _ _ _ run]) (use p in \<open>simp_all add: job_part_def\<close>)
  moreover have "pairing (rows u) db" "history (rows u) db" "same_server (rows u) db" "keeps_typed (rows u) db"
    using keepsD[OF pairing.keeps_exec[OF pairing.keeps_mark_delivered] e]
      keepsD[OF server.keeps_exec[OF server.keeps_mark_delivered] e]
      keepsD[OF typing.keeps_exec[OF typing.keeps_mark_delivered] e]
      keepsD[OF history.keeps_exec[OF history.keeps_mark_delivered] e] by simp_all
  moreover have "snd (through job_part put_job (store_call (mark_delivered (dl_id d) now)) u) = put_job t u"
    by (simp add: through_def run)
  ultimately show "sound (snd (through job_part put_job (store_call (mark_delivered (dl_id d) now)) u))
      \<and> evolves u (snd (through job_part put_job (store_call (mark_delivered (dl_id d) now)) u))"
    using u(2) paired_step faithful_pairing by (simp add: t sound_def keeps_typed_def evolves_def on_track_def put_job_def job_part_def)
qed

text \<open>A step of the worker, and what it does with the answer.\<close>

lemma fit_work_then:
  assumes "\<And>u r v. evolves c u \<Longrightarrow> sound u \<Longrightarrow> through job_part put_job m u = (r, v) \<Longrightarrow>
      sound v \<and> evolves u v \<and> (\<forall>x. r = Inr x \<longrightarrow> goroutine.fit (f x) v)"
  shows "goroutine.fit (then_flow (work m) f) c"
  unfolding then_flow_def work_def
proof (rule goroutine.fit_step)
  fix u r v assume "evolves c u" "sound u" "through job_part put_job m u = (r, v)"
  from assms[OF this] show "sound v \<and> evolves u v \<and> goroutine.fit (case r of Inl e \<Rightarrow> Done (Inl e) | Inr x \<Rightarrow> f x) v"
    by (auto split: sum.split)
qed

lemma fit_failure: "goroutine.fit (failure_flow opts d ev now err) c"
proof -
  have "goroutine.fit (then_flow (work (store_call (mark_dead (dl_id d) err now))) (\<lambda>_.
      work (store_call (update_event_status (ev_event_id ev) EventDeadLetter)))) c"
  proof (rule fit_work_then)
    fix u r v assume "sound u" "through job_part put_job (store_call (mark_dead (dl_id d) err now)) u = (r, v)"
    then show "sound v \<and> evolves u v \<and> (\<forall>x. r = Inr x \<longrightarrow>
        goroutine.fit (work (store_call (update_event_status (ev_event_id ev) EventDeadLetter))) v)"
      using step_store_call[OF quiet_statements(2)] fit_store_call[OF quiet_statements(4)] by blast
  qed
  then show ?thesis
    using fit_store_call[OF quiet_statements(3)] by (simp add: failure_flow_def Let_def)
qed

lemma fit_dispatch:
  assumes "known d c"
  shows "goroutine.fit (dispatch_flow opts sink now d) c"
  unfolding dispatch_flow_def
proof (rule fit_work_then)
  fix u r v assume cu: "evolves c u" "sound u"
    and run: "through job_part put_job (store_call (get_event_by_id (dl_event_id d))) u = (r, v)"
  note step = step_store_call[OF quiet_statements(1) run cu(2)]
  have id: "ev_event_id ev = dl_event_id d" if "r = Inr (Some ev)" for ev
    using run that by (auto simp: through_def intro: store_call_event split: prod.splits)
  have "goroutine.fit (then_flow (work (send sink (dl_topic d) (payload_of ev d))) (\<lambda>answer.
      case answer of Some err \<Rightarrow> failure_flow opts d ev now err
      | None \<Rightarrow> then_flow (work (store_call (mark_delivered (dl_id d) now))) (\<lambda>_.
          work (store_call (update_event_status (ev_event_id ev) EventDispatched))))) v" if ev: "r = Inr (Some ev)" for ev
  proof (rule fit_work_then)
    fix x a y assume vx: "evolves v x" "sound x" and s: "through job_part put_job (send sink (dl_topic d) (payload_of ev d)) x = (a, y)"
    have known: "known d y" using assms cu(1) step(2) vx(1) step_send(2)[OF s vx(2)] known_evolves by blast
    have log: "sent d y" if "a = Inr None"
      using step_send(3)[OF s vx(2)] that id[OF ev] by (auto simp: sent_def payload_of_def intro!: exI[of _ "payload_of ev d"])
    have accepted: "goroutine.fit (then_flow (work (store_call (mark_delivered (dl_id d) now))) (\<lambda>_.
        work (store_call (update_event_status (ev_event_id ev) EventDispatched)))) y" if "a = Inr None"
    proof (rule fit_work_then)
      fix p q z assume yp: "evolves y p" "sound p" and m: "through job_part put_job (store_call (mark_delivered (dl_id d) now)) p = (q, z)"
      have "sound z \<and> evolves p z"
        using fit_delivered[OF known log[OF that], of now] yp m
        by (auto simp: work_def once_def dest!: goroutine.fit_Atomic[THEN iffD1] spec[of _ p])
      then show "sound z \<and> evolves p z \<and> (\<forall>x. q = Inr x \<longrightarrow>
          goroutine.fit (work (store_call (update_event_status (ev_event_id ev) EventDispatched))) z)"
        using fit_store_call[OF quiet_statements(4)] by blast
    qed
    show "sound y \<and> evolves x y \<and> (\<forall>b. a = Inr b \<longrightarrow> goroutine.fit (case b of Some err \<Rightarrow> failure_flow opts d ev now err
      | None \<Rightarrow> then_flow (work (store_call (mark_delivered (dl_id d) now))) (\<lambda>_.
          work (store_call (update_event_status (ev_event_id ev) EventDispatched)))) y)"
      using step_send(1,2)[OF s vx(2)] accepted fit_failure by (auto split: option.split simp del: fit_task.simps)
  qed
  then show "sound v \<and> evolves u v \<and> (\<forall>found. r = Inr found \<longrightarrow> goroutine.fit (case found of
       None \<Rightarrow> work (store_call (mark_dead (dl_id d) ''event not found'' now))
     | Some ev \<Rightarrow>
         if \<not> marshals ev then Done (Inl (Refused ''json: unsupported payload''))
         else then_flow (work (send sink (dl_topic d) (payload_of ev d))) (\<lambda>answer.
           case answer of
             Some err \<Rightarrow> failure_flow opts d ev now err
           | None \<Rightarrow>
               then_flow (work (store_call (mark_delivered (dl_id d) now))) (\<lambda>_.
               work (store_call (update_event_status (ev_event_id ev) EventDispatched))))) v)"
    using step fit_store_call[OF quiet_statements(2)] by (auto split: option.split)
qed

lemma fit_batch:
  assumes "\<forall>d \<in> set due. known d c" and "sound c"
  shows "goroutine.fit (each_flow (dispatch_flow opts sink now) due) c"
  using assms
proof (induction due arbitrary: c)
  case (Cons d due)
  have "goroutine.fit (each_flow (dispatch_flow opts sink now) due) u" if "evolves c u" "sound u" for u
    using Cons.IH[of u] Cons.prems(1) that known_evolves by auto
  then show ?case
    unfolding each_flow.simps then_flow_def
    using Cons.prems by (intro goroutine.fit_bind fit_dispatch) (auto split: sum.split)
qed simp

lemma fit_pass: "goroutine.fit (pass_flow opts sink now) c"
  unfolding pass_flow_def
proof (rule fit_work_then)
  fix u r v assume "evolves c u" "sound u"
    and run: "through job_part put_job (store_call (list_due_deliveries now (op_batch opts))) u = (r, v)"
  have "known d v" if "r = Inr due" "d \<in> set due" for due d
  proof -
    obtain t where l: "store_call (list_due_deliveries now (op_batch opts)) (job_part u) = (Inr due, t)" and v: "v = put_job t u"
      using run \<open>r = Inr due\<close> by (auto simp: through_def split: prod.splits)
    show ?thesis using list_due_Inr(1,2)[OF l] that(2) by (auto simp: known_def v put_job_def job_part_def)
  qed
  then show "sound v \<and> evolves u v \<and> (\<forall>due. r = Inr due \<longrightarrow> goroutine.fit (each_flow (dispatch_flow opts sink now) due) v)"
    using step_store_call[OF quiet_statements(5) run \<open>sound u\<close>] fit_batch by blast
qed

section \<open>What every interleaving keeps\<close>

lemma fit_advance:
  assumes "sound c" and "goroutine.fit t c" and "advance t c = (t', c')"
  shows "sound c' \<and> evolves c c' \<and> goroutine.fit t' c'"
  using assms goroutine.R_refl[of c] by (cases t) (auto simp: advance_def)

interpretation turns: schedule evolves app sound goroutine.fit goroutine.fit for app
proof unfold_locales
  show "sound (with_plan plan c) \<and> evolves c (with_plan plan c)" if "sound c" for c plan
    using that by (simp add: sound_def evolves_def history_def with_plan_def schema_plan paired_def
        faithful_def devices_typed_def accounted_def job_part_def)
  show "sound (restarted c) \<and> evolves c (restarted c)" if "sound c" for c
    using that history.R_refl by (simp add: sound_def evolves_def restarted_def accounted_def job_part_def)
qed (rule fit_advance fit_request fit_pass; assumption | erule (1) goroutine.fit_stable | simp)+

lemma turns_sound:
  assumes "takes_turns app h t" and "idle h" and "sound (hb_core h)"
  shows "sound (hb_core t)" and "evolves (hb_core h) (hb_core t)"
  using turns.turns_keep[OF assms] by (simp_all add: turns.all_ok_def)

text \<open>A turn of every kind, from the sample database: a message arrives, the worker begins a pass and the two
  go on in turns, with one statement that fails; then the process is started again and the message is repeated.\<close>

definition sample_hub :: hub where
  "sample_hub = \<lparr>hb_core = \<lparr>co_world = sample_world, co_log = []\<rparr>, hb_requests = [], hb_pass = Done (Inr ())\<rparr>"

definition sample_turns :: hub where
  "sample_turns = (let h = run_request 0 (run_worker sample_app 9
       (arrive sample_app [] (sample_env\<lparr>en_now := 0\<rparr>) sample_post sample_hub)) in
     arrive sample_app [] (sample_env\<lparr>en_now := 1\<rparr>) sample_post (restart (run_request 0 (run_worker sample_app 9
       (h\<lparr>hb_core := with_plan [None, Some (FailAfter (Refused ''timeout''))] (hb_core h)\<rparr>)))))"

lemma sample_turns_taken: "takes_turns sample_app sample_hub sample_turns"
  unfolding sample_turns_def Let_def by (intro takes_turns_step takes_turns_refl)

lemma sample_hub_ok: "idle sample_hub" "sound (hb_core sample_hub)"
proof -
  show "idle sample_hub" by (simp add: idle_def sample_hub_def)
  have "schema_ok sample_db" "db_events sample_db = []" "db_raws sample_db = []" "db_deliveries sample_db = []"
    using sample_system_ok by (simp_all add: sample_system_def sample_world_def)
  then show "sound (hb_core sample_hub)"
    by (simp add: sound_def sample_hub_def sample_world_def paired_def faithful_def accounted_def job_part_def
        devices_typed_def device_typed_def device_id_re_def sample_db_def empty_database_def sample_device_def id_char_def)
qed





text \<open>C14. What is marked as dispatched was accepted by the sink for its topic, rule and event, with requests
  served between any two statements of the worker.\<close>

theorem interleaved_deliveries_were_made:
  assumes "takes_turns app h t" and "idle h" and "sound (hb_core h)"
  shows "accounted (job_part (hb_core t))"
  using turns_sound(1)[OF assms] by (simp add: sound_def)

theorem interleaved_deliveries_were_made_witness:
  "accounted (job_part (hb_core sample_turns))"
  using interleaved_deliveries_were_made[OF sample_turns_taken sample_hub_ok] .

text \<open>C12. The store says what the devices said: whatever the schedule and the faults, the events and the raw
  messages correspond row by row; the text of each raw message is accepted by the parser, and the
  event has exactly the device, the metric, the value and the unit read from it, its time to the
  precision of the database, and the key of this measurement.\<close>

theorem interleaved_events_are_what_was_sent:
  assumes "takes_turns app h t" and "idle h" and "sound (hb_core h)"
  shows "list_all2 (\<lambda>e m. \<exists>now tel. parse_message (rm_text m) now = Inr tel
      \<and> stored_as (db_stamp (rows (hb_core t))) tel (rm_text m) (telemetry_key tel) e m)
    (db_events (rows (hb_core t))) (db_raws (rows (hb_core t)))"
  using turns_sound(1)[OF assms]
  by (auto simp: sound_def faithful_def faithful_row_def elim!: list.rel_mono_strong)

theorem interleaved_events_are_what_was_sent_witness:
  "list_all2 (\<lambda>e m. \<exists>now tel. parse_message (rm_text m) now = Inr tel
      \<and> stored_as (db_stamp (rows (hb_core sample_turns))) tel (rm_text m) (telemetry_key tel) e m)
    (db_events (rows (hb_core sample_turns))) (db_raws (rows (hb_core sample_turns)))"
  using interleaved_events_are_what_was_sent[OF sample_turns_taken sample_hub_ok] .

text \<open>The form of an event: a whitelisted metric and a number within its range.\<close>

definition event_typed :: "event \<Rightarrow> bool" where
  "event_typed e \<longleftrightarrow> device_id_re (ev_device e) \<and> is_finite (ev_value e)
     \<and> (case metric_ranges (ev_metric e) of None \<Rightarrow> False
        | Some (lo, hi) \<Rightarrow> \<not> flt (ev_value e) lo \<and> \<not> flt hi (ev_value e))"

lemma faithful_row_typed: "faithful_row f e m \<Longrightarrow> event_typed e"
  by (auto simp: faithful_row_def stored_as_def event_typed_def device_id_re_def parse_message_Inr)

text \<open>C13. The rows are well-formed, whatever the schedule and the faults: every event has a whitelisted metric, a
  finite value within the range of this metric and a device id of the right form; every device has an
  id of the right form, a name and a protocol version.\<close>

theorem interleaved_rows_are_well_formed:
  assumes "takes_turns app h t" and "idle h" and "sound (hb_core h)"
  shows "list_all event_typed (db_events (rows (hb_core t)))
    \<and> list_all device_typed (db_devices (rows (hb_core t)))"
proof -
  have "sound (hb_core t)" using assms by (rule turns_sound)
  then have d: "list_all device_typed (db_devices (rows (hb_core t)))"
    and f: "list_all2 (faithful_row (db_stamp (rows (hb_core t)))) (db_events (rows (hb_core t))) (db_raws (rows (hb_core t)))"
    by (simp_all add: sound_def devices_typed_def faithful_def)
  from f have "list_all event_typed (db_events (rows (hb_core t)))"
    by (induction rule: list_all2_induct) (auto dest: faithful_row_typed)
  with d show ?thesis by blast
qed

theorem interleaved_rows_are_well_formed_witness:
  "list_all event_typed (db_events (rows (hb_core sample_turns)))
    \<and> list_all device_typed (db_devices (rows (hb_core sample_turns)))"
  using interleaved_rows_are_well_formed[OF sample_turns_taken sample_hub_ok] .

end
