(* ===== verification/Answers.thy ===== *)
theory Answers
  imports Concurrent
begin

text \<open>
  The answers of requests served at the same time: code, message and status of an error are always
  those of one predeclared error, though its details may be those of another request.
\<close>

section \<open>What a task answers\<close>

text \<open>\<open>yields I P t\<close>: as long as every goroutine keeps \<open>I\<close>, so does the task, and its result has \<open>P\<close>.\<close>

primrec yields :: "('s \<Rightarrow> bool) \<Rightarrow> ('a \<Rightarrow> bool) \<Rightarrow> ('s, 'a) task \<Rightarrow> bool" where
  "yields I P (Done x) = P x"
| "yields I P (Atomic g) = (\<forall>s. I s \<longrightarrow> I (snd (g s)) \<and> fst ((map_prod (yields I P) id \<circ> g) s))"

lemma yields_once: "(\<And>s. I s \<Longrightarrow> I (snd (m s)) \<and> P (fst (m s))) \<Longrightarrow> yields I P (once m)"
  by (simp add: once_def case_prod_beta)

lemma yields_bind: "yields I Q t \<Longrightarrow> (\<And>x. Q x \<Longrightarrow> yields I P (f x)) \<Longrightarrow> yields I P (bind_task t f)"
proof (induction t)
  case (Atomic g)
  have "I (snd (g s)) \<and> yields I P (bind_task (fst (g s)) f)" if "I s" for s
  proof -
    have "fst (g s) \<in> Basic_BNFs.fsts (g s)" by (cases "g s") simp
    then show ?thesis using Atomic.IH[of "g s" "fst (g s)"] Atomic.prems that by auto
  qed
  then show ?case by simp
qed simp

lemma every_yields: "every (\<lambda>s t. I s \<longrightarrow> I t) t \<Longrightarrow> yields I (\<lambda>_. True) t"
proof (induction t)
  case (Atomic g)
  have "yields I (\<lambda>_. True) (fst (g s))" for s
  proof -
    have "fst (g s) \<in> Basic_BNFs.fsts (g s)" by (cases "g s") simp
    then show ?thesis using Atomic.IH[of "g s" "fst (g s)"] Atomic.prems by auto
  qed
  with Atomic.prems show ?case by auto
qed simp

lemma every_bind_yields:
  assumes "every G t" and "yields (\<lambda>_. True) Q t" and "\<And>x. Q x \<Longrightarrow> every G (f x)"
  shows "every G (bind_task t f)"
  using assms
proof (induction t)
  case (Atomic g)
  have "every G (bind_task (fst (g s)) f)" for s
  proof -
    have "fst (g s) \<in> Basic_BNFs.fsts (g s)" by (cases "g s") simp
    then show ?thesis using Atomic.IH[of "g s" "fst (g s)"] Atomic.prems by auto
  qed
  with Atomic.prems(1) show ?case by (simp add: every_Atomic)
qed simp

lemma yields_advance: "yields I P t \<Longrightarrow> I s \<Longrightarrow> advance t s = (t', s') \<Longrightarrow> I s' \<and> yields I P t'"
  by (cases t) (auto simp: advance_def)

section \<open>Relations the database does not matter for\<close>

definition on_world :: "(world \<Rightarrow> world \<Rightarrow> bool) \<Rightarrow> core \<Rightarrow> core \<Rightarrow> bool" where
  "on_world R c c' \<longleftrightarrow> R (co_world c) (co_world c')"

lemma every_world: "keeps R m \<Longrightarrow> every (on_world R) (act m)"
  unfolding act_def by (rule every_once) (simp add: on_world_def through_def keeps_def case_prod_beta)

context process_relation
begin

lemma every_use_cases:
  "every (on_world R) (status_flow at i st)" "every (on_world R) (search_flow f)" "every (on_world R) stats_flow"
  "every (on_world R) (list_deliveries_flow i)" "every (on_world R) (replay_flow now i)"
  "every (on_world R) (add_rule_flow ctx now bytes inp)" "every (on_world R) (change_rule_flow ctx now i inp)"
  "every (on_world R) (delete_rule_flow ctx now i)"
  unfolding status_flow_def search_flow_def stats_flow_def list_deliveries_flow_def replay_flow_def
    add_rule_flow_def change_rule_flow_def delete_rule_flow_def Let_def
  by (auto intro!: every_then every_each every_world use_case_rules use_cases split: option.split)

lemma every_duplicate_flow: "every (on_world R) (duplicate_flow m)"
  unfolding duplicate_flow_def Let_def
  by (auto intro!: every_bind every_world keeps_call split: option.split sum.split)

lemma every_ingest_flow: "every (on_world R) (ingest_flow win now bytes raw)"
  unfolding ingest_flow_def after_tx_flow_def Let_def
  by (auto intro!: every_bind every_then every_world use_case_rules every_duplicate_flow split: option.split sum.split)

lemma every_body_flow: "(\<And>v. every (on_world R) (f v)) \<Longrightarrow> every (on_world R) (body_flow dec z rq f)"
  unfolding body_flow_def by (auto intro: every_world fail_with_kept split: sum.split)

lemma every_authenticate: "every (on_world R) (act (authenticate a at k rm p))"
  unfolding act_def
  by (rule every_once) (simp add: on_world_def through_def case_prod_beta, metis authenticate_kept prod.collapse)

end

section \<open>Error answers\<close>

abbreviation objects_ok :: "core \<Rightarrow> bool" where
  "objects_ok c \<equiv> heap_ok (w_errors (co_world c))"

lemma heap_yields:
  assumes "every (on_world heap_step) t"
  shows "yields objects_ok (\<lambda>_. True) t"
  using assms by (intro every_yields) (erule every_mono, simp add: on_world_def heap_step_def)

lemma yields_respond:
  assumes "every (on_world heap_step) t" and "\<And>x. plain_reply (body x)"
  shows "yields objects_ok error_reply_ok (respond_flow st body t)"
  unfolding respond_flow_def
proof (rule yields_bind[OF heap_yields[OF assms(1)]])
  have "yields objects_ok error_reply_ok (act (write_error e))" for e
    unfolding act_def
    by (rule yields_once) (use write_error_ok in \<open>simp add: through_def case_prod_beta, metis prod.collapse\<close>)
  then show "yields objects_ok error_reply_ok (case r of Inl e \<Rightarrow> act (write_error e)
      | Inr x \<Rightarrow> Done \<lparr>rs_status = st x, rs_reply = body x\<rparr>)" for r
    using assms(2) by (auto intro: write_json_ok split: sum.split)
qed

lemma yields_handler:
  assumes "\<And>w rs w'. heap_ok (w_errors w) \<Longrightarrow> h w = (rs, w') \<Longrightarrow> heap_ok (w_errors w') \<and> error_reply_ok rs"
  shows "yields objects_ok error_reply_ok (act h)"
  unfolding act_def
  by (rule yields_once) (use assms in \<open>simp add: through_def case_prod_beta, metis prod.collapse\<close>)

lemma yields_handle: "yields objects_ok error_reply_ok (handle_flow sv env ctx rq e arg)"
proof -
  have plain: "yields objects_ok error_reply_ok (act (handle sv env ctx rq e arg))" for e
    by (rule yields_handler) (rule handle_ok)
  show ?thesis
    unfolding handle_flow_def Let_def
    by (cases e)
       (auto intro!: yields_respond plain heap.every_body_flow every_world heap.use_cases heap.fail_with_kept
         every_then heap.every_use_cases heap.every_ingest_flow simp: plain_reply_def)
qed

lemma yields_serve: "yields objects_ok error_reply_ok (serve_flow sv env rq)"
proof -
  have json: "yields objects_ok error_reply_ok (act (write_json st body))" if "plain_reply body" for st body
    by (rule yields_handler) (use that in \<open>auto simp: write_json_def intro: write_json_ok\<close>)
  have d: "yields objects_ok error_reply_ok (dispatch_request_flow sv env ctx rq)" for ctx
    unfolding dispatch_request_flow_def
    by (auto intro!: json yields_handle simp: plain_reply_def split: routing.split)
  show ?thesis
    unfolding serve_flow_def
    by (auto intro!: d json yields_bind[OF heap_yields[OF heap.every_authenticate]] simp: plain_reply_def
        split: option.split)
qed

text \<open>The worker does not use the error objects.\<close>

definition same_objects :: "core \<Rightarrow> core \<Rightarrow> bool" where
  "same_objects c c' \<longleftrightarrow> w_errors (co_world c') = w_errors (co_world c)"

lemma every_work: "every same_objects (work m)"
  unfolding work_def by (rule every_once) (simp add: same_objects_def through_def put_job_def case_prod_beta)

lemma every_pass: "every same_objects (pass_flow opts sink now)"
  unfolding pass_flow_def dispatch_flow_def failure_flow_def Let_def
  by (auto intro!: every_then every_each every_work split: option.split)

lemma heap_ok_initial: "heap_ok initial_error"
  by (simp add: heap_ok_def)

interpretation answers: schedule "\<lambda>_ _. True" app objects_ok "\<lambda>t _. yields objects_ok error_reply_ok t"
  "\<lambda>p _. every same_objects p" for app
proof unfold_locales
  show "objects_ok c' \<and> True \<and> every same_objects p'"
    if "objects_ok c" "every same_objects p" "advance p c = (p', c')" for c p p' c'
    using that by (cases p) (auto simp: advance_def same_objects_def dest!: spec[of _ c])
qed (auto simp: with_plan_def restarted_def heap_ok_initial intro: yields_serve every_pass dest: yields_advance)

text \<open>C34. Error answers, whatever requests are served at the same time, in whatever order their statements
  run and whichever of them fail: an error answer carries a predeclared code with its own message and
  its own status (500 for a code declared with 200), and every other error is answered with 500.\<close>

theorem interleaved_errors_are_canonical:
  assumes "takes_turns app h t" and "idle h" and "heap_ok (w_errors (co_world (hb_core h)))"
    and "Done rs \<in> set (hb_requests t)"
  shows "error_reply_ok rs"
  using answers.turns_keep[OF assms(1-3)] assms(4) by (auto simp: answers.all_ok_def)

section \<open>One error object for every request\<close>

text \<open>A message whose body is no JSON, for the reason \<open>m\<close>.\<close>

definition broken_request :: "string \<Rightarrow> request" where
  "broken_request m = \<lparr>rq_method = ''POST'', rq_target = ''/api/v1/telemetry'', rq_query = [],
     rq_api_key = [], rq_remote = [], rq_body = BadText m\<rparr>"

lemma find_handler_cong:
  "rq_method rq = rq_method rq' \<Longrightarrow> rq_target rq = rq_target rq' \<Longrightarrow> find_handler b rq = find_handler b rq'"
  unfolding find_handler_def url_path_def by (simp only:)

lemma broken_found: "find_handler True (broken_request m) = Found Telemetry []"
proof -
  have "find_handler True (broken_request m) = find_handler True (broken_request [])"
    by (rule find_handler_cong) (simp_all add: broken_request_def)
  also have "\<dots> = Found Telemetry []" by code_simp
  finally show ?thesis .
qed

lemma broken_refused:
  assumes "sv_auth sv = None" and "sv_metrics sv = Some page"
  shows "serve_flow sv env (broken_request m)
    = respond_flow (\<lambda>res. if tr_duplicate res then 200 else 201) Ingestion
        (act (fail_with ErrInvalidField (DecodeDetail (Malformed m))))"
  using assms broken_found[of m]
  by (simp add: serve_flow_def dispatch_request_flow_def handle_flow_def body_flow_def decode_json_def)
     (simp add: broken_request_def)

theorem interleaved_errors_are_canonical_witness:
  "\<exists>t rs. takes_turns sample_app sample_hub t \<and> Done rs \<in> set (hb_requests t) \<and> error_reply_ok rs"
proof -
  let ?sv = "(ap_server sample_app)\<lparr>sv_metrics := Some []\<rparr>"
  let ?t = "run_request 0 (run_request 0 (arrive sample_app [] sample_env (broken_request ''EOF'') sample_hub))"
  have "serve_flow ?sv sample_env (broken_request ''EOF'') = respond_flow (\<lambda>res. if tr_duplicate res then 200 else 201)
      Ingestion (act (fail_with ErrInvalidField (DecodeDetail (Malformed ''EOF''))))"
    by (rule broken_refused) (simp_all add: sample_app_def)
  then obtain rs where answered: "hb_requests ?t = [Done rs]"
    by (simp add: run_request_def arrive_def sample_hub_def advance_def respond_flow_def act_def once_def through_def
        fail_with_def case_prod_beta)
  have turns: "takes_turns sample_app sample_hub ?t" by (intro takes_turns_step takes_turns_refl)
  moreover have "Done rs \<in> set (hb_requests ?t)" by (simp add: answered)
  moreover have "heap_ok (w_errors (co_world (hb_core sample_hub)))"
    by (simp add: sample_hub_def sample_world_def heap_ok_initial)
  ultimately show ?thesis using interleaved_errors_are_canonical sample_hub_ok(1) by blast
qed

text \<open>What a client is told, if its request is answered with an error.\<close>

fun told :: "(core, response) task \<Rightarrow> detail option" where
  "told (Done rs) = (case rs_reply rs of ErrorReply _ _ d \<Rightarrow> d | _ \<Rightarrow> None)"
| "told (Atomic g) = None"

lemma advance_refused:
  assumes "advance (respond_flow st body (act (fail_with e d))) c = (t, c')"
  shows "t = act (write_error (Domain e)) \<and> err_details (w_errors (co_world c') e) = Some d
    \<and> (\<forall>n. n \<noteq> e \<longrightarrow> w_errors (co_world c') n = w_errors (co_world c) n)"
  using assms
  by (auto simp: advance_def respond_flow_def act_def once_def through_def fail_with_def with_details_def)

lemma advance_write_error:
  "told (fst (advance (act (write_error (Domain e))) c)) = err_details (w_errors (co_world c) e)"
  by (simp add: advance_def act_def once_def through_def write_error_def write_json_def Let_def)



end
