(* ===== verification/Operators.thy ===== *)
theory Operators
  imports Answers
begin

text \<open>
  From the configured keys to the change log, with requests served at the same time: every entry that
  is ever added names an operator of the configuration.
\<close>

text \<open>\<open>named ops s t\<close>: between \<open>s\<close> and \<open>t\<close> the change log has grown by entries of these operators.\<close>

definition named :: "string set \<Rightarrow> database \<Rightarrow> database \<Rightarrow> bool" where
  "named ops s t \<longleftrightarrow> (\<exists>new. db_changes t = db_changes s @ new \<and> list_all (\<lambda>c. cl_operator c \<in> ops) new)"

lemma named_same: "db_changes t = db_changes s \<Longrightarrow> named ops s t"
  by (simp add: named_def)

lemma named_trans: "named ops s t \<Longrightarrow> named ops t u \<Longrightarrow> named ops s u"
  by (fastforce simp: named_def)

interpretation named: traffic_relation "named ops" for ops
proof unfold_locales
  show "named ops s t \<Longrightarrow> named ops t u \<Longrightarrow> named ops s u" for s t u by (rule named_trans)
qed (simp add: named_same roll_back_def; fail
  | rule keepsI, rule named_same, auto simp: writing_defs Let_def split: if_splits)+

lemma named_rule_statements:
  "keeps (named ops) (create_rule r)" "keeps (named ops) (update_rule r)" "keeps (named ops) (soft_delete i at)"
  by (rule keepsI, rule named_same, auto simp: writing_defs Let_def split: if_splits)+

lemma named_append_change: "cl_operator c \<in> ops \<Longrightarrow> keeps (named ops) (append_change c)"
  by (rule keepsI) (auto simp: named_def append_change_def Let_def split: if_splits)

lemma every_named_rules:
  assumes "operator_from ctx \<in> ops"
  shows "every (on_rows (named ops)) (add_rule_flow ctx now bytes inp)"
    and "every (on_rows (named ops)) (change_rule_flow ctx now i inp)"
    and "every (on_rows (named ops)) (delete_rule_flow ctx now i)"
  using assms unfolding add_rule_flow_def change_rule_flow_def delete_rule_flow_def Let_def
  by (auto intro!: every_then every_keeps named.keeps_world_rules named.keeps_registry named_rule_statements
      named_append_change named.keeps_in_tx named.keeps_rules split: option.split)

lemma every_named_ingest: "every (on_rows (named ops)) (ingest_flow win now bytes raw)"
  unfolding ingest_flow_def Let_def
  by (auto intro!: every_then every_bind every_keeps named.keeps_world_rules named.keeps_registry named.keeps_in_tx
      named.keeps_ingest_tx named.every_duplicate named.every_after_tx split: option.split sum.split)

lemma every_named_handle:
  assumes "mutating e \<Longrightarrow> operator_from ctx \<in> ops"
  shows "every (on_rows (named ops)) (handle_flow sv env ctx rq e arg)"
proof -
  have plain: "every (on_rows (named ops)) (act (handle sv env ctx rq e arg))" if "\<not> mutating e" for e
  proof (rule every_act)
    fix w
    show "on_w_db (named ops) w (snd (handle sv env ctx rq e arg w))"
      using reading_endpoint[OF _ that] by (metis named_same on_w_db_def prod.collapse same_tables_def)
  qed
  show ?thesis
    using assms plain[of e]
    by (cases e)
       (auto simp: handle_flow_def mutating_def Let_def intro!: named.every_respond named.every_body every_then every_keeps
         named.every_status named.every_search named.every_stats named.every_list_deliveries named.every_replay
         every_named_rules every_named_ingest named.keeps_registry_cases named.keeps_fail_with)
qed

lemma every_named_dispatch:
  assumes "\<And>e vs. find_handler (sv_metrics sv \<noteq> None) rq = Found e vs \<Longrightarrow> mutating e \<Longrightarrow> operator_from ctx \<in> ops"
  shows "every (on_rows (named ops)) (dispatch_request_flow sv env ctx rq)"
  using assms unfolding dispatch_request_flow_def
  by (auto intro: every_named_handle named.every_write_json split: routing.split)

lemma yields_authenticate: "yields (\<lambda>_. True) (\<lambda>r. \<forall>op. r = Some op \<longrightarrow> (\<exists>i e. (i, e) \<in> set keys \<and> op = ke_operator e))
    (act (authenticate (new_auth keys b) at k rm p))"
  unfolding act_def
  by (rule yields_once) (simp add: through_def case_prod_beta, metis authenticated_operator prod.collapse)

lemma every_named_serve:
  assumes auth: "wire_auth spec = Inr (sv_auth sv)"
  shows "every (on_rows (named (set (operators_of spec)))) (serve_flow sv env rq)"
proof (cases "sv_auth sv")
  case None
  with auth have "operator_from None \<in> set (operators_of spec)"
    by (auto simp: wire_auth_def operators_of_def operator_from_def split: if_splits sum.splits)
  then show ?thesis by (simp add: serve_flow_def None every_named_dispatch)
next
  case (Some a)
  then obtain keys where keys: "spec \<noteq> []" "parse_key_pairs spec = Inr keys" "a = new_auth keys True"
    using auth by (auto simp: wire_auth_def split: if_splits sum.splits)
  let ?Q = "\<lambda>r. \<forall>op. r = Some op \<longrightarrow> (\<exists>i e. (i, e) \<in> set keys \<and> op = ke_operator e)"
  have known: "operator_from (Some op) \<in> set (operators_of spec)" if "?Q (Some op)" for op
    using that keys(1,2) by (force simp: operators_of_def)
  have au: "every (on_rows (named (set (operators_of spec)))) (act (authenticate a at k rm p))" for at k rm p
    by (rule every_act) (metis named.keeps_authenticate prod.collapse)
  have "every (on_rows (named (set (operators_of spec))))
      (bind_task (act (authenticate a (en_auth_now env) (rq_api_key rq) (rq_remote rq) (url_path rq)))
        (\<lambda>op. case op of None \<Rightarrow> act write_unauthorized | Some operator \<Rightarrow> dispatch_request_flow sv env (Some operator) rq))"
  proof (rule every_bind_yields[OF au])
    show "yields (\<lambda>_. True) ?Q (act (authenticate a (en_auth_now env) (rq_api_key rq) (rq_remote rq) (url_path rq)))"
      unfolding keys(3) by (rule yields_authenticate)
  qed (auto intro: every_named_dispatch known named.every_write_json split: option.split)
  moreover have "every (on_rows (named (set (operators_of spec)))) (dispatch_request_flow sv env None rq)"
    if "\<not> requires_auth rq"
    using that mutating_needs_auth by (intro every_named_dispatch) blast
  ultimately show ?thesis by (simp add: serve_flow_def Some del: write_unauthorized_def)
qed

section \<open>The process\<close>

definition named_step :: "string set \<Rightarrow> core \<Rightarrow> core \<Rightarrow> bool" where
  "named_step ops c c' \<longleftrightarrow> named ops (rows c) (rows c')"

lemma every_named_request:
  assumes "wire_auth spec = Inr (sv_auth sv)"
  shows "every (named_step (set (operators_of spec))) (serve_flow sv env rq)"
  using every_named_serve[OF assms] by (rule every_mono) (simp add: on_rows_def named_step_def)

lemma every_named_work:
  assumes "keeps (on_ws_db (named ops)) m"
  shows "every (named_step ops) (work m)"
  unfolding work_def
proof (rule every_once)
  fix c
  obtain r t where run: "m (job_part c) = (r, t)" by fastforce
  have "snd (through job_part put_job m c) = put_job t c" by (simp add: through_def run)
  with keepsD[OF assms run] show "named_step ops c (snd (through job_part put_job m c))"
    by (simp add: named_step_def on_ws_db_def job_part_def put_job_def)
qed

lemma every_named_pass: "every (named_step ops) (pass_flow opts sink now)"
  unfolding pass_flow_def dispatch_flow_def failure_flow_def Let_def
  by (auto intro!: every_then every_each every_named_work named.keeps_store_call named.keeps_work named.keeps_send
      split: option.split)

lemma named_advance:
  assumes "every (named_step ops) t" and "advance t c = (t', c')"
  shows "True \<and> named_step ops c c' \<and> every (named_step ops) t'"
  using assms by (cases t) (auto simp: advance_def named_step_def named_same dest!: spec[of _ c])

lemma named_step_rows: "db_changes (rows c') = db_changes (rows c) \<Longrightarrow> named_step ops c c'"
  by (simp add: named_step_def named_same)

lemma named_schedule:
  assumes "wire_auth spec = Inr (sv_auth (ap_server app))"
  shows "schedule (named_step (set (operators_of spec))) app (\<lambda>_. True)
    (\<lambda>t _. every (named_step (set (operators_of spec))) t) (\<lambda>p _. every (named_step (set (operators_of spec))) p)"
proof unfold_locales
  let ?ops = "set (operators_of spec)"
  show "named_step ?ops c c" for c by (simp add: named_step_rows)
  show "named_step ?ops c u" if "named_step ?ops c d" "named_step ?ops d u" for c d u
    using that unfolding named_step_def by (rule named_trans)
  show "every (named_step ?ops) (serve_flow ((ap_server app)\<lparr>sv_metrics := Some page\<rparr>) env rq)" for page env rq
    by (rule every_named_request) (simp add: assms)
  show "True \<and> named_step ?ops c (with_plan plan c)" for c plan
    by (simp add: named_step_rows with_plan_def)
  show "True \<and> named_step ?ops c (restarted c)" for c
    by (simp add: named_step_rows restarted_def)
qed (rule named_advance every_named_pass; assumption | simp)+

text \<open>The process as the wiring leaves it, and a request that would change a rule.\<close>

definition delete_rule_request :: request where
  "delete_rule_request = sample_request ''DELETE'' ''/api/v1/rules/a'' DNull"

definition boot_hub :: "system \<Rightarrow> hub" where
  "boot_hub s = \<lparr>hb_core = \<lparr>co_world = sy_world s, co_log = sy_log s\<rparr>, hb_requests = [], hb_pass = Done (Inr ())\<rparr>"

text \<open>C18. Attribution, from the configuration to the change log: whatever requests are served at the same time,
  in whatever order their statements run, and across restarts, the log only grows, and every entry
  that is ever added names an operator of the configured keys (or system, when no key is configured).\<close>

theorem interleaved_changes_name_operators:
  assumes "wire env connect = Inr (app, s)" and "takes_turns app (boot_hub s) t"
  shows "\<exists>cfg new. load env = Inr cfg \<and> db_changes (rows (hb_core t)) = db_changes (tables_of s) @ new
    \<and> list_all (\<lambda>c. cl_operator c \<in> set (operators_of (cf_api_keys cfg))) new"
proof -
  obtain cfg where cfg: "load env = Inr cfg" "wire_auth (cf_api_keys cfg) = Inr (sv_auth (ap_server app))"
    using wireD(4)[OF assms(1)] by blast
  have "named_step (set (operators_of (cf_api_keys cfg))) (hb_core (boot_hub s)) (hb_core t)"
    using schedule.turns_keep[OF named_schedule[OF cfg(2)] assms(2)] by (simp add: boot_hub_def idle_def)
  then show ?thesis using cfg(1) by (auto simp: named_step_def named_def boot_hub_def)
qed

theorem interleaved_changes_name_operators_witness:
  "\<exists>app s. wire ((\<lambda>_. None)(''API_KEYS'' \<mapsto> ''ops:k1'')) (\<lambda>_. Inr sample_db) = Inr (app, s)
    \<and> (\<exists>new. db_changes (rows (hb_core (run_request 0 (arrive app [] sample_env delete_rule_request (boot_hub s)))))
        = db_changes (tables_of s) @ new \<and> list_all (\<lambda>c. cl_operator c \<in> {''ops''}) new)"
proof -
  let ?env = "(\<lambda>_. None)(''API_KEYS'' \<mapsto> ''ops:k1'')"
  have p: "parse_key_pairs ''ops:k1'' = Inr [(''k1'', \<lparr>ke_operator = ''ops'', ke_enabled = True\<rparr>)]" by code_simp
  have cfg: "\<exists>cfg. load ?env = Inr cfg \<and> cf_api_keys cfg = ''ops:k1''"
    by (simp add: load_def Let_def getenv_def present_def default_url_def)
  then obtain app s where w: "wire ?env (\<lambda>_. Inr sample_db) = Inr (app, s)"
    by (auto simp: wire_def wire_auth_def p)
  have ops: "operators_of ''ops:k1'' = [''ops'']" by (simp add: operators_of_def p operator_from_def)
  have turns: "takes_turns app (boot_hub s)
      (run_request 0 (arrive app [] sample_env delete_rule_request (boot_hub s)))"
    by (intro takes_turns_step takes_turns_refl)
  from interleaved_changes_name_operators[OF w turns] cfg ops w show ?thesis by fastforce
qed

end
