(* ===== verification/ChangeLog.thy ===== *)
theory ChangeLog
  imports ServerFacts
begin

text \<open>
  The change log tells the whole story of the rules: read from the beginning, each entry starts from
  what the entries before it left, and together they give the table of the rules.  This holds for
  requests served one after the other, under any faults.
\<close>

section \<open>Reading the log\<close>

text \<open>What a client can see of a rule, but for its number and its times.\<close>

definition rule_view :: "route_rule \<Rightarrow> string \<times> matcher \<times> string \<times> int \<times> bool \<times> bool" where
  "rule_view r = (rr_name r, stored_matcher (rr_matcher r), rr_topic r, rr_priority r, rr_enabled r,
     rr_deleted_at r \<noteq> None)"

type_synonym rule_views = "string \<rightharpoonup> string \<times> matcher \<times> string \<times> int \<times> bool \<times> bool"

definition read_entry :: "change_log \<Rightarrow> rule_views \<Rightarrow> rule_views option" where
  "read_entry c m = (if m (cl_rule_id c) = map_option rule_view (cl_before c)
     then Some (m(cl_rule_id c := map_option rule_view (cl_after c))) else None)"

fun read_log :: "change_log list \<Rightarrow> rule_views \<Rightarrow> rule_views option" where
  "read_log [] m = Some m"
| "read_log (c # cs) m = Option.bind (read_entry c m) (read_log cs)"

definition rule_table :: "database \<Rightarrow> rule_views" where
  "rule_table d = (\<lambda>i. map_option rule_view (find_row rr_rule_id i (db_rules d)))"

definition chronicled :: "database \<Rightarrow> bool" where
  "chronicled d \<longleftrightarrow> read_log (db_changes d) Map.empty = Some (rule_table d)"

lemma read_log_append: "read_log (cs @ ds) m = Option.bind (read_log cs m) (read_log ds)"
  by (induction cs arbitrary: m) (auto split: Option.bind_splits)

text \<open>What a request does to the rules: nothing, or one change with its entry.\<close>

definition told_change :: "change_log \<Rightarrow> database \<Rightarrow> database \<Rightarrow> bool" where
  "told_change c s t \<longleftrightarrow> db_changes t = db_changes s @ [c] \<and> read_entry c (rule_table s) = Some (rule_table t)"

definition chronicle :: "database \<Rightarrow> database \<Rightarrow> bool" where
  "chronicle s t \<longleftrightarrow> same_rules s t \<or> (\<exists>c. told_change c s t)"

lemma rule_table_same: "same_rules s t \<Longrightarrow> rule_table t = rule_table s"
  by (simp add: rule_table_def same_rules_def)

lemma chronicle_keeps: "chronicle s t \<Longrightarrow> chronicled s \<Longrightarrow> chronicled t"
  unfolding chronicle_def
proof (elim disjE exE)
  show "chronicled t" if "same_rules s t" "chronicled s"
    using that rule_table_same[OF that(1)] by (simp add: chronicled_def same_rules_def)
  show "chronicled t" if "told_change c s t" "chronicled s" for c
    using that by (simp add: told_change_def chronicled_def read_log_append)
qed

lemma chronicle_same: "same_rules s t \<Longrightarrow> chronicle s t"
  by (simp add: chronicle_def)

lemma chronicle_after: "same_rules s t \<Longrightarrow> chronicle t u \<Longrightarrow> chronicle s u"
  unfolding chronicle_def
proof (elim disjE exE)
  show "same_rules s u \<or> (\<exists>c. told_change c s u)" if "same_rules s t" "same_rules t u"
    using that by (simp add: same_rules_def)
  show "same_rules s u \<or> (\<exists>c. told_change c s u)" if "same_rules s t" "told_change c t u" for c
    using that rule_table_same[OF that(1)] by (auto simp: told_change_def same_rules_def)
qed

lemma chronicle_db: "w_db w' = w_db w \<Longrightarrow> chronicle (w_db w) (w_db w')"
  by (simp add: chronicle_def same_rules_def)

section \<open>The transactions of the rules\<close>

lemma append_change_told:
  assumes "append_change c d = (Inr u, d')"
  shows "db_rules d' = db_rules d \<and> (\<exists>c'. db_changes d' = db_changes d @ [c'] \<and> cl_rule_id c' = cl_rule_id c
    \<and> cl_before c' = cl_before c \<and> cl_after c' = cl_after c)"
  using assms by (auto simp: append_change_def Let_def split: if_splits)

lemma tx_chronicle:
  assumes run: "on_db (in_tx Failed (andThen (sql A) (\<lambda>_. sql (append_change c)))) w = (r, w')"
    and A: "\<And>d x d'. A d = (Inr x, d') \<Longrightarrow> same_rules (w_db w) d
      \<Longrightarrow> db_changes d' = db_changes d \<and> read_entry c (rule_table d) = Some (rule_table d')"
  shows "chronicle (w_db w) (w_db w')"
  using two_statement_tx[OF run]
proof
  assume "same_tables (w_db w) (w_db w')"
  then show ?thesis by (simp add: chronicle_def same_rules_tables)
next
  assume "\<exists>p p' q x d1 y d2. A ((w_db w)\<lparr>db_plan := p\<rparr>) = (Inr x, d1)
      \<and> append_change c (d1\<lparr>db_plan := p'\<rparr>) = (Inr y, d2) \<and> w_db w' = d2\<lparr>db_plan := q\<rparr>"
  then obtain p p' q x d1 y d2 where a: "A ((w_db w)\<lparr>db_plan := p\<rparr>) = (Inr x, d1)"
    and b: "append_change c (d1\<lparr>db_plan := p'\<rparr>) = (Inr y, d2)" and w': "w_db w' = d2\<lparr>db_plan := q\<rparr>" by blast
  have "db_changes d1 = db_changes (w_db w)" "read_entry c (rule_table (w_db w)) = Some (rule_table d1)"
    using A[OF a] by (simp_all add: same_rules_def rule_table_def)
  moreover obtain c' where c': "db_rules d2 = db_rules d1" "db_changes d2 = db_changes d1 @ [c']" "cl_rule_id c' = cl_rule_id c"
    "cl_before c' = cl_before c" "cl_after c' = cl_after c"
    using append_change_told[OF b] by auto
  moreover have "read_entry c' = read_entry c" "rule_table (w_db w') = rule_table d1"
    using c' by (simp_all add: fun_eq_iff read_entry_def rule_table_def w')
  ultimately have "told_change c' (w_db w) (w_db w')"
    by (simp add: told_change_def w')
  then show ?thesis by (auto simp: chronicle_def)
qed

lemma stored_matcher_idem [simp]: "stored_matcher (stored_matcher m) = stored_matcher m"
  by (simp add: stored_matcher_def)

lemma find_row_fresh: "\<not> has_key key k rows \<Longrightarrow> find_row key k rows = None"
  by (auto simp: has_key_def find_row_def find_None_iff list_ex_iff)

lemma find_row_new:
  assumes "\<not> has_key key (key r) rows"
  shows "find_row key k (rows @ [r]) = (if k = key r then Some r else find_row key k rows)"
  using assms by (induction rows) (auto simp: find_row_def has_key_def)

lemma create_rule_told:
  assumes "create_rule r d = (Inr x, d')" and "rr_deleted_at r = None"
  shows "db_changes d' = db_changes d
    \<and> read_entry (change_entry (rr_rule_id r) ActionCreate None (Some r) ctx now) (rule_table d) = Some (rule_table d')"
proof -
  have new: "\<not> has_key rr_rule_id (rr_rule_id r) (db_rules d)"
    using assms(1) by (auto simp: create_rule_def Let_def split: if_splits)
  obtain q where d': "db_changes d' = db_changes d" "db_rules d' = db_rules d @ [q]"
    and q: "rr_rule_id q = rr_rule_id r" "rule_view q = rule_view r"
    using assms by (auto simp: create_rule_def rule_view_def Let_def split: if_splits)
  have "rule_table d' = (rule_table d)(rr_rule_id r := Some (rule_view r))"
    using new by (simp add: fun_eq_iff rule_table_def d' q find_row_new)
  then show ?thesis
    using find_row_fresh[OF new] by (simp add: read_entry_def change_entry_def d' rule_table_def)
qed

text \<open>A change of the row the service has read.\<close>

lemma update_rows_told:
  assumes "find_row rr_rule_id i (db_rules d) = Some x" and "\<And>r. rr_rule_id (f r) = rr_rule_id r"
    and "rule_view (f x) = rule_view y" and "db_rules d' = update_rows rr_rule_id i f (db_rules d)"
  shows "read_entry (change_entry i action (Some x) (Some y) ctx now) (rule_table d) = Some (rule_table d')"
proof -
  have "rr_rule_id x = i" using rules.lookup_SomeD[OF assms(1)] ..
  then have "rule_table d' = (rule_table d)(i := Some (rule_view y))"
    using assms by (auto simp: fun_eq_iff rule_table_def rules.lookup_update_same rules.lookup_update_other)
  then show ?thesis using assms(1) by (simp add: read_entry_def change_entry_def rule_table_def)
qed

lemma update_rule_told:
  assumes "update_rule (merged_rule x inp now) d = (Inr u, d')" and "find_row rr_rule_id i (db_rules d) = Some x"
    and "rr_rule_id x = i"
  shows "db_changes d' = db_changes d \<and> read_entry (change_entry i action (Some x) (Some (merged_rule x inp now)) ctx now)
    (rule_table d) = Some (rule_table d')"
proof -
  let ?u = "merged_rule x inp now"
  have d': "db_changes d' = db_changes d" "db_rules d' = update_rows rr_rule_id i
      (\<lambda>old. old\<lparr>rr_name := rr_name ?u, rr_matcher := stored_matcher (rr_matcher ?u), rr_topic := rr_topic ?u,
         rr_priority := rr_priority ?u, rr_enabled := rr_enabled ?u, rr_updated_at := db_stamp d (rr_updated_at ?u)\<rparr>)
      (db_rules d)"
    using assms(1,3) by (auto simp: update_rule_def split: if_splits)
  have "rr_deleted_at ?u = rr_deleted_at x" by (simp add: merged_rule_def)
  then show ?thesis
    using d' by (intro conjI update_rows_told[OF assms(2)]) (simp_all add: rule_view_def)
qed

lemma soft_delete_told:
  assumes "soft_delete i now d = (Inr u, d')" and "find_row rr_rule_id i (db_rules d) = Some x"
  shows "db_changes d' = db_changes d \<and> read_entry (change_entry i ActionDelete (Some x)
      (Some (x\<lparr>rr_enabled := False, rr_deleted_at := Some now, rr_updated_at := now\<rparr>)) ctx now) (rule_table d)
    = Some (rule_table d')"
proof -
  have d': "db_changes d' = db_changes d" "db_rules d' = update_rows rr_rule_id i
      (\<lambda>r. r\<lparr>rr_deleted_at := Some (db_stamp d now), rr_enabled := False, rr_updated_at := db_stamp d now\<rparr>) (db_rules d)"
    using assms(1) by (auto simp: soft_delete_def)
  then show ?thesis by (intro conjI update_rows_told[OF assms(2)]) (simp_all add: rule_view_def)
qed

section \<open>The requests\<close>

lemma call_get_rule:
  assumes "call (get_rule i) w = (r, s)"
  shows "same_rules (w_db w) (w_db s)"
    and "\<And>x. r = Inr (Some x) \<Longrightarrow> find_row rr_rule_id i (db_rules (w_db s)) = Some x \<and> rr_rule_id x = i"
proof -
  show same: "same_rules (w_db w) (w_db s)" using assms by (rule call_get_rule_frame)
  show "find_row rr_rule_id i (db_rules (w_db s)) = Some x \<and> rr_rule_id x = i" if r: "r = Inr (Some x)" for x
  proof -
    obtain d where "sql (get_rule i) (w_db w) = (Inr (Some x), d)"
      using assms r by (auto simp: call_def on_db_def Let_def split: prod.splits)
    from sql_Inr[OF this] have "find_row rr_rule_id i (db_rules (w_db s)) = Some x"
      using same by (simp add: get_rule_def same_rules_def)
    then show ?thesis using get_rule_id assms r by blast
  qed
qed

lemma existing_rule_told:
  assumes run: "andThen (call (get_rule i)) (\<lambda>found. case found of None \<Rightarrow> fail e
      | Some x \<Rightarrow> if rr_deleted_at x \<noteq> None then fail e else f x) w = (r, w')"
    and f: "\<And>x s t r. find_row rr_rule_id i (db_rules (w_db s)) = Some x \<Longrightarrow> rr_rule_id x = i \<Longrightarrow> f x s = (r, t)
      \<Longrightarrow> chronicle (w_db s) (w_db t)"
  shows "chronicle (w_db w) (w_db w')"
proof -
  obtain o' s where g: "call (get_rule i) w = (o', s)" by fastforce
  consider "w_db w' = w_db s" | x where "o' = Inr (Some x)" "f x s = (r, w')"
    using run g by (auto simp: andThen_def fail_def split: sum.splits option.splits if_splits)
  then have "chronicle (w_db s) (w_db w')"
    by cases (use call_get_rule(2)[OF g] f chronicle_db in blast)+
  with call_get_rule(1)[OF g] show ?thesis by (rule chronicle_after)
qed

lemma find_row_same: "same_rules s t \<Longrightarrow> find_row rr_rule_id i (db_rules t) = find_row rr_rule_id i (db_rules s)"
  by (simp add: same_rules_def)

lemma then_ret_db: "andThen m (\<lambda>_. ret y) w = (r, w') \<Longrightarrow> \<exists>r'. m w = (r', w')"
  by (auto simp: andThen_def ret_def split: prod.splits sum.splits)

lemma change_rule_told:
  assumes "change_rule ctx now i inp w = (r, w')"
  shows "chronicle (w_db w) (w_db w')"
  using assms unfolding change_rule_def
proof (rule existing_rule_told)
  fix x s t r'
  assume x: "find_row rr_rule_id i (db_rules (w_db s)) = Some x" "rr_rule_id x = i"
    and run: "(let updated = merged_rule x inp now in
           andThen (on_db (in_tx Failed
              (andThen (sql (update_rule updated)) (\<lambda>_.
               sql (append_change (change_entry i (update_action x updated)
                 (Some x) (Some updated) ctx now))))))
            (\<lambda>_. ret updated)) s = (r', t)"
  obtain r0 where "on_db (in_tx Failed (andThen (sql (update_rule (merged_rule x inp now))) (\<lambda>_.
      sql (append_change (change_entry i (update_action x (merged_rule x inp now)) (Some x)
        (Some (merged_rule x inp now)) ctx now))))) s = (r0, t)"
    using then_ret_db[OF run[unfolded Let_def]] by blast
  then show "chronicle (w_db s) (w_db t)"
  proof (rule tx_chronicle)
    fix d u d' assume u: "update_rule (merged_rule x inp now) d = (Inr u, d')" and same: "same_rules (w_db s) d"
    show "db_changes d' = db_changes d \<and> read_entry (change_entry i (update_action x (merged_rule x inp now)) (Some x)
        (Some (merged_rule x inp now)) ctx now) (rule_table d) = Some (rule_table d')"
      using update_rule_told[OF u] x find_row_same[OF same] by simp
  qed
qed

lemma delete_rule_told:
  assumes "delete_rule ctx now i w = (r, w')"
  shows "chronicle (w_db w) (w_db w')"
  using assms unfolding delete_rule_def
proof (rule existing_rule_told)
  fix x s t r'
  assume x: "find_row rr_rule_id i (db_rules (w_db s)) = Some x"
    and run: "(let after = x\<lparr>rr_enabled := False, rr_deleted_at := Some now, rr_updated_at := now\<rparr> in
           on_db (in_tx Failed
              (andThen (sql (soft_delete i now)) (\<lambda>_.
               sql (append_change (change_entry i ActionDelete (Some x) (Some after) ctx now)))))) s = (r', t)"
  show "chronicle (w_db s) (w_db t)"
    using run unfolding Let_def
  proof (rule tx_chronicle)
    fix d u d' assume u: "soft_delete i now d = (Inr u, d')" and same: "same_rules (w_db s) d"
    show "db_changes d' = db_changes d \<and> read_entry (change_entry i ActionDelete (Some x)
        (Some (x\<lparr>rr_enabled := False, rr_deleted_at := Some now, rr_updated_at := now\<rparr>)) ctx now) (rule_table d)
      = Some (rule_table d')"
      using soft_delete_told[OF u] x find_row_same[OF same] by simp
  qed
qed

lemma catch_fail_db: "catch (\<lambda>e. if P e then fail n else fail e) m w = (r, w') \<Longrightarrow> \<exists>r'. m w = (r', w')"
  by (auto simp: catch_def fail_def split: prod.splits sum.splits if_splits)

lemma new_rule_told:
  assumes run: "andThen (call (get_rule i)) (\<lambda>existing. if existing \<noteq> None then fail e else m) w = (r, w')"
    and m: "\<And>s r t. m s = (r, t) \<Longrightarrow> chronicle (w_db s) (w_db t)"
  shows "chronicle (w_db w) (w_db w')"
proof -
  obtain o' s where g: "call (get_rule i) w = (o', s)" by fastforce
  have "w' = s \<or> m s = (r, w')"
    using run g by (auto simp: andThen_def fail_def split: sum.splits if_splits)
  then have "chronicle (w_db s) (w_db w')" using m chronicle_db by blast
  with call_get_rule(1)[OF g] show ?thesis by (rule chronicle_after)
qed

lemma create_tx_told:
  assumes "catch (\<lambda>e. if is_unique_violation e then fail (Domain ErrRuleConflict) else fail e)
      (andThen (on_db (in_tx Failed (andThen (sql (create_rule r)) (\<lambda>_.
         sql (append_change (change_entry (rr_rule_id r) ActionCreate None (Some r) ctx now))))))
       (\<lambda>_. ret r)) s = (res, t)"
    and new: "rr_deleted_at r = None"
  shows "chronicle (w_db s) (w_db t)"
proof -
  obtain r0 where "andThen (on_db (in_tx Failed (andThen (sql (create_rule r)) (\<lambda>_.
      sql (append_change (change_entry (rr_rule_id r) ActionCreate None (Some r) ctx now)))))) (\<lambda>_. ret r) s = (r0, t)"
    using catch_fail_db[OF assms(1)] by blast
  from then_ret_db[OF this] obtain r1 where "on_db (in_tx Failed (andThen (sql (create_rule r)) (\<lambda>_.
      sql (append_change (change_entry (rr_rule_id r) ActionCreate None (Some r) ctx now))))) s = (r1, t)" by blast
  then show ?thesis by (rule tx_chronicle) (rule create_rule_told[OF _ new])
qed

lemma add_rule_told:
  assumes "add_rule ctx now bytes inp w = (r, w')"
  shows "chronicle (w_db w) (w_db w')"
proof (cases "ri_name inp = [] \<or> ri_topic inp = []")
  case True
  with assms show ?thesis
    by (auto simp: add_rule_def dest!: fail_with_frame intro: chronicle_db split: if_splits)
next
  case False
  have given: "(ri_name inp = []) = False" "(ri_topic inp = []) = False" using False by simp_all
  define i where "i = (if ri_rule_id inp = [] then new_event_id bytes else ri_rule_id inp)"
  define q :: route_rule where "q = \<lparr>rr_id = 0, rr_rule_id = i, rr_name = ri_name inp, rr_matcher = ri_matcher inp,
     rr_topic = ri_topic inp, rr_priority = ri_priority inp, rr_enabled = ri_enabled inp,
     rr_deleted_at = None, rr_created_at = now, rr_updated_at = now\<rparr>"
  have q: "rr_rule_id q = i" "rr_deleted_at q = None" by (simp_all add: q_def)
  have "andThen (call (get_rule i)) (\<lambda>existing. if existing \<noteq> None then fail (Domain ErrRuleConflict)
      else catch (\<lambda>e. if is_unique_violation e then fail (Domain ErrRuleConflict) else fail e)
        (andThen (on_db (in_tx Failed (andThen (sql (create_rule q)) (\<lambda>_.
           sql (append_change (change_entry (rr_rule_id q) ActionCreate None (Some q) ctx now))))))
         (\<lambda>_. ret q))) w = (r, w')"
    using assms unfolding q(1) unfolding q_def i_def add_rule_def Let_def given if_False .
  then show ?thesis by (rule new_rule_told) (rule create_tx_told[OF _ q(2)])
qed

lemma respond_told:
  assumes "respond st body (with_body dec z rq f) w = (rs, w')"
    and "\<And>v r w1. f v w = (r, w1) \<Longrightarrow> chronicle (w_db w) (w_db w1)"
  shows "chronicle (w_db w) (w_db w')"
proof -
  obtain r w1 where run: "with_body dec z rq f w = (r, w1)" and w': "w_db w' = w_db w1"
    using assms(1) by (rule respond_db)
  have "chronicle (w_db w) (w_db w1)"
    using run assms(2) by (auto simp: with_body_def dest: fail_with_frame chronicle_db split: sum.splits)
  then show ?thesis by (simp add: w')
qed

lemma rule_handlers_told:
  "handle_create_rule env ctx rq w = (rs, w') \<Longrightarrow> chronicle (w_db w) (w_db w')"
  "handle_update_rule env ctx i rq w = (rs, w') \<Longrightarrow> chronicle (w_db w) (w_db w')"
  "handle_delete_rule env ctx i w = (rs, w') \<Longrightarrow> chronicle (w_db w) (w_db w')"
proof -
  show "handle_create_rule env ctx rq w = (rs, w') \<Longrightarrow> chronicle (w_db w) (w_db w')"
    unfolding handle_create_rule_def by (erule respond_told) (rule add_rule_told)
  show "handle_update_rule env ctx i rq w = (rs, w') \<Longrightarrow> chronicle (w_db w) (w_db w')"
    unfolding handle_update_rule_def by (erule respond_told) (rule change_rule_told)
  show "handle_delete_rule env ctx i w = (rs, w') \<Longrightarrow> chronicle (w_db w) (w_db w')"
    unfolding handle_delete_rule_def by (erule respond_db) (metis delete_rule_told)
qed

lemma respond_same_rules:
  assumes "respond st body m w = (rs, w')" and "keeps (on_w_db same_rules) m"
  shows "same_rules (w_db w) (w_db w')"
proof -
  obtain r w1 where "m w = (r, w1)" and "w_db w' = w_db w1" using assms(1) by (rule respond_db)
  with keepsD[OF assms(2)] show ?thesis by (auto simp: on_w_db_def)
qed

lemma traffic_handlers_told:
  "handle_create_device env rq w = (rs, w') \<Longrightarrow> same_rules (w_db w) (w_db w')"
  "handle_device_status env i rq w = (rs, w') \<Longrightarrow> same_rules (w_db w) (w_db w')"
  "handle_telemetry sv env rq w = (rs, w') \<Longrightarrow> same_rules (w_db w) (w_db w')"
  "handle_replay_event env i w = (rs, w') \<Longrightarrow> same_rules (w_db w) (w_db w')"
  unfolding handle_create_device_def handle_device_status_def handle_telemetry_def handle_replay_event_def Let_def
  by (erule respond_same_rules, (rule rules_with_body, rule traffic_endpoint | rule traffic_endpoint))+

lemma request_told:
  assumes "serve sv env rq w = (rs, w')"
  shows "chronicle (w_db w) (w_db w')"
proof -
  obtain w1 where au: "only_audit (w_db w) (w_db w1)"
    and h: "w' = w1 \<or> (\<exists>ctx e arg rs'. handle sv env ctx rq e arg w1 = (rs', w'))"
    using assms by (rule serve_cases)
  have "chronicle (w_db w1) (w_db w')"
    using h
  proof
    assume "\<exists>ctx e arg rs'. handle sv env ctx rq e arg w1 = (rs', w')"
    then obtain ctx e arg rs' where h: "handle sv env ctx rq e arg w1 = (rs', w')" by blast
    show ?thesis
    proof (cases "mutating e")
      case False
      from reading_endpoint[OF h False] show ?thesis by (simp add: on_w_db_def chronicle_same same_rules_tables)
    next
      case True
      with h show ?thesis
        by (auto simp: handle_def mutating_def intro: rule_handlers_told traffic_handlers_told[THEN chronicle_same])
    qed
  qed (simp add: chronicle_db)
  moreover have "same_rules (w_db w) (w_db w1)" using au by (simp add: only_audit_def same_rules_def)
  ultimately show ?thesis by (blast intro: chronicle_after)
qed


text \<open>From a database without rules: a rule is created, and then deleted while a statement may fail.\<close>

definition fresh_system :: system where
  "fresh_system = sample_system\<lparr>sy_world := sample_world\<lparr>w_db := sample_db\<lparr>db_rules := []\<rparr>\<rparr>\<rparr>"

definition after_request :: "request \<Rightarrow> system \<Rightarrow> system" where
  "after_request rq s = (case serve_request sample_app sample_env 5 rq s of Some (_, t) \<Rightarrow> t | None \<Rightarrow> s)"

definition ruled_system :: system where
  "ruled_system = after_request (sample_request ''DELETE'' ''/api/v1/rules/hot'' DNull)
     (after_request (sample_request ''POST'' ''/api/v1/rules'' (DObject [(''rule_id'', DString ''hot''),
        (''name'', DString ''Hot''), (''topic'', DString ''alarms'')])) fresh_system)"


end
