(* ===== verification/Races.thy ===== *)
theory Races
  imports Operators ChangeLog
begin

text \<open>
  What requests served at the same time can do to each other in the database: two replays of one event
  queue its deliveries twice, and two changes of one rule leave a change log that does not add up.
\<close>

section \<open>Two replays of one event\<close>

text \<open>The requests in flight run by their numbers.\<close>

lemma turns_of_requests: "takes_turns app h (fold run_request js h)"
proof (induction js arbitrary: h)
  case (Cons i js)
  have "takes_turns app h (run_request i h)" by (intro takes_turns_step takes_turns_refl)
  with Cons[of "run_request i h"] show ?case by (simp add: takes_turns_def)
qed (simp add: takes_turns_refl)

definition replay_request :: request where
  "replay_request = \<lparr>rq_method = ''POST'', rq_target = ''/api/v1/events/e/replay'', rq_query = [],
     rq_api_key = [], rq_remote = [], rq_body = Document DNull\<rparr>"

text \<open>The database of the worker example, its delivery dispatched.\<close>

definition delivered_hub :: hub where
  "delivered_hub = sample_hub\<lparr>hb_core := \<lparr>co_world = \<lparr>w_db = (ws_db sample_worker)\<lparr>db_deliveries := [sample_delivery
     \<lparr>dl_status := DeliveryDispatched, dl_dispatched_at := Some 1\<rparr>]\<rparr>, w_errors = initial_error\<rparr>, co_log = []\<rparr>\<rparr>"

lemma replay_found: "serve_flow ((ap_server sample_app)\<lparr>sv_metrics := Some []\<rparr>) env replay_request
    = respond_flow ok Replayed (replay_flow (en_now env) ''e'')"
proof -
  have "find_handler True replay_request = Found ReplayEvent [''e'']" by code_simp
  then show ?thesis
    by (simp add: serve_flow_def dispatch_request_flow_def handle_flow_def sample_app_def)
qed

definition two_replays :: hub where
  "two_replays = fold run_request [0, 1, 0, 1, 0, 1, 0, 1, 0, 1]
     (arrive sample_app [] sample_env replay_request (arrive sample_app [] sample_env replay_request delivered_hub))"

lemma two_replays_targets: "map target (filter waiting (db_deliveries (rows (hb_core two_replays))))
   = [(''e'', ''b''), (''e'', ''b''), (''e'', ''a''), (''e'', ''a'')]"
  unfolding two_replays_def arrive_def replay_found
  by code_simp

text \<open>C36. Replays are not protected against each other: from a state in which nothing waits, two replays of one
  event, each reading the deliveries before the other has created its own, leave every delivery of
  the event waiting twice, so that the sink gets each of them twice.\<close>

theorem replays_can_queue_twice:
  "\<exists>t. takes_turns sample_app (arrive sample_app [] sample_env replay_request
        (arrive sample_app [] sample_env replay_request delivered_hub)) t
    \<and> single_waiting (rows (hb_core delivered_hub)) \<and> \<not> single_waiting (rows (hb_core t))"
proof -
  have "\<not> single_waiting (rows (hb_core two_replays))"
    unfolding single_waiting_def two_replays_targets by simp
  moreover have "single_waiting (rows (hb_core delivered_hub))"
    by (simp add: single_waiting_def delivered_hub_def sample_hub_def waiting_def)
  ultimately show ?thesis using turns_of_requests unfolding two_replays_def by blast
qed

section \<open>Two changes of one rule\<close>

definition delete_request :: request where
  "delete_request = \<lparr>rq_method = ''DELETE'', rq_target = ''/api/v1/rules/a'', rq_query = [],
     rq_api_key = [], rq_remote = [], rq_body = Document DNull\<rparr>"

text \<open>One rule, with the entry of its creation.\<close>

definition ruled_hub :: hub where
  "ruled_hub = sample_hub\<lparr>hb_core := \<lparr>co_world = \<lparr>w_db = sample_db\<lparr>db_rules := [sample_rule ''a'' 5],
     db_changes := [change_entry ''a'' ActionCreate None (Some (sample_rule ''a'' 5)) None 0]\<rparr>,
     w_errors = initial_error\<rparr>, co_log = []\<rparr>\<rparr>"

lemma delete_found: "serve_flow ((ap_server sample_app)\<lparr>sv_metrics := Some []\<rparr>) env delete_request
    = respond_flow ok (\<lambda>_. RuleDeleted ''a'') (delete_rule_flow None (en_now env) ''a'')"
proof -
  have "find_handler True delete_request = Found DeleteRule [''a'']" by code_simp
  then show ?thesis
    by (simp add: serve_flow_def dispatch_request_flow_def handle_flow_def sample_app_def)
qed

definition two_deletes :: hub where
  "two_deletes = fold run_request [0, 1, 0, 1, 0, 1]
     (arrive sample_app [] sample_env delete_request (arrive sample_app [] sample_env delete_request ruled_hub))"

lemma two_deletes_log: "map (\<lambda>c. (cl_rule_id c, map_option rule_view (cl_before c), map_option rule_view (cl_after c)))
     (db_changes (rows (hb_core two_deletes)))
   = [(''a'', None, Some (rule_view (sample_rule ''a'' 5))),
      (''a'', Some (rule_view (sample_rule ''a'' 5)), Some (''n'', no_matcher, ''a'', 5, False, True)),
      (''a'', Some (rule_view (sample_rule ''a'' 5)), Some (''n'', no_matcher, ''a'', 5, False, True))]"
  unfolding two_deletes_def arrive_def delete_found
  by code_simp


end
