(* ===== verification/Lifecycle.thy ===== *)
theory Lifecycle
  imports Deliveries
begin

text \<open>
  The life of a delivery as an abstract state machine, and the refinement: whatever the process does,
  every row of the table moves as the machine allows.
\<close>

section \<open>The state machine\<close>

text \<open>A delivery waits after some failed attempts, or is settled for good.\<close>

datatype phase = Waiting int | Dispatched | Dead

inductive lifecycle :: "int \<Rightarrow> phase \<Rightarrow> phase \<Rightarrow> bool" for max_attempt where
  Retry: "k + 1 < max_attempt \<Longrightarrow> lifecycle max_attempt (Waiting k) (Waiting (k + 1))"
| GiveUp: "max_attempt \<le> k + 1 \<Longrightarrow> lifecycle max_attempt (Waiting k) Dead"
| Accept: "lifecycle max_attempt (Waiting k) Dispatched"

inductive_simps lifecycle_simps [simp]: "lifecycle m (Waiting k) p" "lifecycle m Dispatched p" "lifecycle m Dead p"

definition phase_of :: "delivery \<Rightarrow> phase" where
  "phase_of x = (case dl_status x of
     DeliveryPending \<Rightarrow> Waiting (dl_attempts x) | DeliveryFailed \<Rightarrow> Waiting (dl_attempts x)
   | DeliveryDispatched \<Rightarrow> Dispatched | DeliveryDead \<Rightarrow> Dead)"

lemma phase_waiting: "waiting x \<Longrightarrow> phase_of x = Waiting (dl_attempts x)"
  by (auto simp: waiting_def phase_of_def)

section \<open>Requests only queue deliveries\<close>

definition queues :: "database \<Rightarrow> database \<Rightarrow> bool" where
  "queues s t \<longleftrightarrow> (\<exists>dls. db_deliveries t = db_deliveries s @ dls \<and> list_all (\<lambda>x. phase_of x = Waiting 0) dls)"

lemma queues_same: "db_deliveries t = db_deliveries s \<Longrightarrow> queues s t"
  by (simp add: queues_def)

lemma queues_trans: "queues s t \<Longrightarrow> queues t u \<Longrightarrow> queues s u"
  by (fastforce simp: queues_def)

lemma queues_create_delivery: "dl_status dl = DeliveryPending \<Longrightarrow> dl_attempts dl = 0 \<Longrightarrow> keeps queues (create_delivery dl)"
  by (rule keepsI) (auto simp: queues_def create_delivery_def phase_of_def Let_def split: if_splits)

interpretation queues: request_relation queues
proof unfold_locales
  show "queues s t \<Longrightarrow> queues t u \<Longrightarrow> queues s u" for s t u by (rule queues_trans)
qed (rule queues_create_delivery; assumption
  | simp add: queues_same roll_back_def; fail
  | rule keepsI, rule queues_same, auto simp: writing_defs Let_def split: if_splits)+

section \<open>A dispatch moves its delivery once\<close>

text \<open>Only the row with the number \<open>n\<close> may change, to one of the phases in \<open>A\<close>.\<close>

definition row_moves :: "int \<Rightarrow> phase set \<Rightarrow> delivery \<Rightarrow> delivery \<Rightarrow> bool" where
  "row_moves n A x y \<longleftrightarrow> x = y \<or> dl_id x = n \<and> dl_id y = n \<and> phase_of y \<in> A"

definition moves_to :: "int \<Rightarrow> phase set \<Rightarrow> database \<Rightarrow> database \<Rightarrow> bool" where
  "moves_to n A s t \<longleftrightarrow> list_all2 (row_moves n A) (db_deliveries s) (db_deliveries t)"

lemma row_moves_trans: "row_moves n A x y \<Longrightarrow> row_moves n A y z \<Longrightarrow> row_moves n A x z"
  unfolding row_moves_def by metis

lemma moves_to_refl: "moves_to n A s s"
  by (simp add: moves_to_def row_moves_def list.rel_refl)

lemma moves_to_trans: "moves_to n A s t \<Longrightarrow> moves_to n A t u \<Longrightarrow> moves_to n A s u"
  unfolding moves_to_def by (rule list_all2_trans[OF row_moves_trans])

lemma moves_to_update:
  assumes "\<And>r. dl_id (f r) = dl_id r" and "\<And>r. phase_of (f r) \<in> A"
  shows "moves_to n A s (s\<lparr>db_deliveries := update_rows dl_id n f (db_deliveries s)\<rparr>)"
  using assms by (simp add: moves_to_def row_moves_def update_rows_def list_all2_map2 list.rel_refl_strong)

interpretation moves_to: db_relation "moves_to n A" for n A
proof unfold_locales
  show "moves_to n A s t \<Longrightarrow> moves_to n A t u \<Longrightarrow> moves_to n A s u" for s t u by (rule moves_to_trans)
qed (simp_all add: moves_to_refl moves_to_def roll_back_def row_moves_def list.rel_refl)

lemma moves_to_statements:
  "Dead \<in> A \<Longrightarrow> keeps (moves_to n A) (mark_dead n e at)"
  "Waiting k \<in> A \<Longrightarrow> keeps (moves_to n A) (mark_failed n k e at)"
  "Dispatched \<in> A \<Longrightarrow> keeps (moves_to n A) (mark_delivered n at)"
  "keeps (moves_to n A) (update_event_status i es)" "keeps (moves_to n A) (get_event_by_id i)"
proof -
  show "keeps (moves_to n A) (mark_dead n e at)" if "Dead \<in> A"
    unfolding mark_dead_def keeps_def snd_conv using that
    by (intro allI moves_to_update) (simp_all add: phase_of_def)
  have "moves_to n A s (snd (mark_failed n k e at s))" if "Waiting k \<in> A" for s
    unfolding mark_failed_def using that by (simp add: moves_to_refl moves_to_update phase_of_def)
  then show "keeps (moves_to n A) (mark_failed n k e at)" if "Waiting k \<in> A" using that by (simp add: keeps_def)
  have "moves_to n A s (snd (mark_delivered n at s))" if "Dispatched \<in> A" for s
    unfolding mark_delivered_def using that by (simp add: moves_to_refl moves_to_update phase_of_def)
  then show "keeps (moves_to n A) (mark_delivered n at)" if "Dispatched \<in> A" using that by (simp add: keeps_def)
  show "keeps (moves_to n A) (update_event_status i es)" "keeps (moves_to n A) (get_event_by_id i)"
    by (rule keepsI, auto simp: update_event_status_def get_event_by_id_def moves_to_def row_moves_def list.rel_refl)+
qed

lemma moves_to_store_call:
  assumes "keeps (moves_to n A) st"
  shows "keeps (on_ws_db (moves_to n A)) (store_call st)"
proof (rule keepsI)
  fix s r t assume "store_call st s = (r, t)"
  then show "on_ws_db (moves_to n A) s t"
    using keepsD[OF moves_to.keeps_exec[OF assms], of "ws_db s"]
    by (auto simp: store_call_def on_ws_db_def Let_def split: prod.splits)
qed

text \<open>The phases a dispatch can lead to.\<close>

definition outcomes :: "options \<Rightarrow> delivery \<Rightarrow> phase set" where
  "outcomes opts d = {p. lifecycle (op_max_attempt opts) (Waiting (dl_attempts d)) p}"

lemma outcomes_accept: "Dispatched \<in> outcomes opts d"
  by (simp add: outcomes_def)

lemma moves_to_handle_failure: "keeps (on_ws_db (moves_to (dl_id d) (outcomes opts d))) (handle_failure opts d ev now err)"
  unfolding handle_failure_def Let_def
  by (auto intro!: moves_to.job.keeps_rules moves_to_store_call moves_to_statements simp: outcomes_def)

lemma moves_to_send: "keeps (on_ws_db (moves_to n A)) (send sink topic p)"
  by (simp add: keeps_def send_def on_ws_db_def Let_def moves_to_refl)

lemma find_row_there: "k \<in> key ` set rows \<Longrightarrow> \<exists>r. find_row key k rows = Some r"
  unfolding find_row_def by (induction rows) auto

lemma moves_to_dispatch_one:
  assumes ok: "schema_ok (ws_db s)" and d: "d \<in> set (db_deliveries (ws_db s))"
    and run: "dispatch_one opts sink now d s = (r, t)"
  shows "moves_to (dl_id d) (outcomes opts d) (ws_db s) (ws_db t)"
proof -
  obtain r1 s1 where g: "store_call (get_event_by_id (dl_event_id d)) s = (r1, s1)" by fastforce
  have first: "moves_to (dl_id d) (outcomes opts d) (ws_db s) (ws_db s1)"
    using keepsD[OF moves_to_store_call[OF moves_to_statements(5)] g] by (simp add: on_ws_db_def)
  show ?thesis
  proof (cases r1)
    case (Inl e)
    then show ?thesis using run g first by (simp add: dispatch_one_def andThen_def)
  next
    case (Inr found)
    then obtain db where "exec (get_event_by_id (dl_event_id d)) (ws_db s) = (Inr found, db)"
      using g by (auto simp: store_call_def Let_def split: prod.splits)
    then have "found = find_row ev_event_id (dl_event_id d) (db_events (ws_db s))"
      by (auto simp: get_event_by_id_def dest!: exec_Inr)
    moreover have "dl_event_id d \<in> ev_event_id ` set (db_events (ws_db s))"
      using ok d unfolding schema_ok_def foreign_keys_def by (meson image_eqI subsetD)
    ultimately obtain ev where "found = Some ev" by (metis find_row_there)
    let ?rest = "if \<not> marshals ev then fail (Refused ''json: unsupported payload'')
      else andThen (send sink (dl_topic d) (payload_of ev d)) (\<lambda>answer. case answer of
        Some err \<Rightarrow> handle_failure opts d ev now err
      | None \<Rightarrow> andThen (store_call (mark_delivered (dl_id d) now)) (\<lambda>_.
          store_call (update_event_status (ev_event_id ev) EventDispatched)))"
    have rest: "keeps (on_ws_db (moves_to (dl_id d) (outcomes opts d))) ?rest"
      by (auto intro!: moves_to.job.keeps_rules moves_to_store_call moves_to_statements moves_to_send moves_to_handle_failure outcomes_accept
          split: option.split)
    have "?rest s1 = (r, t)" using run g Inr \<open>found = Some ev\<close> by (simp add: dispatch_one_def andThen_def)
    from keepsD[OF rest this] have "moves_to (dl_id d) (outcomes opts d) (ws_db s1) (ws_db t)"
      by (simp only: on_ws_db_def)
    with first show ?thesis by (rule moves_to_trans)
  qed
qed

section \<open>The refinement\<close>

text \<open>Every row has moved along the machine; a row that is new started as \<open>Waiting 0\<close>.\<close>

definition follows :: "int \<Rightarrow> database \<Rightarrow> database \<Rightarrow> bool" where
  "follows m s t \<longleftrightarrow> length (db_deliveries s) \<le> length (db_deliveries t)
     \<and> (\<forall>i < length (db_deliveries t).
          (lifecycle m)\<^sup>*\<^sup>* (if i < length (db_deliveries s) then phase_of (db_deliveries s ! i) else Waiting 0)
            (phase_of (db_deliveries t ! i)))"

lemma follows_refl: "db_deliveries t = db_deliveries s \<Longrightarrow> follows m s t"
  by (simp add: follows_def)

lemma follows_trans: "follows m s t \<Longrightarrow> follows m t u \<Longrightarrow> follows m s u"
  unfolding follows_def by (smt (verit) dual_order.trans order_less_le_trans rtranclp_trans)

lemma queues_follows: "queues s t \<Longrightarrow> follows m s t"
  by (auto simp: queues_def follows_def nth_append list_all_length)

lemma moves_to_follows:
  assumes "moves_to (dl_id d) (outcomes opts d) s t" and "d \<in> set (db_deliveries s)" and "waiting d"
    and uniq: "distinct (map dl_id (db_deliveries s))"
  shows "follows (op_max_attempt opts) s t"
proof -
  have "(lifecycle (op_max_attempt opts))\<^sup>*\<^sup>* (phase_of (db_deliveries s ! i)) (phase_of (db_deliveries t ! i))"
    if "i < length (db_deliveries s)" for i
  proof -
    have "row_moves (dl_id d) (outcomes opts d) (db_deliveries s ! i) (db_deliveries t ! i)"
      using assms(1) that by (auto simp: moves_to_def list_all2_conv_all_nth)
    moreover have "db_deliveries s ! i = d" if "dl_id (db_deliveries s ! i) = dl_id d"
      using distinct_map_unique[OF uniq _ assms(2) that] \<open>i < length (db_deliveries s)\<close> by simp
    ultimately show ?thesis
      using phase_waiting[OF assms(3)] by (auto simp: row_moves_def outcomes_def)
  qed
  moreover have "length (db_deliveries t) = length (db_deliveries s)"
    using assms(1) by (simp add: moves_to_def list_all2_lengthD)
  ultimately show ?thesis by (simp add: follows_def)
qed

text \<open>The deliveries a pass still has to handle are the rows of the table as they are now.\<close>

definition pass_rows :: "delivery list \<Rightarrow> database \<Rightarrow> bool" where
  "pass_rows due d \<longleftrightarrow> distinct (map dl_id due) \<and> (\<forall>x \<in> set due. x \<in> set (db_deliveries d) \<and> waiting x)"

lemma pass_rows_queues: "queues s t \<Longrightarrow> pass_rows due s \<Longrightarrow> pass_rows due t"
  by (auto simp: queues_def pass_rows_def)

lemma pass_rows_moves:
  assumes "moves_to (dl_id d) A s t" and "pass_rows (d # due) s"
  shows "pass_rows due t"
proof -
  have "x \<in> set (db_deliveries t)" if "x \<in> set due" for x
  proof -
    have "dl_id d \<notin> dl_id ` set due" using assms(2) by (simp add: pass_rows_def)
    then have "dl_id x \<noteq> dl_id d" using that by (metis imageI)
    moreover have "x \<in> set (db_deliveries s)" using assms(2) that by (simp add: pass_rows_def)
    then obtain i where "i < length (db_deliveries s)" "x = db_deliveries s ! i"
      by (metis in_set_conv_nth)
    ultimately have "x = db_deliveries t ! i" "i < length (db_deliveries t)"
      using assms(1) by (auto simp: moves_to_def row_moves_def list_all2_conv_all_nth)
    then show ?thesis by simp
  qed
  then show ?thesis using assms(2) by (auto simp: pass_rows_def)
qed

definition attempt_limit :: "app \<Rightarrow> int" where
  "attempt_limit app = (case ap_worker app of None \<Rightarrow> 0 | Some opts \<Rightarrow> op_max_attempt opts)"

lemma worker_step_follows:
  assumes ok: "schema_ok (tables_of s)" and p: "pass_rows (pass_batch s) (tables_of s)"
  shows "follows (attempt_limit app) (tables_of s) (tables_of (worker_step app now s))
    \<and> pass_rows (pass_batch (worker_step app now s)) (tables_of (worker_step app now s))"
proof (cases rule: worker_step_cases[of app now s])
  case idle
  then consider "worker_step app now s = s" | "worker_step app now s = s\<lparr>sy_pass := None\<rparr>" by blast
  then show ?thesis using p by cases (simp_all add: follows_refl pass_batch_def pass_rows_def)
next
  case (begun opts r t)
  have uniq: "distinct (map dl_id (db_deliveries (tables_of s)))"
    using ok by (simp add: schema_ok_def serials_def serial_ok_def)
  have same: "db_deliveries (ws_db t) = db_deliveries (tables_of s)"
    using keepsD[OF list_due_same_traffic begun(3)] by (simp add: on_ws_db_def same_traffic_def)
  have "pass_rows due (ws_db t)" if "r = Inr due" for due
    using list_due_Inr[of now "op_batch opts" "job_state s" due t] begun(3) that uniq
    by (auto simp: pass_rows_def same)
  then show ?thesis
    using same by (auto simp: begun(4) follows_refl pass_batch_def pass_rows_def split: sum.split)
next
  case (handled opts at d due r t)
  have d: "pass_rows (d # due) (tables_of s)" using p by (simp add: pass_batch_def handled(2))
  have m: "moves_to (dl_id d) (outcomes opts d) (tables_of s) (ws_db t)"
    using moves_to_dispatch_one[OF _ _ handled(3)] ok d by (simp add: pass_rows_def)
  have "follows (op_max_attempt opts) (tables_of s) (ws_db t)"
    using moves_to_follows[OF m] d ok by (simp add: pass_rows_def schema_ok_def serials_def serial_ok_def)
  moreover have "pass_rows due (ws_db t)" using m d by (rule pass_rows_moves)
  ultimately show ?thesis
    by (auto simp: handled(1,4) attempt_limit_def pass_batch_def pass_rows_def split: sum.split)
qed

text \<open>C21. Deliveries follow their state machine: over any sequence of requests and worker steps, with requests
  served in the middle of a pass and whatever statements fail, every row of the table has moved from where it was,
  or from a first wait without attempts if it is new, by steps of the machine alone: one more failed attempt below the
  limit, the dead letter at the limit and never before it, or the dispatch.\<close>

theorem deliveries_follow_the_lifecycle:
  assumes "reaches app s t" and "schema_ok (tables_of s)" and "sy_pass s = None"
  shows "follows (attempt_limit app) (tables_of s) (tables_of t)"
proof -
  let ?I = "\<lambda>u. follows (attempt_limit app) (tables_of s) (tables_of u) \<and> pass_rows (pass_batch u) (tables_of u)"
  have "?I t"
    using assms(1,2)
  proof (rule reaches_invariant_schema[where I = ?I])
    show "?I s" using assms(3) by (simp add: follows_refl pass_batch_def pass_rows_def)
  next
    fix env elapsed rq and u v :: system and rs page rs'
    assume u: "?I u" and p: "sy_pass v = sy_pass u"
      and run: "serve ((ap_server app)\<lparr>sv_metrics := Some page\<rparr>) env rq (sy_world u) = (rs', sy_world v)"
    have "queues (tables_of u) (tables_of v)" using queues.keeps_request run by (fastforce simp: on_w_db_def)
    then show "?I v" using u p queues_follows follows_trans pass_rows_queues by (metis pass_batch_def)
  next
    show "?I (worker_step app now u)" if "schema_ok (tables_of u)" "?I u" for now u
      using worker_step_follows[OF that(1)] that(2) follows_trans by blast
  qed (auto simp: pass_rows_def pass_batch_def follows_def)
  then show ?thesis by blast
qed

theorem deliveries_follow_the_lifecycle_witness:
  "follows 5 (tables_of sample_system) (tables_of sample_after)"
proof -
  have "attempt_limit sample_app = 5" by (simp add: attempt_limit_def sample_app_def default_options_def)
  with deliveries_follow_the_lifecycle[OF sample_reached sample_system_ok(1,3)] show ?thesis by simp
qed

end
