(* ===== verification/Progress.thy ===== *)
theory Progress
  imports Concurrent
begin

text \<open>
  Progress of the goroutines: the turns of the process as a schedule, and what a schedule has to give
  for requests to be answered and for the process to drain before it ends.
\<close>

section \<open>Schedules\<close>

text \<open>A turn by its label.\<close>

datatype move = Arrive string env request | Serve nat | Work instant | Fault "fault option list" | Restart

fun perform :: "app \<Rightarrow> move \<Rightarrow> hub \<Rightarrow> hub" where
  "perform app (Arrive page env rq) h = arrive app page env rq h"
| "perform app (Serve i) h = run_request i h"
| "perform app (Work now) h = run_worker app now h"
| "perform app (Fault p) h = h\<lparr>hb_core := with_plan p (hb_core h)\<rparr>"
| "perform app Restart h = restart h"

text \<open>The labelled moves are the turns.\<close>

lemma turn_iff_perform: "turn app h h' \<longleftrightarrow> (\<exists>m. h' = perform app m h)"
proof
  show "\<exists>m. h' = perform app m h" if "turn app h h'" using that by cases (metis perform.simps)+
  show "turn app h h'" if ex: "\<exists>m. h' = perform app m h"
  proof -
    from ex obtain m where "h' = perform app m h" by blast
    then show ?thesis by (cases m) (auto intro: turn.intros)
  qed
qed

text \<open>The process after \<open>n\<close> moves of a schedule.\<close>

primrec after :: "app \<Rightarrow> (nat \<Rightarrow> move) \<Rightarrow> hub \<Rightarrow> nat \<Rightarrow> hub" where
  "after app ms h 0 = h"
| "after app ms h (Suc n) = perform app (ms n) (after app ms h n)"

lemma after_takes_turns: "takes_turns app h (after app ms h n)"
  unfolding takes_turns_def
proof (induction n)
  case (Suc n)
  then show ?case using turn_iff_perform by (auto intro: rtranclp.rtrancl_into_rtrancl)
qed simp

section \<open>A task that is given turns comes to its end\<close>

text \<open>
  A task is a well-founded tree, so it ends after finitely many turns of its own, whatever the others
  have done to the state in between.
\<close>

lemma next_turn:
  fixes k :: nat
  assumes "\<exists>n \<ge> k. own n" and "\<And>n. k \<le> n \<Longrightarrow> \<not> own n \<Longrightarrow> f n = x \<Longrightarrow> f (Suc n) = x" and "f k = x"
  shows "\<exists>n \<ge> k. own n \<and> f n = x"
proof -
  obtain n where n: "k \<le> n" "own n" "\<And>m. k \<le> m \<Longrightarrow> m < n \<Longrightarrow> \<not> own m"
    using assms(1) exists_least_iff[of "\<lambda>n. k \<le> n \<and> own n"] by auto
  have "f m = x" if "k \<le> m" "m \<le> n" for m
    using that
  proof (induction m rule: nat_induct_at_least)
    case base
    show ?case by (rule assms(3))
  next
    case (Suc m)
    then show ?case using assms(2) n(3) by simp
  qed
  with n show ?thesis by blast
qed

lemma task_ends:
  fixes slot :: "nat \<Rightarrow> ('s, 'a) task"
  assumes often: "\<And>k. \<exists>n \<ge> k. own n"
    and other: "\<And>n g. k\<^sub>0 \<le> n \<Longrightarrow> \<not> own n \<Longrightarrow> slot n = Atomic g \<Longrightarrow> slot (Suc n) = Atomic g"
    and mine: "\<And>n g. k\<^sub>0 \<le> n \<Longrightarrow> own n \<Longrightarrow> slot n = Atomic g \<Longrightarrow> slot (Suc n) = fst (g (state n))"
    and "k\<^sub>0 \<le> k"
  shows "\<exists>n \<ge> k. \<exists>x. slot n = Done x"
  using \<open>k\<^sub>0 \<le> k\<close>
proof (induction "slot k" arbitrary: k)
  case (Done x)
  then show ?case by (metis order_refl)
next
  case (Atomic g)
  obtain n where n: "k \<le> n" "own n" "slot n = Atomic g"
    using next_turn[of k own slot "Atomic g"] often other Atomic.hyps(2) Atomic.prems by (metis order_trans)
  have "fst (g (state n)) \<in> Basic_BNFs.fsts (g (state n))" by (cases "g (state n)") simp
  moreover have "slot (Suc n) = fst (g (state n))" using mine n Atomic.prems by simp
  ultimately have "slot (Suc n) \<in> Basic_BNFs.fsts (g (state n))" by simp
  moreover have "k\<^sub>0 \<le> Suc n" using Atomic.prems n(1) by simp
  ultimately obtain m where "Suc n \<le> m" "\<exists>x. slot m = Done x"
    using Atomic.hyps(1)[OF rangeI] by blast
  then show ?case using n(1) by (intro exI[of _ m]) simp
qed

section \<open>Requests are answered\<close>

definition answered :: "nat \<Rightarrow> hub \<Rightarrow> bool" where
  "answered i h \<longleftrightarrow> (\<exists>r. hb_requests h ! i = Done r)"

lemma run_worker_requests: "hb_requests (run_worker app now h) = hb_requests h"
  by (simp add: run_worker_def case_prod_beta split: option.split task.split)

lemma request_slot:
  assumes "i < length (hb_requests h)" and "m \<noteq> Restart"
  shows "length (hb_requests h) \<le> length (hb_requests (perform app m h))"
    and "m \<noteq> Serve i \<or> hb_requests h ! i = Done r \<Longrightarrow> hb_requests (perform app m h) ! i = hb_requests h ! i"
    and "m = Serve i \<Longrightarrow> hb_requests h ! i = Atomic g \<Longrightarrow> hb_requests (perform app m h) ! i = fst (g (hb_core h))"
  using assms
  by (cases m; auto simp: arrive_def nth_append run_request_def advance_def run_worker_requests case_prod_beta Let_def
      nth_list_update split: task.split)+

lemma request_stays:
  assumes "i < length (hb_requests (after app ms h k))" and "\<And>n. k \<le> n \<Longrightarrow> ms n \<noteq> Restart" and "k \<le> n"
  shows "i < length (hb_requests (after app ms h n))"
  using assms(3)
proof (induction n rule: nat_induct_at_least)
  case (Suc n)
  then show ?case using request_slot(1)[of i "after app ms h n" "ms n" app] assms(2) by (fastforce intro: less_le_trans)
qed (rule assms(1))

lemma answer_stays:
  assumes "i < length (hb_requests (after app ms h k))" and "\<And>n. k \<le> n \<Longrightarrow> ms n \<noteq> Restart"
    and "hb_requests (after app ms h k) ! i = Done r" and "k \<le> n"
  shows "hb_requests (after app ms h n) ! i = Done r"
  using assms(4)
proof (induction n rule: nat_induct_at_least)
  case (Suc n)
  then show ?case
    using request_slot(2)[OF request_stays[OF assms(1,2)], of n "ms n" r app] assms(2) by simp
qed (rule assms(3))

lemma requests_are_answered_again:
  assumes "i < length (hb_requests (after app ms h k))"
    and "\<And>n. k \<le> n \<Longrightarrow> ms n \<noteq> Restart" and "\<And>k. \<exists>n \<ge> k. ms n = Serve i"
  shows "\<exists>n \<ge> k. \<exists>r. \<forall>m \<ge> n. hb_requests (after app ms h m) ! i = Done r"
proof -
  have "\<exists>n \<ge> k. \<exists>r. hb_requests (after app ms h n) ! i = Done r"
  proof (rule task_ends[where own = "\<lambda>n. ms n = Serve i" and state = "\<lambda>n. hb_core (after app ms h n)" and k\<^sub>0 = k])
    fix n and g :: "core \<Rightarrow> (core, response) task \<times> core" assume n: "k \<le> n"
    note slot = request_slot[OF request_stays[OF assms(1,2) n] assms(2)[OF n], where app = app]
    show "hb_requests (after app ms h (Suc n)) ! i = Atomic g"
      if "ms n \<noteq> Serve i" "hb_requests (after app ms h n) ! i = Atomic g"
      using slot(2) that by simp
    show "hb_requests (after app ms h (Suc n)) ! i = fst (g (hb_core (after app ms h n)))"
      if "ms n = Serve i" "hb_requests (after app ms h n) ! i = Atomic g"
      using slot(3) that by simp
  qed (use assms(3) in auto)
  then obtain n r where n: "k \<le> n" "hb_requests (after app ms h n) ! i = Done r" by blast
  show ?thesis
    using n request_stays[OF assms(1,2) n(1)] assms(2) answer_stays[of i app ms h n r]
    by (metis order_trans)
qed



section \<open>Passes come to their end\<close>

lemma pass_slot:
  assumes "ap_worker app = Some opts" and "hb_pass h = Atomic g" and "m \<noteq> Restart"
  shows "hb_pass (perform app m h) = (case m of Work _ \<Rightarrow> fst (g (hb_core h)) | _ \<Rightarrow> Atomic g)"
  using assms by (cases m) (simp_all add: arrive_def run_request_def run_worker_def case_prod_beta Let_def)

lemma passes_end:
  assumes "ap_worker app = Some opts" and "\<And>n. k \<le> n \<Longrightarrow> ms n \<noteq> Restart" and "\<And>k. \<exists>n \<ge> k. \<exists>now. ms n = Work now"
  shows "\<exists>n \<ge> k. \<exists>r. hb_pass (after app ms h n) = Done r"
proof (rule task_ends[where own = "\<lambda>n. \<exists>now. ms n = Work now" and state = "\<lambda>n. hb_core (after app ms h n)" and k\<^sub>0 = k])
  fix n and g :: "core \<Rightarrow> (core, db_error + unit) task \<times> core"
  assume "k \<le> n" and g: "hb_pass (after app ms h n) = Atomic g"
  then have slot: "hb_pass (after app ms h (Suc n)) = (case ms n of Work _ \<Rightarrow> fst (g (hb_core (after app ms h n))) | _ \<Rightarrow> Atomic g)"
    using pass_slot[OF assms(1) g assms(2)] by simp
  show "hb_pass (after app ms h (Suc n)) = Atomic g" if "\<nexists>now. ms n = Work now"
    using slot that by (cases "ms n") auto
  show "hb_pass (after app ms h (Suc n)) = fst (g (hb_core (after app ms h n)))" if "\<exists>now. ms n = Work now"
    using slot that by auto
qed (use assms(3) in auto)

section \<open>The process drains\<close>

definition drained :: "hub \<Rightarrow> bool" where
  "drained h \<longleftrightarrow> (\<forall>t \<in> set (hb_requests h). \<exists>r. t = Done r)"

text \<open>Without new requests, all of those in flight are answered at one time.\<close>

lemma requests_drain:
  assumes quiet: "\<And>n. k \<le> n \<Longrightarrow> ms n \<noteq> Restart \<and> (\<forall>page env rq. ms n \<noteq> Arrive page env rq)"
    and fair: "\<And>i k. i < length (hb_requests (after app ms h k)) \<Longrightarrow> \<exists>n \<ge> k. ms n = Serve i"
  shows "\<exists>n \<ge> k. drained (after app ms h n)"
proof -
  let ?l = "length (hb_requests (after app ms h k))"
  have same: "length (hb_requests (after app ms h n)) = ?l" if "k \<le> n" for n
    using that
  proof (induction n rule: nat_induct_at_least)
    case (Suc n)
    then show ?case using quiet[of n]
      by (cases "ms n") (auto simp: run_request_def run_worker_requests case_prod_beta Let_def)
  qed simp
  have "\<exists>n \<ge> k. \<forall>m \<ge> n. answered i (after app ms h m)" if i: "i < ?l" for i
  proof -
    have often: "\<exists>n \<ge> j. ms n = Serve i" for j
    proof -
      have "i < length (hb_requests (after app ms h (max j k)))" using same[of "max j k"] i by simp
      from fair[OF this] obtain n where "max j k \<le> n" "ms n = Serve i" by blast
      then show ?thesis by (intro exI[of _ n]) simp
    qed
    have "ms n \<noteq> Restart" if "k \<le> n" for n using quiet that by blast
    from requests_are_answered_again[OF i this often] show ?thesis unfolding answered_def by blast
  qed
  then have "\<forall>i. \<exists>n. i < ?l \<longrightarrow> k \<le> n \<and> (\<forall>m \<ge> n. answered i (after app ms h m))" by blast
  then obtain f where f: "\<And>i. i < ?l \<Longrightarrow> k \<le> f i \<and> (\<forall>m \<ge> f i. answered i (after app ms h m))"
    using choice[of "\<lambda>i n. i < ?l \<longrightarrow> k \<le> n \<and> (\<forall>m \<ge> n. answered i (after app ms h m))"] by blast
  define n where "n = Max (insert k (f ` {..< ?l}))"
  have n: "k \<le> n" "\<And>i. i < ?l \<Longrightarrow> f i \<le> n" unfolding n_def by (auto intro: Max_ge)
  then have "answered i (after app ms h n)" if "i < ?l" for i using f that by blast
  then have "drained (after app ms h n)"
    using same[OF n(1)] by (auto simp: drained_def in_set_conv_nth answered_def)
  with n(1) show ?thesis by blast
qed

end
