(* ===== verification/Recovery.thy ===== *)
theory Recovery
  imports HttpApi
begin

text \<open>
  The outer handlers of \<^verbatim>\<open>internal/httpapi/server.go\<close>: the log line of a request and the recovery from
  panics.  A handler here works on the writer of the answer, the world and the log, and returns or
  panics with a value.
\<close>

section \<open>Answers as they are written\<close>

text \<open>The first \<^verbatim>\<open>WriteHeader\<close> settles the status; what is written later is appended to the body.\<close>

record writer =
  wr_answer :: "response option"
  wr_rest :: "reply list"

definition put_json :: "int \<Rightarrow> reply \<Rightarrow> writer \<Rightarrow> writer" where
  "put_json status body wr = (case wr_answer wr of
     None \<Rightarrow> wr\<lparr>wr_answer := Some \<lparr>rs_status = status, rs_reply = body\<rparr>\<rparr>
   | Some _ \<Rightarrow> wr\<lparr>wr_rest := wr_rest wr @ [body]\<rparr>)"

datatype log_line = RequestLine string string duration | PanicLine string

record exchange =
  ex_writer :: writer
  ex_world :: world
  ex_log :: "log_line list"

text \<open>\<^term>\<open>Some p\<close> is a panic with the value \<open>p\<close>.\<close>

type_synonym http_handler = "exchange \<Rightarrow> string option \<times> exchange"

section \<open>The outer handlers\<close>

text \<open>The line is not deferred: a panic skips it.\<close>

definition with_logging :: "request \<Rightarrow> duration \<Rightarrow> http_handler \<Rightarrow> http_handler" where
  "with_logging rq elapsed next x = (case next x of
     (Some p, y) \<Rightarrow> (Some p, y)
   | (None, y) \<Rightarrow> (None, y\<lparr>ex_log := ex_log y @ [RequestLine (rq_method rq) (url_path rq) elapsed]\<rparr>))"

definition with_recovery :: "http_handler \<Rightarrow> http_handler" where
  "with_recovery next x = (case next x of
     (None, y) \<Rightarrow> (None, y)
   | (Some p, y) \<Rightarrow> (None, y\<lparr>ex_log := ex_log y @ [PanicLine p],
       ex_writer := put_json 500 InternalError (ex_writer y)\<rparr>))"

text \<open>The multiplexer with the authentication, and the handler \<^verbatim>\<open>NewServerWith\<close> builds.\<close>

definition handler_tree :: "server \<Rightarrow> env \<Rightarrow> request \<Rightarrow> http_handler" where
  "handler_tree sv env rq x = (let (rs, w) = serve sv env rq (ex_world x) in
     (None, x\<lparr>ex_world := w, ex_writer := put_json (rs_status rs) (rs_reply rs) (ex_writer x)\<rparr>))"

definition new_server_with :: "server \<Rightarrow> env \<Rightarrow> request \<Rightarrow> duration \<Rightarrow> http_handler" where
  "new_server_with sv env rq elapsed = with_recovery (with_logging rq elapsed (handler_tree sv env rq))"

definition fresh_exchange :: "world \<Rightarrow> exchange" where
  "fresh_exchange w = \<lparr>ex_writer = \<lparr>wr_answer = None, wr_rest = []\<rparr>, ex_world = w, ex_log = []\<rparr>"

section \<open>What they make of a handler\<close>

text \<open>
  Whatever the inner handler is, nothing escapes and something is logged; a panic before an answer becomes
  a 500, and one after an answer leaves its status and first body.
\<close>

lemma recovery_contains_panics:
  assumes "next x = (p, y)"
  shows "fst (with_recovery (with_logging rq elapsed next) x) = None"
    and "ex_world (snd (with_recovery (with_logging rq elapsed next) x)) = ex_world y"
    and "ex_log (snd (with_recovery (with_logging rq elapsed next) x)) = ex_log y @ [case p of
           None \<Rightarrow> RequestLine (rq_method rq) (url_path rq) elapsed | Some v \<Rightarrow> PanicLine v]"
    and "wr_answer (ex_writer (snd (with_recovery (with_logging rq elapsed next) x))) = (case (p, wr_answer (ex_writer y)) of
           (Some v, None) \<Rightarrow> Some \<lparr>rs_status = 500, rs_reply = InternalError\<rparr> | (_, a) \<Rightarrow> a)"
  using assms by (simp_all add: with_recovery_def with_logging_def put_json_def split: option.split)

text \<open>The handler of the server writes one answer, that of \<^term>\<open>serve\<close>, and logs one line.\<close>

lemma new_server_answers:
  "new_server_with sv env rq elapsed (fresh_exchange w) = (None,
     \<lparr>ex_writer = \<lparr>wr_answer = Some (fst (serve sv env rq w)), wr_rest = []\<rparr>, ex_world = snd (serve sv env rq w),
      ex_log = [RequestLine (rq_method rq) (url_path rq) elapsed]\<rparr>)"
  by (simp add: new_server_with_def with_recovery_def with_logging_def handler_tree_def fresh_exchange_def put_json_def
      split: prod.split)

end
