(* ===== verification/Process.thy ===== *)
theory Process
  imports Progress Recovery
begin

text \<open>
  The end of \<^verbatim>\<open>run\<close> in \<^verbatim>\<open>cmd/server/main.go\<close>: listening, the signal, the shutdown with its timeout and
  the exit of the process, around the goroutines of \<^verbatim>\<open>Hub\<close>.
\<close>

section \<open>Stages\<close>

text \<open>What \<^verbatim>\<open>run\<close> returns once the server has been started.\<close>

datatype run_error = ListenFailed string | CloseFailed string | DeadlineExceeded

datatype stage = Serving | Draining instant | Ended "run_error option"

record process =
  pr_hub :: hub
  pr_stage :: stage

text \<open>\<^verbatim>\<open>main\<close> exits with 1 after \<^verbatim>\<open>log.Fatalf\<close>.\<close>

fun exit_code :: "stage \<Rightarrow> int option" where
  "exit_code (Ended None) = Some 0"
| "exit_code (Ended (Some e)) = Some 1"
| "exit_code s = None"

text \<open>
  After the signal the context of the worker is cancelled: every statement it still makes fails, those
  that were under way perhaps after their effect.  The statements of the requests are not concerned.
\<close>

definition canceled :: db_error where
  "canceled = Refused ''context canceled''"

definition canceled_work :: "app \<Rightarrow> fault \<Rightarrow> instant \<Rightarrow> hub \<Rightarrow> hub" where
  "canceled_work app f now h = (let plan = db_plan (rows (hb_core h));
       h' = run_worker app now (h\<lparr>hb_core := with_plan [Some f] (hb_core h)\<rparr>) in
     h'\<lparr>hb_core := with_plan plan (hb_core h')\<rparr>)"

text \<open>
  The server serves until listening fails or a signal comes.  After the signal no request arrives any more;
  those in flight go on.  \<^verbatim>\<open>Shutdown\<close> returns when all are answered, with the error of closing the
  listener if there is one, or when its context has expired.  A process that has ended, or is
  killed at any moment, is started again.
\<close>

inductive live :: "app \<Rightarrow> process \<Rightarrow> process \<Rightarrow> bool" for app where
  Goes: "pr_stage p = Serving \<Longrightarrow> m \<noteq> Restart \<Longrightarrow> live app p (p\<lparr>pr_hub := perform app m (pr_hub p)\<rparr>)"
| ListenFails: "pr_stage p = Serving \<Longrightarrow> live app p (p\<lparr>pr_stage := Ended (Some (ListenFailed e))\<rparr>)"
| Signals: "pr_stage p = Serving \<Longrightarrow> live app p (p\<lparr>pr_stage := Draining (now + ap_shutdown app)\<rparr>)"
| DrainsRequest: "pr_stage p = Draining d \<Longrightarrow> live app p (p\<lparr>pr_hub := perform app (Serve i) (pr_hub p)\<rparr>)"
| DrainsFault: "pr_stage p = Draining d \<Longrightarrow> live app p (p\<lparr>pr_hub := perform app (Fault plan) (pr_hub p)\<rparr>)"
| DrainsWorker: "pr_stage p = Draining d \<Longrightarrow> f \<in> {FailBefore canceled, FailAfter canceled} \<Longrightarrow>
    live app p (p\<lparr>pr_hub := canceled_work app f now (pr_hub p)\<rparr>)"
| Closes: "pr_stage p = Draining d \<Longrightarrow> drained (pr_hub p) \<Longrightarrow>
    live app p (p\<lparr>pr_stage := Ended (map_option CloseFailed err)\<rparr>)"
| Expires: "pr_stage p = Draining d \<Longrightarrow> d \<le> now \<Longrightarrow> live app p (p\<lparr>pr_stage := Ended (Some DeadlineExceeded)\<rparr>)"
| Starts: "live app p \<lparr>pr_hub = restart (pr_hub p), pr_stage = Serving\<rparr>"

inductive_cases liveE: "live app p q"

definition lives :: "app \<Rightarrow> process \<Rightarrow> process \<Rightarrow> bool" where
  "lives app = (live app)\<^sup>*\<^sup>*"

lemma lives_refl: "lives app p p"
  by (simp add: lives_def)

lemma lives_step: "live app p q \<Longrightarrow> lives app q r \<Longrightarrow> lives app p r"
  by (simp add: lives_def converse_rtranclp_into_rtranclp)

section \<open>The stages refine the goroutines\<close>

lemma turn_turns: "turn app h h' \<Longrightarrow> takes_turns app h h'"
  by (simp add: takes_turns_def)

lemma performs: "takes_turns app h (perform app m h)"
  by (rule turn_turns) (auto simp: turn_iff_perform)

lemma takes_turns_trans: "takes_turns app h t \<Longrightarrow> takes_turns app t u \<Longrightarrow> takes_turns app h u"
  by (simp add: takes_turns_def)

lemma canceled_work_turns: "takes_turns app h (canceled_work app f now h)"
  unfolding canceled_work_def Let_def by (intro takes_turns_step takes_turns_refl)

lemma live_turns: "live app p q \<Longrightarrow> takes_turns app (pr_hub p) (pr_hub q)"
  by (erule liveE)
    (simp_all add: performs canceled_work_turns takes_turns_refl takes_turns_step[OF takes_turns_refl])

lemma lives_turns: "lives app p q \<Longrightarrow> takes_turns app (pr_hub p) (pr_hub q)"
  unfolding lives_def
  by (induction rule: rtranclp_induct) (auto intro: takes_turns_refl takes_turns_trans live_turns)

lemma live_drained: "live app p q \<Longrightarrow> pr_stage q = Ended None \<Longrightarrow> drained (pr_hub q)"
  by (erule liveE) auto


text \<open>A request, the signal while it is in flight, its answer, and the end.\<close>

definition health_request :: request where
  "health_request = \<lparr>rq_method = ''GET'', rq_target = ''/healthz'', rq_query = [], rq_api_key = [], rq_remote = [],
     rq_body = Document DNull\<rparr>"

definition sample_process :: process where
  "sample_process = \<lparr>pr_hub = sample_hub, pr_stage = Serving\<rparr>"

definition sample_end :: process where
  "sample_end = \<lparr>pr_hub = run_request 0 (arrive sample_app [] sample_env health_request sample_hub), pr_stage = Ended None\<rparr>"

lemma health_answered: "drained (pr_hub sample_end)"
proof -
  have "find_handler True health_request = Found Healthz []" by code_simp
  moreover have "\<not> requires_auth health_request" by code_simp
  ultimately have "serve_flow ((ap_server sample_app)\<lparr>sv_metrics := Some []\<rparr>) sample_env health_request = act handle_healthz"
    by (simp add: serve_flow_def dispatch_request_flow_def handle_flow_def handle_def sample_app_def split: option.split)
  then show ?thesis
    by (simp add: drained_def sample_end_def arrive_def sample_hub_def run_request_def advance_def act_def once_def case_prod_beta)
qed

lemma sample_ended: "lives sample_app sample_process sample_end"
proof -
  let ?h = "arrive sample_app [] sample_env health_request sample_hub"
  let ?d = "0 + ap_shutdown sample_app"
  have "live sample_app sample_process (sample_process\<lparr>pr_hub := perform sample_app (Arrive [] sample_env health_request) (pr_hub sample_process)\<rparr>)"
    by (rule Goes) (simp_all add: sample_process_def)
  then have 1: "live sample_app sample_process \<lparr>pr_hub = ?h, pr_stage = Serving\<rparr>" by (simp add: sample_process_def)
  have 2: "live sample_app \<lparr>pr_hub = ?h, pr_stage = Serving\<rparr> \<lparr>pr_hub = ?h, pr_stage = Draining ?d\<rparr>"
    using Signals[of "\<lparr>pr_hub = ?h, pr_stage = Serving\<rparr>" sample_app 0] by simp
  have 3: "live sample_app \<lparr>pr_hub = ?h, pr_stage = Draining ?d\<rparr> \<lparr>pr_hub = run_request 0 ?h, pr_stage = Draining ?d\<rparr>"
    using DrainsRequest[of "\<lparr>pr_hub = ?h, pr_stage = Draining ?d\<rparr>" ?d sample_app 0] by simp
  have 4: "live sample_app \<lparr>pr_hub = run_request 0 ?h, pr_stage = Draining ?d\<rparr> sample_end"
    using Closes[of "\<lparr>pr_hub = run_request 0 ?h, pr_stage = Draining ?d\<rparr>" ?d sample_app None] health_answered
    by (simp add: sample_end_def)
  show ?thesis by (rule lives_step[OF 1 lives_step[OF 2 lives_step[OF 3 lives_step[OF 4 lives_refl]]]])
qed


section \<open>The worker after the signal\<close>

text \<open>Under a plan that fails the next statement before its effect, a step of a pass changes no table.\<close>

definition idles :: "core \<Rightarrow> core \<Rightarrow> bool" where
  "idles c c' \<longleftrightarrow> (db_plan (rows c) = [Some (FailBefore canceled)] \<longrightarrow> same_tables (rows c) (rows c'))"

lemma idles_store_call: "every idles (work (store_call st))"
  unfolding work_def
  by (rule every_once) (simp add: idles_def through_def job_part_def put_job_def store_call_def exec_def Let_def same_tables_def)

lemma idles_send: "every idles (work (send sink topic p))"
  unfolding work_def
  by (rule every_once) (simp add: idles_def through_def job_part_def put_job_def send_def Let_def same_tables_def)

lemma idles_pass: "every idles (pass_flow opts sink now)"
  unfolding pass_flow_def dispatch_flow_def failure_flow_def Let_def
  by (auto intro!: every_then every_each idles_store_call idles_send split: option.split)

lemma turn_idles:
  assumes "turn app h h'" and "every idles (hb_pass h)"
  shows "every idles (hb_pass h')"
  using assms(1)
proof cases
  case (Works now)
  then show ?thesis
    using assms(2) idles_pass
    by (cases "hb_pass h") (auto simp: run_worker_def case_prod_beta Let_def every_Atomic simp del: every.simps(2) split: option.split)
qed (use assms(2) in \<open>simp_all add: arrive_def run_request_def restart_def case_prod_beta Let_def\<close>)

text \<open>A pass that is under way when the signal comes, wherever it is, changes no row any more.\<close>

theorem canceled_worker_changes_nothing:
  assumes "lives app p q" and "idle (pr_hub p)"
  shows "same_tables (rows (hb_core (pr_hub q))) (rows (hb_core (canceled_work app (FailBefore canceled) now (pr_hub q))))"
proof -
  have "every idles (hb_pass (pr_hub q))"
    using lives_turns[OF assms(1)] unfolding takes_turns_def
  proof (induction rule: rtranclp_induct)
    case base
    then show ?case using assms(2) by (auto simp: idle_def)
  qed (rule turn_idles)
  then show ?thesis
    by (cases "hb_pass (pr_hub q)")
      (auto simp: canceled_work_def run_worker_def with_plan_def idles_def every_Atomic same_tables_def case_prod_beta Let_def
        simp del: every.simps(2) split: option.split)
qed

end
