(* ===== verification/Spec2Isabelle.thy ===== *)
theory Spec2Isabelle
  imports Races Lifecycle Process
begin

text \<open>
  \<^bold>\<open>A verification of the device telemetry router\<close>

  \<^bold>\<open>The program.\<close>  The router (Go, \<^verbatim>\<open>src/\<close>) takes telemetry lines over HTTP, checks them
  (\<^verbatim>\<open>internal/parser\<close>), stores each measurement once (\<^verbatim>\<open>internal/dedup\<close>, \<^verbatim>\<open>internal/store\<close> on PostgreSQL),
  matches it against routing rules (\<^verbatim>\<open>internal/router\<close>) and queues one delivery per matching rule; a worker
  (\<^verbatim>\<open>internal/worker\<close>) hands the deliveries to a sink, with retries and dead letters.  The use cases are in
  \<^verbatim>\<open>internal/service\<close>, the routes, handlers and error answers in \<^verbatim>\<open>internal/httpapi\<close>, the API keys in
  \<^verbatim>\<open>internal/auth\<close>, the counters and histograms in \<^verbatim>\<open>internal/metrics\<close>, the settings in \<^verbatim>\<open>internal/config\<close>;
  \<^verbatim>\<open>cmd/server\<close> wires them.  A request goes through the instruments, the authentication and a handler to a use
  case, which talks to the store statement by statement or in one transaction; the worker shares
  nothing with the requests but the database.

  \<^bold>\<open>Go and its library.\<close>  \<^verbatim>\<open>Prelude\<close> has the sums for \<^verbatim>\<open>(T, error)\<close>, state passing (\<^verbatim>\<open>andThen\<close>,
  \<^verbatim>\<open>for_each\<close>) and the locale \<^verbatim>\<open>step_preorder\<close> of relations a computation keeps; 64-bit arithmetic is
  written out (\<^verbatim>\<open>wrap64\<close>).  \<^verbatim>\<open>GoBytes\<close> and \<^verbatim>\<open>GoText\<close> model bytes, UTF-8, trimming and case folding, \<^verbatim>\<open>GoFloat\<close>
  exact binary64 numbers, \<^verbatim>\<open>GoStrconv\<close> number parsing and printing, \<^verbatim>\<open>GoTime\<close> and \<^verbatim>\<open>GoDuration\<close> instants,
  RFC 3339 and durations, \<^verbatim>\<open>GoPath\<close> glob patterns, \<^verbatim>\<open>GoSha256\<close> the hash, \<^verbatim>\<open>GoJson\<close> the decoding of JSON
  documents into structs.  They hold what the program uses, with the facts the components need.

  \<^bold>\<open>Components.\<close>
  \<^item> \<^verbatim>\<open>Domain\<close>: \<^verbatim>\<open>domain.go\<close>, \<^verbatim>\<open>errors.go\<close>.  A record per struct, a datatype per enumeration; the predeclared
    errors are a map from names to objects (\<^verbatim>\<open>initial_error\<close>) that \<^verbatim>\<open>with_details\<close> updates, as they are shared.
  \<^item> \<^verbatim>\<open>Parser\<close>: \<^verbatim>\<open>ParseMessage\<close>, \<^verbatim>\<open>BuildMessage\<close>, the CRC on 16-bit words.  \<^verbatim>\<open>Dedup\<close>: \<^verbatim>\<open>Key\<close>, \<^verbatim>\<open>WithinWindow\<close>.
  \<^item> \<^verbatim>\<open>Expr\<close>, \<^verbatim>\<open>Router\<close>: the recursive-descent evaluator of \<^verbatim>\<open>expr.go\<close> (with fuel) and \<^verbatim>\<open>Match\<close>.
  \<^item> \<^verbatim>\<open>Database\<close>, \<^verbatim>\<open>Store\<close>: the schema of \<^verbatim>\<open>migrate.go\<close> as a record of tables and sequences; each SQL
    statement of \<^verbatim>\<open>pg_*.go\<close> as a function that reports constraint violations; \<^verbatim>\<open>InTx\<close>.  A list of faults
    (\<^verbatim>\<open>db_plan\<close>) makes any statement, commits included, fail before or after it takes effect.  The rounding
    of times and the collation of the server are parameters of the database.
  \<^item> \<^verbatim>\<open>Service\<close>, \<^verbatim>\<open>ServiceFacts\<close>: every use case of \<^verbatim>\<open>internal/service\<close>.
  \<^item> \<^verbatim>\<open>Auth\<close>, \<^verbatim>\<open>HttpApi\<close>, \<^verbatim>\<open>HttpFacts\<close>, \<^verbatim>\<open>HttpErrors\<close>: keys and middleware, the route table and its lookup, every
    handler, the answers and the static paths.
  \<^item> \<^verbatim>\<open>Worker\<close>, \<^verbatim>\<open>WorkerFacts\<close>, \<^verbatim>\<open>WorkerSafety\<close>: \<^verbatim>\<open>processOnce\<close>, \<^verbatim>\<open>dispatchOne\<close>, \<^verbatim>\<open>handleFailure\<close>, \<^verbatim>\<open>backoff\<close>; the
    sink is a function of what was dispatched before, the topic and the payload.
  \<^item> \<^verbatim>\<open>Config\<close>, \<^verbatim>\<open>Metrics\<close>: \<^verbatim>\<open>Load\<close> over an environment; instruments, registry and text format.
  \<^item> \<^verbatim>\<open>Server\<close>: \<^verbatim>\<open>run\<close> up to the start of the server (\<^verbatim>\<open>wire\<close>), \<^verbatim>\<open>instrumentHandler\<close>, \<^verbatim>\<open>countingSink\<close>, and the
    process as a step relation: a request, a step of the worker (between two deliveries), a new list of
    faults.  \<^verbatim>\<open>reaches\<close> is its closure.
  \<^item> \<^verbatim>\<open>Tasks\<close>, \<^verbatim>\<open>Flows\<close>, \<^verbatim>\<open>Hub\<close>: the same use cases, handlers and pass, cut where other goroutines can run
    (after every statement or transaction, after every authentication, between an error and its answer),
    and the process (\<^verbatim>\<open>hub\<close>) in which any number of requests, the worker, faults and restarts take turns.
  \<^item> \<^verbatim>\<open>Recovery\<close>: \<^verbatim>\<open>withLogging\<close>, \<^verbatim>\<open>withRecovery\<close> and the handler \<^verbatim>\<open>NewServerWith\<close> builds, over a writer that
    keeps the first status.  \<^verbatim>\<open>Process\<close>: the end of \<^verbatim>\<open>run\<close> (\<^verbatim>\<open>live\<close>): listening fails, a signal comes, requests drain
    while the worker's context is cancelled, the shutdown returns or its timeout expires; the exit code.

  \<^bold>\<open>Contracts.\<close>  What the clients of the store rely on are locales in \<^verbatim>\<open>Store\<close>: a relation between databases
  that a group of statements keeps (\<^verbatim>\<open>registry_relation\<close>, \<^verbatim>\<open>queue_relation\<close>, \<^verbatim>\<open>intake_relation\<close>,
  \<^verbatim>\<open>work_relation\<close>, \<^verbatim>\<open>rules_relation\<close> and their unions).  Each use case, handler, pass and step is proved to
  keep such a relation once, inside the locale; the invariants are interpretations: the schema
  (\<^verbatim>\<open>schema_step\<close>), append-only tables (\<^verbatim>\<open>history\<close>), no new dispatch (\<^verbatim>\<open>calm\<close>), untouched rules
  (\<^verbatim>\<open>same_rules\<close>), untouched traffic (\<^verbatim>\<open>same_traffic\<close>), well-formed devices (\<^verbatim>\<open>keeps_typed\<close>) and others.
  \<^verbatim>\<open>keyed_table\<close> is the contract of a table with a key.  \<^verbatim>\<open>part_of\<close> (\<^verbatim>\<open>Tasks\<close>) relates an interruptible task
  to the action it runs as, \<^verbatim>\<open>rely_guarantee\<close> is the discipline of one goroutine: an invariant and a
  relation every step keeps whatever the others did before; \<^verbatim>\<open>schedule\<close> (\<^verbatim>\<open>Hub\<close>) is what an invariant of all of
  them takes, once for every property of the interleaved process.

  \<^bold>\<open>What is shown.\<close>
  \<^item> Parsing: acceptance characterised, round trip with \<^verbatim>\<open>BuildMessage\<close>, the checksum detects every change of
    two neighbouring bytes.  Keys: the hashed text separates measurements (SHA-256 itself is computed,
    not assumed injective).  Rules: the evaluator agrees with a syntax tree, returns on every input; the
    order of the matches is determined.
  \<^item> Ingestion: what an accepted message adds, repeated messages, errors that leave no trace.
  \<^item> The life of the process, under faults: one waiting delivery per event and rule, settled deliveries are
    final, every delivery follows an abstract state machine (\<^verbatim>\<open>Lifecycle\<close>), the change log gives
    the table of the rules, the metrics are true (\<^verbatim>\<open>ServerFacts\<close>,
    \<^verbatim>\<open>ExactlyOnce\<close>, \<^verbatim>\<open>Deliveries\<close>, \<^verbatim>\<open>ChangeLog\<close>); and, for every interleaving of statements and across
    restarts (\<^verbatim>\<open>Concurrent\<close>, \<^verbatim>\<open>Answers\<close>, \<^verbatim>\<open>Operators\<close>), each measurement stored once and as it was sent, well-formed
    rows, true reports of deliveries, append-only tables, error answers with the right code and status,
    rule changes that name configured operators.  \<^verbatim>\<open>Flows\<close> shows that the interruptible program, run alone,
    is the program of the other theories.  \<^verbatim>\<open>Answers\<close> and \<^verbatim>\<open>Races\<close> also show what interleaving does break: the details of an
    error, the waiting deliveries, the change log.
  \<^item> Progress: under every schedule, a request that keeps getting turns is answered and a pass ends (\<^verbatim>\<open>Progress\<close>);
    an exit with code 0 has answered every request, and no end of the process harms the database
    (\<^verbatim>\<open>Process\<close>).  A panic of any inner handler would be contained by the recovery (\<^verbatim>\<open>Recovery\<close>).
  \<^item> Worker: a pass in closed form, bounded attempts, every delivery settles, the backoff in closed form.
  \<^item> HTTP: no effect without a key, attribution of rule changes, canonical error answers, files only below
    the static directory; pagination and due batches; histograms; key pairs and settings.

  \<^bold>\<open>Fuel.\<close>  Only the evaluator of \<^verbatim>\<open>expr.go\<close> has fuel, four units per byte of the expression and three
  more; \<^verbatim>\<open>parse_or_returns\<close> shows that it is enough on every input.  Everything else is structurally
  recursive or has a measure.

  \<^bold>\<open>Not modelled.\<close>  The text level of HTTP and JSON (a request has its path, query, key and body document),
  the file system behind the static files, the log lines other than those of requests and recovered
  panics, CONNECT and \<^verbatim>\<open>*\<close> requests.  Listening, signals and the clock are arbitrary steps of
  \<^verbatim>\<open>live\<close>.  No modelled handler panics, so the recovery is stated for an arbitrary inner handler.
  A transaction is one step: how the server interleaves the
  statements of overlapping transactions is its own affair, and what the schema does not forbid is not
  assumed of it.  In \<^verbatim>\<open>Server\<close> one request is served at a time; the instruments are not part of \<^verbatim>\<open>hub\<close>.
\<close>

end
